(* ===== verification/Padlock_Prelude.thy ===== *)
theory Padlock_Prelude
  imports Main "HOL-Library.Word" "HOL-Library.Monad_Syntax"
begin

text \<open>
  Shared vocabulary of the Padlock development.

  \<^item> The machine types of the C sources: \<open>byte\<close> is \<open>unsigned char\<close>, \<open>u32\<close> is
    \<open>uint32_t\<close>, \<open>u64\<close> is \<open>uint64_t\<close> and, on the 64-bit targets the project builds
    for, \<open>size_t\<close>. Addition on them wraps, as in C.
  \<^item> C strings are \<open>string\<close>, the characters before the terminator, so that
    \<open>strlen\<close> is \<open>length\<close>. A pointer that may be \<open>NULL\<close> is an option.
  \<^item> A function whose C body could leave a buffer returns an option: \<open>None\<close> says that
    the C code has undefined behaviour on this input (an access outside an array), and the
    do-notation of the option monad passes it on. A failure the C code reports itself
    (\<open>return -1\<close>) is a value of the result type, never this \<open>None\<close>.
  \<^item> Buffers are lists of bytes of the buffer's size. \<open>window\<close> and \<open>overlay\<close> are the
    unchecked read and write, \<open>buf_read\<close> and \<open>buf_write\<close> the checked ones.
\<close>

unbundle bit_operations_syntax

type_synonym byte = "8 word"
type_synonym u32 = "32 word"
type_synonym u64 = "64 word"

named_theorems buffer_simps \<open>reading buffers that have been written\<close>

section \<open>Buffers\<close>

definition window :: "'a list \<Rightarrow> nat \<Rightarrow> nat \<Rightarrow> 'a list" where
  "window b off n = take n (drop off b)"

definition overlay :: "'a list \<Rightarrow> nat \<Rightarrow> 'a list \<Rightarrow> 'a list" where
  "overlay b off s = take off b @ s @ drop (off + length s) b"

definition buf_read :: "'a list \<Rightarrow> nat \<Rightarrow> nat \<Rightarrow> 'a list option" where
  "buf_read b off n = (if off + n \<le> length b then Some (window b off n) else None)"

definition buf_write :: "'a list \<Rightarrow> nat \<Rightarrow> 'a list \<Rightarrow> 'a list option" where
  "buf_write b off s = (if off + length s \<le> length b then Some (overlay b off s) else None)"

lemma length_window: "length (window b off n) = min n (length b - off)"
  by (simp add: window_def)

lemma length_window_in [simp]: "off + n \<le> length b \<Longrightarrow> length (window b off n) = n"
  by (simp add: window_def)

lemma length_overlay [simp]: "off + length s \<le> length b \<Longrightarrow> length (overlay b off s) = length b"
  by (simp add: overlay_def)

lemma window_all [simp]: "window b 0 (length b) = b"
  by (simp add: window_def)

lemma window_0 [simp]: "window b off 0 = []"
  by (simp add: window_def)

lemma nth_window: "i < n \<Longrightarrow> off + n \<le> length b \<Longrightarrow> window b off n ! i = b ! (off + i)"
  by (simp add: window_def)

lemma nth_overlay:
  "off + length s \<le> length b \<Longrightarrow> i < length b \<Longrightarrow>
     overlay b off s ! i = (if i < off then b ! i else if i < off + length s then s ! (i - off) else b ! i)"
  by (auto simp: overlay_def nth_append min_def)

lemma window_overlay_same [buffer_simps]:
  "off + length s \<le> length b \<Longrightarrow> length s = n \<Longrightarrow> window (overlay b off s) off n = s"
  by (simp add: window_def overlay_def)

lemma window_overlay_before [buffer_simps]:
  "off' + n \<le> off \<Longrightarrow> off + length s \<le> length b \<Longrightarrow> window (overlay b off s) off' n = window b off' n"
  by (rule nth_equalityI) (simp_all add: nth_window nth_overlay)

lemma window_overlay_after [buffer_simps]:
  "off + length s \<le> off' \<Longrightarrow> off + length s \<le> length b \<Longrightarrow> window (overlay b off s) off' n = window b off' n"
  by (simp add: window_def overlay_def drop_append)

lemma window_window:
  "off' + m \<le> n \<Longrightarrow> window (window b off n) off' m = window b (off + off') m"
  by (simp add: window_def take_drop drop_drop add.commute min_def)

lemma window_append_left: "off + n \<le> length a \<Longrightarrow> window (a @ b) off n = window a off n"
  by (simp add: window_def)

lemma window_append_right: "length a \<le> off \<Longrightarrow> window (a @ b) off n = window b (off - length a) n"
  by (simp add: window_def)

lemma window_replicate [simp]:
  "off + n \<le> m \<Longrightarrow> window (replicate m x) off n = replicate n x"
  by (simp add: window_def)

lemma overlay_all [simp]: "length s = length b \<Longrightarrow> overlay b 0 s = s"
  by (simp add: overlay_def)

lemma window_split: "k \<le> n \<Longrightarrow> take k (window b off n) @ window b (off + k) (n - k) = window b off n"
proof -
  have "window b (off + k) (n - k) = drop k (window b off n)"
    by (simp add: window_def drop_take add.commute)
  then show ?thesis by simp
qed

lemma take_window: "m \<le> n \<Longrightarrow> take m (window b off n) = window b off m"
  by (simp add: window_def)

lemma window_take: "off + n \<le> m \<Longrightarrow> window (take m b) off n = window b off n"
  by (simp add: window_def drop_take min_def)

lemma buf_readD: "buf_read b off n = Some r \<Longrightarrow> r = window b off n \<and> off + n \<le> length b"
  by (simp add: buf_read_def split: if_splits)

lemma buf_read_in [simp]: "off + n \<le> length b \<Longrightarrow> buf_read b off n = Some (window b off n)"
  by (simp add: buf_read_def)

lemma buf_write_in [simp]: "off + length s \<le> length b \<Longrightarrow> buf_write b off s = Some (overlay b off s)"
  by (simp add: buf_write_def)

lemma buf_writeD: "buf_write b off s = Some r \<Longrightarrow> r = overlay b off s \<and> off + length s \<le> length b"
  by (simp add: buf_write_def split: if_splits)

lemma buf_write_length: "buf_write b off s = Some r \<Longrightarrow> length r = length b"
  by (auto dest!: buf_writeD)

section \<open>Characters as bytes\<close>

text \<open>The bytes of a C string, as \<open>memcpy\<close> and \<open>memcmp\<close> see them.\<close>

definition bytes :: "string \<Rightarrow> byte list" where
  "bytes s = map of_char s"

lemma length_bytes [simp]: "length (bytes s) = length s"
  by (simp add: bytes_def)

lemma unat_of_char: "unat (of_char c :: byte) = of_char c"
proof -
  have b: "(of_char c :: byte) = of_nat (of_char c)"
    by (rule of_nat_of_char [symmetric])
  have "(of_char c :: nat) < 2 ^ LENGTH(8)"
    using nat_of_char_less_256 [of c] by simp
  then show ?thesis
    unfolding b by (simp add: unsigned_of_nat take_bit_nat_eq_self)
qed

lemma of_char_byte_inject: "(of_char c :: byte) = of_char d \<longleftrightarrow> c = d"
  by (metis unat_of_char of_char_eq_iff)

lemma bytes_inject [simp]: "bytes s = bytes t \<longleftrightarrow> s = t"
  unfolding bytes_def by (rule inj_map_eq_map) (simp add: inj_def of_char_byte_inject)

lemma bytes_append [simp]: "bytes (s @ t) = bytes s @ bytes t"
  by (simp add: bytes_def)

definition chars :: "byte list \<Rightarrow> string" where
  "chars b = map (\<lambda>x. char_of (unat x)) b"

lemma length_chars [simp]: "length (chars b) = length b"
  by (simp add: chars_def)

lemma chars_bytes [simp]: "chars (bytes s) = s"
  by (induction s) (simp_all add: chars_def bytes_def unat_of_char)

lemma bytes_chars [simp]: "bytes (chars b) = b"
proof -
  have "(of_char (char_of (unat x)) :: byte) = x" for x :: byte
  proof -
    have "unat x < 2 ^ LENGTH(8)" by (rule unsigned_less)
    then have "(of_char (char_of (unat x)) :: nat) = unat x" by simp
    moreover have "(of_char c :: byte) = of_nat (of_char c)" for c by (rule of_nat_of_char [symmetric])
    ultimately show ?thesis by simp
  qed
  then show ?thesis by (induction b) (simp_all add: bytes_def chars_def)
qed

abbreviation NUL :: char where "NUL \<equiv> CHR 0x00"

text \<open>The string in a character array.\<close>

definition c_string :: "string \<Rightarrow> string option" where
  "c_string a = (if NUL \<in> set a then Some (takeWhile (\<lambda>c. c \<noteq> NUL) a) else None)"

lemma c_string_cut: "NUL \<notin> set s \<Longrightarrow> c_string (s @ NUL # t) = Some s"
  by (induction s) (auto simp: c_string_def)

section \<open>Words\<close>

lemma unat_add_no_wrap:
  "unat a + unat b < 2 ^ LENGTH('a) \<Longrightarrow> unat (a + b :: 'a::len word) = unat a + unat b"
  by (simp add: unat_word_ariths)

lemma unat_ucast_up: "LENGTH('a::len) \<le> LENGTH('b::len) \<Longrightarrow> unat (ucast (x :: 'a word) :: 'b word) = unat x"
  by (simp add: unsigned_ucast_eq take_bit_nat_eq_self order_less_le_trans [OF unsigned_less])

lemma sint_eq_unat:
  assumes "unat (x :: 'a::len word) < 2 ^ (LENGTH('a) - 1)"
  shows "sint x = int (unat x)"
proof -
  have lt: "int (unat x) < int (2 ^ (LENGTH('a) - 1))"
    using assms by (rule of_nat_less_iff [THEN iffD2])
  have "sint x = signed_take_bit (LENGTH('a) - 1) (int (unat x))"
    by (simp add: sint_uint)
  also have "\<dots> = int (unat x)"
  proof (rule signed_take_bit_int_eq_self)
    show "- (2 ^ (LENGTH('a) - 1)) \<le> int (unat x)" by (rule order_trans [of _ 0]) simp_all
    show "int (unat x) < 2 ^ (LENGTH('a) - 1)" using lt by (simp only: of_nat_power of_nat_numeral)
  qed
  finally show ?thesis .
qed

lemma sint_eq_unat_32: "unat (x :: u32) < 2 ^ 31 \<Longrightarrow> sint x = int (unat x)"
  using sint_eq_unat [of x] by simp

lemma sint_eq_unat_64: "unat (x :: u64) < 2 ^ 63 \<Longrightarrow> sint x = int (unat x)"
  using sint_eq_unat [of x] by simp

lemma take_differs: "take (length x) xs \<noteq> x \<Longrightarrow> take i xs \<noteq> x"
  by (auto simp: min_def split: if_splits)

end
