(* ===== verification/Padlock_Codec.thy ===== *)
theory Padlock_Codec
  imports Padlock_Prelude
begin

text \<open>
  The byte-level helpers of \<^verbatim>\<open>src/src/padlock.c\<close>: rounding to the cipher block size
  (\<open>align16\<close>), the little-endian integer fields of the store (\<open>put_u32\<close>, \<open>get_u32\<close>,
  \<open>put_u64\<close>, \<open>get_u64\<close>), and the two exported memory helpers
  \<open>padlock_constant_time_equals\<close> and \<open>padlock_secure_zero\<close>.
  The locale \<open>field_codec\<close> states what a client of a field codec relies on; it is
  interpreted on both codecs, and the header proofs use its lemmas.
\<close>

unbundle bit_operations_syntax

section \<open>Rounding to the block size\<close>

text \<open>
  \<open>value + 15u\<close> is computed in 64 bits, but \<open>~15u\<close> is a 32-bit constant that is
  zero-extended before the conjunction.
\<close>

definition align16 :: "u64 \<Rightarrow> u64" where
  "align16 value = (value + 15) AND ucast (NOT (15 :: u32))"

lemma nat_and_align_mask: "(m::nat) AND 4294967280 = 16 * ((m mod 2 ^ 32) div 16)"
proof -
  have a: "(4294967280::nat) = push_bit 4 (mask 28)"
    by (simp add: push_bit_eq_mult mask_eq_exp_minus_1)
  have b: "16 * ((m mod 2 ^ 32) div 16) = push_bit 4 (drop_bit 4 (take_bit 32 m))"
    by (simp add: push_bit_eq_mult drop_bit_eq_div take_bit_eq_mod)
  show ?thesis unfolding a b
    by (rule bit_eqI) (auto simp: bit_simps)
qed

lemma unat_align16: "unat (align16 v) = 16 * (((unat v + 15) mod 2 ^ 64) mod 2 ^ 32 div 16)"
  by (simp add: align16_def unsigned_and_eq nat_and_align_mask unat_word_ariths)

lemma unat_align16_small:
  "unat v + 15 < 2 ^ 32 \<Longrightarrow> unat (align16 v) = 16 * ((unat v + 15) div 16)"
  by (simp add: unat_align16)

lemma align16_mult [simp]: "16 dvd unat (align16 v)"
  by (simp add: unat_align16)

lemma align16_less: "unat (align16 v) < 2 ^ 32"
  unfolding unat_align16 by (rule le_less_trans [of _ "(unat v + 15) mod 2 ^ 64 mod 2 ^ 32"]) simp_all

lemma align16_ge: "unat v + 15 < 2 ^ 32 \<Longrightarrow> unat v \<le> unat (align16 v)"
  by (simp add: unat_align16_small)

section \<open>Little-endian integers\<close>

text \<open>\<open>(unsigned char) ((value >> (index * 8u)) & 0xffu)\<close>\<close>

definition byte_of :: "'a::len word \<Rightarrow> nat \<Rightarrow> byte" where
  "byte_of value index = ucast (drop_bit (index * 8) value AND 0xff)"

definition u32_bytes :: "u32 \<Rightarrow> byte list" where
  "u32_bytes value = [byte_of value 0, byte_of value 1, byte_of value 2, byte_of value 3]"

definition put_u32 :: "byte list \<Rightarrow> nat \<Rightarrow> u32 \<Rightarrow> byte list option" where
  "put_u32 target off value = buf_write target off (u32_bytes value)"

definition u32_of_bytes :: "byte list \<Rightarrow> u32" where
  "u32_of_bytes source =
     ucast (source ! 0)
     OR push_bit 8 (ucast (source ! 1))
     OR push_bit 16 (ucast (source ! 2))
     OR push_bit 24 (ucast (source ! 3))"

definition get_u32 :: "byte list \<Rightarrow> nat \<Rightarrow> u32 option" where
  "get_u32 source off = map_option u32_of_bytes (buf_read source off 4)"

definition u64_bytes :: "u64 \<Rightarrow> byte list" where
  "u64_bytes value = map (byte_of value) [0..<8]"

definition put_u64 :: "byte list \<Rightarrow> nat \<Rightarrow> u64 \<Rightarrow> byte list option" where
  "put_u64 target off value = buf_write target off (u64_bytes value)"

definition u64_of_bytes :: "byte list \<Rightarrow> u64" where
  "u64_of_bytes source =
     foldl (\<lambda>value index. value OR push_bit (index * 8) (ucast (source ! index))) 0 [0..<8]"

definition get_u64 :: "byte list \<Rightarrow> nat \<Rightarrow> u64 option" where
  "get_u64 source off = map_option u64_of_bytes (buf_read source off 8)"

lemma length_u32_bytes [simp]: "length (u32_bytes v) = 4"
  by (simp add: u32_bytes_def)

lemma length_u64_bytes [simp]: "length (u64_bytes v) = 8"
  by (simp add: u64_bytes_def)

lemma bit_byte_of: "bit (byte_of v i) n \<longleftrightarrow> n < 8 \<and> bit v (i * 8 + n)"
proof -
  have mask: "(0xff :: 'a word) = mask 8"
    by (simp add: mask_eq_exp_minus_1)
  show ?thesis
    unfolding byte_of_def mask by (auto simp: bit_simps dest: bit_imp_le_length)
qed

lemma bit_or_bytes:
  "bit (foldl (\<lambda>v i. v OR push_bit (i * 8) (ucast (f i :: byte))) (a :: 'a::len word) is) m
     \<longleftrightarrow> bit a m \<or> (\<exists>i\<in>set is. i * 8 \<le> m \<and> m < LENGTH('a) \<and> bit (f i) (m - i * 8))"
  by (induction "is" arbitrary: a) (auto simp: bit_simps)

text \<open>The loop over the bytes of a word rebuilds the word, and has exactly the given bytes.\<close>

lemma or_bytes_byte_of:
  assumes "LENGTH('a::len) = n * 8"
  shows "foldl (\<lambda>v i. v OR push_bit (i * 8) (ucast (byte_of w i))) (0 :: 'a word) [0..<n] = w"
proof (rule bit_word_eqI)
  fix m assume m: "m < LENGTH('a)"
  then have div: "m div 8 < n" "m div 8 * 8 \<le> m" "m - m div 8 * 8 < 8"
    using assms by (auto simp: minus_div_mult_eq_mod)
  have "bit w m \<Longrightarrow> \<exists>i\<in>{0..<n}. i * 8 \<le> m \<and> m - i * 8 < 8 \<and> bit w (i * 8 + (m - i * 8))"
    using div by (intro bexI [of _ "m div 8"]) auto
  then show "bit (foldl (\<lambda>v i. v OR push_bit (i * 8) (ucast (byte_of w i))) (0 :: 'a word) [0..<n]) m = bit w m"
    using m by (auto simp: bit_or_bytes bit_byte_of)
qed

lemma byte_of_or_bytes:
  assumes "LENGTH('a::len) = n * 8" "j < n"
  shows "byte_of (foldl (\<lambda>v i. v OR push_bit (i * 8) (ucast (f i :: byte))) (0 :: 'a word) [0..<n]) j = f j"
proof (rule bit_word_eqI)
  fix m assume "m < LENGTH(8)"
  then have m: "m < 8" by simp
  have eq: "i = j" if "i * 8 \<le> j * 8 + m" "bit (f i) (j * 8 + m - i * 8)" for i
  proof -
    from that(2) have "j * 8 + m - i * 8 < 8"
      using bit_imp_le_length by fastforce
    with that(1) m show ?thesis by linarith
  qed
  show "bit (byte_of (foldl (\<lambda>v i. v OR push_bit (i * 8) (ucast (f i :: byte))) (0 :: 'a word) [0..<n]) j) m
      = bit (f j) m"
    using m assms by (auto simp: bit_byte_of bit_or_bytes dest: eq intro!: bexI [of _ j])
qed

lemma u32_of_bytes_foldl:
  "u32_of_bytes s = foldl (\<lambda>v i. v OR push_bit (i * 8) (ucast (s ! i))) 0 [0..<4]"
  by (simp add: u32_of_bytes_def upt_rec or.assoc numeral_2_eq_2 numeral_3_eq_3)

lemma u32_bytes_map: "u32_bytes v = map (byte_of v) [0..<4]"
  by (simp add: u32_bytes_def upt_rec numeral_2_eq_2 numeral_3_eq_3)

lemma u32_of_u32_bytes [simp]: "u32_of_bytes (u32_bytes v) = v"
proof -
  have "u32_of_bytes (u32_bytes v) = foldl (\<lambda>w i. w OR push_bit (i * 8) (ucast (byte_of v i))) 0 [0..<4]"
    unfolding u32_of_bytes_foldl u32_bytes_map by (rule foldl_cong) auto
  also have "\<dots> = v" by (rule or_bytes_byte_of) simp
  finally show ?thesis .
qed

lemma u64_of_u64_bytes [simp]: "u64_of_bytes (u64_bytes v) = v"
proof -
  have "u64_of_bytes (u64_bytes v) = foldl (\<lambda>w i. w OR push_bit (i * 8) (ucast (byte_of v i))) 0 [0..<8]"
    unfolding u64_of_bytes_def u64_bytes_def by (rule foldl_cong) auto
  also have "\<dots> = v" by (rule or_bytes_byte_of) simp
  finally show ?thesis .
qed

lemma u32_bytes_u32_of [simp]: "length s = 4 \<Longrightarrow> u32_bytes (u32_of_bytes s) = s"
  unfolding u32_bytes_map u32_of_bytes_foldl
  by (rule nth_equalityI) (simp_all add: byte_of_or_bytes)

lemma u64_bytes_u64_of [simp]: "length s = 8 \<Longrightarrow> u64_bytes (u64_of_bytes s) = s"
  unfolding u64_bytes_def u64_of_bytes_def
  by (rule nth_equalityI) (simp_all add: byte_of_or_bytes)

section \<open>The contract of a field codec\<close>

locale field_codec =
  fixes put :: "byte list \<Rightarrow> nat \<Rightarrow> 'w \<Rightarrow> byte list option"
    and get :: "byte list \<Rightarrow> nat \<Rightarrow> 'w option"
    and enc :: "'w \<Rightarrow> byte list"
    and dec :: "byte list \<Rightarrow> 'w"
    and width :: nat
  assumes put_enc: "put b off v = buf_write b off (enc v)"
    and get_dec: "get b off = map_option dec (buf_read b off width)"
    and length_enc: "length (enc v) = width"
    and dec_enc: "dec (enc v) = v"
    and enc_dec: "length s = width \<Longrightarrow> enc (dec s) = s"
begin

lemma put_in: "off + width \<le> length b \<Longrightarrow> put b off v = Some (overlay b off (enc v))"
  by (simp add: put_enc length_enc)

lemma get_in: "off + width \<le> length b \<Longrightarrow> get b off = Some (dec (window b off width))"
  by (simp add: get_dec)

lemma put_overflow: "length b < off + width \<Longrightarrow> put b off v = None"
  by (simp add: put_enc buf_write_def length_enc)

lemma get_overflow: "length b < off + width \<Longrightarrow> get b off = None"
  by (simp add: get_dec buf_read_def)

lemma get_put_same: "put b off v = Some b' \<Longrightarrow> get b' off = Some v"
  by (auto simp: put_enc length_enc dec_enc get_in window_overlay_same dest!: buf_writeD)

lemma get_put_other:
  "put b off v = Some b' \<Longrightarrow> off' + width \<le> off \<or> off + width \<le> off' \<Longrightarrow> get b' off' = get b off'"
  by (auto simp: put_enc length_enc get_dec buf_read_def window_overlay_before window_overlay_after dest!: buf_writeD)

lemma put_get_same: "get b off = Some v \<Longrightarrow> put b off v = Some b"
  by (auto simp: get_dec put_enc enc_dec buf_write_def overlay_def window_def dest!: buf_readD)
     (metis append_take_drop_id drop_drop add.commute)

end

interpretation u32: field_codec put_u32 get_u32 u32_bytes u32_of_bytes 4
  by unfold_locales (simp_all add: put_u32_def get_u32_def)

interpretation u64: field_codec put_u64 get_u64 u64_bytes u64_of_bytes 8
  by unfold_locales (simp_all add: put_u64_def get_u64_def)

section \<open>Comparison and scrubbing of memory\<close>

text \<open>
  The loop of \<open>padlock_constant_time_equals\<close>: every index is read, whatever the
  difference found so far.
\<close>

fun diff_loop :: "byte list \<Rightarrow> byte list \<Rightarrow> nat \<Rightarrow> nat \<Rightarrow> byte \<Rightarrow> byte option" where
  "diff_loop left_bytes right_bytes index 0 diff = Some diff"
| "diff_loop left_bytes right_bytes index (Suc remaining) diff =
     do {
       l \<leftarrow> buf_read left_bytes index 1;
       r \<leftarrow> buf_read right_bytes index 1;
       diff_loop left_bytes right_bytes (Suc index) remaining (diff OR (hd l XOR hd r))
     }"

definition padlock_constant_time_equals :: "byte list option \<Rightarrow> byte list option \<Rightarrow> nat \<Rightarrow> int option" where
  "padlock_constant_time_equals left right n =
     (case (left, right) of
        (Some l, Some r) \<Rightarrow>
          do {
            diff \<leftarrow> diff_loop l r 0 n 0;
            Some (if diff = 0 then 1 else 0)
          }
      | _ \<Rightarrow> Some (if left = right \<and> n = 0 then 1 else 0))"

text \<open>\<open>*bytes++ = 0; length--\<close>, the pointer as an index.\<close>

fun zero_loop :: "byte list \<Rightarrow> nat \<Rightarrow> nat \<Rightarrow> byte list option" where
  "zero_loop buffer index 0 = Some buffer"
| "zero_loop buffer index (Suc remaining) =
     do {
       buffer \<leftarrow> buf_write buffer index [0];
       zero_loop buffer (Suc index) remaining
     }"

definition padlock_secure_zero :: "byte list option \<Rightarrow> nat \<Rightarrow> byte list option option" where
  "padlock_secure_zero buffer n =
     (case buffer of
        None \<Rightarrow> Some None
      | Some b \<Rightarrow> map_option Some (zero_loop b 0 n))"

lemma window_1: "i < length b \<Longrightarrow> window b i 1 = [b ! i]"
  by (simp add: window_def take_Suc_conv_app_nth drop_eq_Nil hd_drop_conv_nth take_Suc)

lemma word_or_eq_0: "(a :: 'a::len word) OR b = 0 \<longleftrightarrow> a = 0 \<and> b = 0"
  by (auto simp: bit_eq_iff bit_simps)

lemma word_xor_eq_0: "(a :: 'a::len word) XOR b = 0 \<longleftrightarrow> a = b"
  by (auto simp: bit_eq_iff bit_simps)

lemma diff_loop_in:
  "i + n \<le> length l \<Longrightarrow> i + n \<le> length r \<Longrightarrow>
     \<exists>d. diff_loop l r i n a = Some d \<and> (d = 0 \<longleftrightarrow> a = 0 \<and> window l i n = window r i n)"
proof (induction n arbitrary: i a)
  case 0
  then show ?case by simp
next
  case (Suc n)
  have split: "window l i (Suc n) = l ! i # window l (Suc i) n" "window r i (Suc n) = r ! i # window r (Suc i) n"
    using Suc.prems by (simp_all add: window_def Cons_nth_drop_Suc [symmetric])
  from Suc.IH [of "Suc i" "a OR (l ! i XOR r ! i)"] Suc.prems show ?case
    by (auto simp: window_1 split word_or_eq_0 word_xor_eq_0 simp del: One_nat_def)
qed

lemma diff_loop_out:
  "n > 0 \<Longrightarrow> length l < i + n \<or> length r < i + n \<Longrightarrow> diff_loop l r i n a = None"
proof (induction n arbitrary: i a)
  case (Suc n)
  show ?case
  proof (cases "i + 1 \<le> length l \<and> i + 1 \<le> length r")
    case True
    with Suc.prems have "n > 0" by auto
    with Suc show ?thesis by (auto simp: bind_eq_None_conv)
  qed (auto simp: buf_read_def)
qed simp

lemma zero_loop_in:
  "i + n \<le> length b \<Longrightarrow> zero_loop b i n = Some (take i b @ replicate n 0 @ drop (i + n) b)"
proof (induction n arbitrary: i b)
  case (Suc n)
  then have "zero_loop b i (Suc n) = zero_loop (overlay b i [0]) (Suc i) n" by simp
  also have "\<dots> = Some (take (Suc i) (overlay b i [0]) @ replicate n 0 @ drop (Suc i + n) (overlay b i [0]))"
    using Suc by simp
  also have "\<dots> = Some (take i b @ replicate (Suc n) 0 @ drop (i + Suc n) b)"
    using Suc.prems by (simp add: overlay_def add.commute)
  finally show ?case .
qed simp

lemma zero_loop_out: "n > 0 \<Longrightarrow> length b < i + n \<Longrightarrow> zero_loop b i n = None"
proof (induction n arbitrary: i b)
  case (Suc n)
  show ?case
  proof (cases "i < length b")
    case True
    with Suc.prems have "n > 0" by auto
    with Suc True show ?thesis by simp
  qed (simp add: buf_write_def)
qed simp

lemma padlock_secure_zero_NULL [simp]: "padlock_secure_zero None n = Some None"
  by (simp add: padlock_secure_zero_def)

lemma padlock_secure_zero_prefix:
  "n \<le> length b \<Longrightarrow> padlock_secure_zero (Some b) n = Some (Some (replicate n 0 @ drop n b))"
  by (simp add: padlock_secure_zero_def zero_loop_in)

lemma padlock_secure_zero_all [simp]:
  "length b = n \<Longrightarrow> padlock_secure_zero (Some b) n = Some (Some (replicate n 0))"
  by (simp add: padlock_secure_zero_prefix)

section \<open>Properties\<close>

text \<open>
  \<open>align16\<close> on values up to \<open>2 ^ 32 - 16\<close> is the smallest multiple of 16 that is not
  below its argument.
\<close>

theorem align16_least:
  assumes "unat v + 15 < 2 ^ 32"
  shows "16 dvd unat (align16 v) \<and> unat v \<le> unat (align16 v) \<and>
    (\<forall>m. 16 dvd m \<and> unat v \<le> m \<longrightarrow> unat (align16 v) \<le> m)"
proof (intro conjI allI impI)
  show "16 dvd unat (align16 v)" by simp
  show "unat v \<le> unat (align16 v)" using assms by (rule align16_ge)
  fix m assume m: "16 dvd m \<and> unat v \<le> m"
  then have "(unat v + 15) div 16 \<le> m div 16" by auto
  with m show "unat (align16 v) \<le> m"
    using assms by (auto simp: unat_align16_small)
qed

theorem align16_least_witness: "unat (17 :: u64) + 15 < 2 ^ 32 \<and> unat (align16 17) = 32"
  using align16_least [of 17] by (simp add: align16_def)

text \<open>
  The mask of \<open>align16\<close> is 32 bits wide, so the result always drops the upper half of
  the rounded value: above \<open>2 ^ 32 - 16\<close> it is smaller than its argument, and 0 at
  \<open>2 ^ 32\<close> and just below it.
\<close>

theorem align16_truncates:
  "unat (align16 v) = 16 * (((unat v + 15) mod 2 ^ 64) mod 2 ^ 32 div 16) \<and> align16 0xFFFFFFF1 = 0 \<and> align16 0x100000000 = 0"
  by (simp add: unat_align16) (simp add: align16_def)

text \<open>
  The little-endian fields: what \<open>put_u32\<close> and \<open>put_u64\<close> wrote is what \<open>get_u32\<close> and
  \<open>get_u64\<close> read, writing back a field just read changes nothing, and a field that would
  cross the end of the buffer is the only one that cannot be written.
\<close>

theorem field_round_trip:
  "(\<forall>b off v. (case put_u32 b off v of None \<Rightarrow> length b < off + 4 | Some b' \<Rightarrow> get_u32 b' off = Some v)) \<and>
   (\<forall>b off v. (case put_u64 b off v of None \<Rightarrow> length b < off + 8 | Some b' \<Rightarrow> get_u64 b' off = Some v)) \<and>
   (\<forall>b off. (case get_u32 b off of None \<Rightarrow> length b < off + 4 | Some v \<Rightarrow> put_u32 b off v = Some b)) \<and>
   (\<forall>b off. (case get_u64 b off of None \<Rightarrow> length b < off + 8 | Some v \<Rightarrow> put_u64 b off v = Some b))"
proof (intro conjI allI)
  show "case put_u32 b off v of None \<Rightarrow> length b < off + 4 | Some b' \<Rightarrow> get_u32 b' off = Some v" for b off v
    using u32.put_in [of off b v] u32.get_put_same [of b off v]
    by (auto split: option.split simp: not_le [symmetric])
  show "case put_u64 b off v of None \<Rightarrow> length b < off + 8 | Some b' \<Rightarrow> get_u64 b' off = Some v" for b off v
    using u64.put_in [of off b v] u64.get_put_same [of b off v]
    by (auto split: option.split simp: not_le [symmetric])
  show "case get_u32 b off of None \<Rightarrow> length b < off + 4 | Some v \<Rightarrow> put_u32 b off v = Some b" for b off
    using u32.get_in [of off b] u32.put_get_same [of b off]
    by (auto split: option.split simp: not_le [symmetric])
  show "case get_u64 b off of None \<Rightarrow> length b < off + 8 | Some v \<Rightarrow> put_u64 b off v = Some b" for b off
    using u64.get_in [of off b] u64.put_get_same [of b off]
    by (auto split: option.split simp: not_le [symmetric])
qed

text \<open>
  C40: \<open>padlock_constant_time_equals\<close> on two buffers of at least \<open>n\<close> bytes returns 1 exactly when
  their first \<open>n\<close> bytes are equal, and 0 otherwise; with a null pointer it returns 1 only for two
  null pointers and length 0.
\<close>

theorem constant_time_equals_correct:
  assumes "n \<le> length l" "n \<le> length r"
  shows "padlock_constant_time_equals (Some l) (Some r) n = Some (if take n l = take n r then 1 else 0) \<and>
    padlock_constant_time_equals None p n = Some (if p = None \<and> n = 0 then 1 else 0)"
  using diff_loop_in [of 0 n l r 0] assms
  by (auto simp: padlock_constant_time_equals_def window_def)

theorem constant_time_equals_correct_witness:
  "padlock_constant_time_equals (Some [1, 2, 3]) (Some [1, 2, 4]) 2 = Some 1 \<and>
   padlock_constant_time_equals (Some [1, 2, 3]) (Some [1, 2, 4]) 3 = Some 0 \<and>
   padlock_constant_time_equals None (Some [1]) 0 = Some 0"
  using constant_time_equals_correct [of 2 "[1, 2, 3]" "[1, 2, 4]" None]
    constant_time_equals_correct [of 3 "[1, 2, 3]" "[1, 2, 4]" None]
    constant_time_equals_correct [of 0 "[]" "[]" "Some [1]"]
  by simp

text \<open>
  \<open>padlock_secure_zero\<close> sets exactly the first \<open>n\<close> bytes to zero, and asking for more than the
  buffer holds is the only way to write outside it.
\<close>

theorem secure_zero_exact:
  "padlock_secure_zero (Some b) n = (if n \<le> length b then Some (Some (replicate n 0 @ drop n b)) else None)"
  using zero_loop_out [of n b 0] zero_loop_in [of 0 n b]
  by (auto simp: padlock_secure_zero_def)

end
