(* ===== verification/Padlock_World.thy ===== *)
theory Padlock_World
  imports Padlock_Prelude
begin

text \<open>
  The part of the C library and of the operating system that Padlock calls, as explicit
  state passing over one record \<open>world\<close>.

  \<^item> \<open>w_files\<close>, \<open>w_dirs\<close>: the named files (contents and mode) and directories (mode).
    Path names are taken literally: links and repeated slashes are not resolved.
  \<^item> \<open>w_faults\<close>: the outcomes of the fallible calls still to come, one entry per call:
    \<open>Pass\<close>, \<open>Fail e\<close> (the call fails with \<open>errno = e\<close>) or \<open>Short k\<close> (a transfer stops
    after \<open>k\<close> bytes). When the list is exhausted every call passes. A theorem that
    quantifies over the world holds for every sequence of failures; a theorem that says a
    call succeeds assumes \<open>w_faults w = []\<close>.
  \<^item> \<open>w_rand\<close>, \<open>w_rpos\<close>: the random source and how much of it has been used.
  \<^item> \<open>w_junk\<close>: the contents of uninitialised memory.
  \<^item> \<open>w_open\<close>, \<open>w_live\<close>: the number of open descriptors and of live heap blocks.
  \<^item> \<open>w_residue\<close>: what released memory held, with the name of the C variable: the contents
    of every block at \<open>free\<close> and of the key-bearing arrays of a stack frame when it is left.

  A \<open>FILE\<close> is fully buffered: \<open>fwrite\<close> appends to the stream's buffer, and the bytes reach
  the file at the next \<open>fseeko\<close>, \<open>fflush\<close> or \<open>fclose\<close>, each of which can fail.
\<close>

section \<open>State\<close>

datatype fault = Pass | Fail int | Short nat

record fnode =
  fn_data :: "byte list"
  fn_mode :: nat

record world =
  w_files :: "string \<rightharpoonup> fnode"
  w_dirs :: "string \<rightharpoonup> nat"
  w_env :: "string \<rightharpoonup> string"
  w_suffixes :: "string list"
  w_errno :: int
  w_faults :: "fault list"
  w_rand :: "nat \<Rightarrow> byte"
  w_rpos :: nat
  w_junk :: "nat \<Rightarrow> byte"
  w_open :: nat
  w_live :: nat
  w_residue :: "(string \<times> byte list) list"

record FILE =
  f_path :: string
  f_write :: bool
  f_pos :: nat
  f_wbuf :: "byte list"
  f_wpos :: nat

abbreviation (input) EPERM :: int where "EPERM \<equiv> 1"
abbreviation (input) ENOENT :: int where "ENOENT \<equiv> 2"
abbreviation (input) EINTR :: int where "EINTR \<equiv> 4"
abbreviation (input) EIO :: int where "EIO \<equiv> 5"
abbreviation (input) EACCES :: int where "EACCES \<equiv> 13"
abbreviation (input) EFAULT :: int where "EFAULT \<equiv> 14"
abbreviation (input) EBUSY :: int where "EBUSY \<equiv> 16"
abbreviation (input) EEXIST :: int where "EEXIST \<equiv> 17"
abbreviation (input) ENOTDIR :: int where "ENOTDIR \<equiv> 20"
abbreviation (input) EISDIR :: int where "EISDIR \<equiv> 21"
abbreviation (input) EINVAL :: int where "EINVAL \<equiv> 22"
abbreviation (input) ENOTTY :: int where "ENOTTY \<equiv> 25"
abbreviation (input) ENOSPC :: int where "ENOSPC \<equiv> 28"
abbreviation (input) ERANGE :: int where "ERANGE \<equiv> 34"
abbreviation (input) ENAMETOOLONG :: int where "ENAMETOOLONG \<equiv> 36"

abbreviation (input) mode_0600 :: nat where "mode_0600 \<equiv> 384"
abbreviation (input) mode_0700 :: nat where "mode_0700 \<equiv> 448"

abbreviation set_errno :: "int \<Rightarrow> world \<Rightarrow> world" where
  "set_errno e w \<equiv> w\<lparr>w_errno := e\<rparr>"

section \<open>Outcomes of fallible calls\<close>

definition poll :: "world \<Rightarrow> fault \<times> world" where
  "poll w = (case w_faults w of [] \<Rightarrow> (Pass, w) | f # fs \<Rightarrow> (f, w\<lparr>w_faults := fs\<rparr>))"

text \<open>A call that succeeds or fails as a whole.\<close>

definition attempt :: "world \<Rightarrow> bool \<times> world" where
  "attempt w =
     (case poll w of
        (Fail e, w) \<Rightarrow> (False, set_errno e w)
      | (_, w) \<Rightarrow> (True, w))"

text \<open>A transfer of \<open>n\<close> bytes: how many are transferred.\<close>

definition transfer :: "nat \<Rightarrow> world \<Rightarrow> nat \<times> world" where
  "transfer n w =
     (case poll w of
        (Pass, w) \<Rightarrow> (n, w)
      | (Fail e, w) \<Rightarrow> (0, set_errno e w)
      | (Short k, w) \<Rightarrow> (min k n, if k < n then set_errno ENOSPC w else w))"

section \<open>Memory\<close>

definition junk :: "world \<Rightarrow> nat \<Rightarrow> byte list" where
  "junk w n = map (w_junk w) [0..<n]"

definition malloc :: "nat \<Rightarrow> world \<Rightarrow> byte list option \<times> world" where
  "malloc n w =
     (case attempt w of
        (False, w) \<Rightarrow> (None, w)
      | (True, w) \<Rightarrow> (Some (junk w n), w\<lparr>w_live := Suc (w_live w)\<rparr>))"

definition calloc :: "nat \<Rightarrow> world \<Rightarrow> byte list option \<times> world" where
  "calloc n w =
     (case attempt w of
        (False, w) \<Rightarrow> (None, w)
      | (True, w) \<Rightarrow> (Some (replicate n 0), w\<lparr>w_live := Suc (w_live w)\<rparr>))"

text \<open>\<open>free\<close>, with the name of the variable that held the pointer.\<close>

definition free :: "string \<Rightarrow> byte list option \<Rightarrow> world \<Rightarrow> world" where
  "free name p w =
     (case p of
        None \<Rightarrow> w
      | Some b \<Rightarrow> w\<lparr>w_live := w_live w - 1, w_residue := (name, b) # w_residue w\<rparr>)"

lemma free_NULL [simp]: "free name None w = w"
  by (simp add: free_def)

text \<open>A stack array goes out of scope.\<close>

definition leave :: "string \<Rightarrow> byte list \<Rightarrow> world \<Rightarrow> world" where
  "leave name b w = w\<lparr>w_residue := (name, b) # w_residue w\<rparr>"

section \<open>Streams\<close>

definition file_data :: "world \<Rightarrow> string \<Rightarrow> byte list" where
  "file_data w path = (case w_files w path of None \<Rightarrow> [] | Some n \<Rightarrow> fn_data n)"

text \<open>A write beyond the end leaves a hole of zero bytes.\<close>

definition write_at :: "byte list \<Rightarrow> nat \<Rightarrow> byte list \<Rightarrow> byte list" where
  "write_at d off s =
     (if s = [] then d
      else take off d @ replicate (off - length d) 0 @ s @ drop (off + length s) d)"

definition put_file :: "string \<Rightarrow> nat \<Rightarrow> byte list \<Rightarrow> world \<Rightarrow> world" where
  "put_file path off s w =
     (case w_files w path of
        None \<Rightarrow> w
      | Some n \<Rightarrow> w\<lparr>w_files := (w_files w)(path \<mapsto> n\<lparr>fn_data := write_at (fn_data n) off s\<rparr>)\<rparr>)"

definition stream :: "string \<Rightarrow> bool \<Rightarrow> FILE" where
  "stream path wr = \<lparr>f_path = path, f_write = wr, f_pos = 0, f_wbuf = [], f_wpos = 0\<rparr>"

text \<open>\<open>fopen\<close> in the modes \<open>rb\<close> and \<open>rb+\<close>, which do not create the file.\<close>

definition fopen :: "string \<Rightarrow> string \<Rightarrow> world \<Rightarrow> FILE option \<times> world" where
  "fopen path mode w =
     (case attempt w of
        (False, w) \<Rightarrow> (None, w)
      | (True, w) \<Rightarrow>
          (case w_files w path of
             None \<Rightarrow> (None, set_errno ENOENT w)
           | Some _ \<Rightarrow> (Some (stream path (mode = ''rb+'')), w\<lparr>w_open := Suc (w_open w)\<rparr>)))"

definition fflush :: "FILE \<Rightarrow> world \<Rightarrow> int \<times> FILE \<times> world" where
  "fflush f w =
     (if f_wbuf f = [] then (0, f, w)
      else
        (case transfer (length (f_wbuf f)) w of
           (k, w) \<Rightarrow>
             (if k = length (f_wbuf f) then 0 else -1,
              f\<lparr>f_wbuf := drop k (f_wbuf f), f_wpos := f_wpos f + k\<rparr>,
              put_file (f_path f) (f_wpos f) (take k (f_wbuf f)) w)))"

definition fseeko :: "FILE \<Rightarrow> int \<Rightarrow> world \<Rightarrow> int \<times> FILE \<times> world" where
  "fseeko f off w =
     (case fflush f w of
        (rc, f, w) \<Rightarrow>
          if rc \<noteq> 0 then (-1, f, w)
          else if off < 0 then (-1, f, set_errno EINVAL w)
          else
            (case attempt w of
               (False, w) \<Rightarrow> (-1, f, w)
             | (True, w) \<Rightarrow> (0, f\<lparr>f_pos := nat off\<rparr>, w)))"

text \<open>The bytes read; fewer than \<open>n\<close> at the end of the file or on an error.\<close>

definition fread :: "FILE \<Rightarrow> nat \<Rightarrow> world \<Rightarrow> byte list \<times> FILE \<times> world" where
  "fread f n w =
     (case transfer (length (window (file_data w (f_path f)) (f_pos f) n)) w of
        (k, w) \<Rightarrow>
          (window (file_data w (f_path f)) (f_pos f) k, f\<lparr>f_pos := f_pos f + k\<rparr>, w))"

text \<open>The number of bytes accepted into the stream's buffer.\<close>

definition fwrite :: "byte list \<Rightarrow> FILE \<Rightarrow> world \<Rightarrow> nat \<times> FILE \<times> world" where
  "fwrite s f w =
     (if \<not> f_write f then (0, f, w)
      else
        (case transfer (length s) w of
           (k, w) \<Rightarrow>
             (k,
              f\<lparr>f_wpos := (if f_wbuf f = [] then f_pos f else f_wpos f),
                f_wbuf := f_wbuf f @ take k s, f_pos := f_pos f + k\<rparr>,
              w)))"

definition fclose :: "FILE \<Rightarrow> world \<Rightarrow> int \<times> world" where
  "fclose f w =
     (case fflush f w of
        (rc, f, w) \<Rightarrow>
          (case attempt w of
             (ok, w) \<Rightarrow> (if rc = 0 \<and> ok then 0 else -1, w\<lparr>w_open := w_open w - 1\<rparr>)))"

section \<open>Descriptors, names and random bytes\<close>

text \<open>The part of a path before its last slash, as \<open>strrchr\<close> finds it.\<close>

definition before_last_slash :: "string \<Rightarrow> string option" where
  "before_last_slash path =
     (if CHR ''/'' \<in> set path then Some (rev (tl (dropWhile (\<lambda>c. c \<noteq> CHR ''/'') (rev path)))) else None)"

definition parent_exists :: "string \<Rightarrow> world \<Rightarrow> bool" where
  "parent_exists path w =
     (case before_last_slash path of
        None \<Rightarrow> True
      | Some p \<Rightarrow> p = '''' \<or> w_dirs w p \<noteq> None)"

text \<open>
  Why a name cannot be made where its directory is missing: a regular file is in the way, or nothing is there.
\<close>

definition missing_parent :: "string \<Rightarrow> world \<Rightarrow> int" where
  "missing_parent path w =
     (if list_ex (\<lambda>i. path ! i = CHR ''/'' \<and> w_files w (take i path) \<noteq> None) [0..<length path] then ENOTDIR else ENOENT)"

text \<open>
  A descriptor is named by the path it was opened on. \<open>mkstemp\<close> tries the suffixes of
  \<open>w_suffixes\<close> in order and creates the first name that does not exist, in a directory that does.
\<close>

definition mkstemp :: "string \<Rightarrow> world \<Rightarrow> string option \<times> world" where
  "mkstemp prefix w =
     (case attempt w of
        (False, w) \<Rightarrow> (None, w)
      | (True, w) \<Rightarrow>
          if \<not> parent_exists prefix w then (None, set_errno (missing_parent prefix w) w)
          else
          (case find (\<lambda>s. w_files w (prefix @ s) = None \<and> w_dirs w (prefix @ s) = None) (w_suffixes w) of
             None \<Rightarrow> (None, set_errno EEXIST w)
           | Some s \<Rightarrow>
               (Some (prefix @ s),
                w\<lparr>w_files := (w_files w)(prefix @ s \<mapsto> \<lparr>fn_data = [], fn_mode = mode_0600\<rparr>),
                  w_open := Suc (w_open w)\<rparr>)))"

definition chmod_file :: "string \<Rightarrow> nat \<Rightarrow> world \<Rightarrow> int \<times> world" where
  "chmod_file path mode w =
     (case attempt w of
        (False, w) \<Rightarrow> (-1, w)
      | (True, w) \<Rightarrow>
          (0, w\<lparr>w_files := (w_files w)(path := map_option (\<lambda>n. n\<lparr>fn_mode := mode\<rparr>) (w_files w path))\<rparr>))"

definition fdopen :: "string \<Rightarrow> world \<Rightarrow> FILE option \<times> world" where
  "fdopen path w =
     (case attempt w of
        (False, w) \<Rightarrow> (None, w)
      | (True, w) \<Rightarrow> (Some (stream path True), w))"

definition close :: "world \<Rightarrow> world" where
  "close w = w\<lparr>w_open := w_open w - 1\<rparr>"

definition fsync :: "world \<Rightarrow> int \<times> world" where
  "fsync w = (case attempt w of (ok, w) \<Rightarrow> (if ok then 0 else -1, w))"

definition rename :: "string \<Rightarrow> string \<Rightarrow> world \<Rightarrow> int \<times> world" where
  "rename old new w =
     (case attempt w of
        (False, w) \<Rightarrow> (-1, w)
      | (True, w) \<Rightarrow>
          (case w_files w old of
             None \<Rightarrow> (-1, set_errno ENOENT w)
           | Some n \<Rightarrow>
               if w_dirs w new \<noteq> None then (-1, set_errno EISDIR w)
               else (0, w\<lparr>w_files := ((w_files w)(old := None))(new \<mapsto> n)\<rparr>)))"

definition unlink :: "string \<Rightarrow> world \<Rightarrow> int \<times> world" where
  "unlink path w =
     (case attempt w of
        (False, w) \<Rightarrow> (-1, w)
      | (True, w) \<Rightarrow>
          (case w_files w path of
             None \<Rightarrow> (-1, set_errno ENOENT w)
           | Some n \<Rightarrow> (0, w\<lparr>w_files := (w_files w)(path := None)\<rparr>)))"

definition mkdir :: "string \<Rightarrow> nat \<Rightarrow> world \<Rightarrow> int \<times> world" where
  "mkdir path mode w =
     (case attempt w of
        (False, w) \<Rightarrow> (-1, w)
      | (True, w) \<Rightarrow>
          if path = '''' then (-1, set_errno ENOENT w)
          else if w_dirs w path \<noteq> None \<or> w_files w path \<noteq> None then (-1, set_errno EEXIST w)
          else if \<not> parent_exists path w then (-1, set_errno (missing_parent path w) w)
          else (0, w\<lparr>w_dirs := (w_dirs w)(path \<mapsto> mode)\<rparr>))"

definition chmod :: "string \<Rightarrow> nat \<Rightarrow> world \<Rightarrow> int \<times> world" where
  "chmod path mode w =
     (case attempt w of
        (False, w) \<Rightarrow> (-1, w)
      | (True, w) \<Rightarrow>
          if w_dirs w path = None \<and> w_files w path = None then (-1, set_errno ENOENT w)
          else (0, w\<lparr>w_dirs := (w_dirs w)(path := map_option (\<lambda>_. mode) (w_dirs w path)),
                   w_files := (w_files w)(path := map_option (\<lambda>n. n\<lparr>fn_mode := mode\<rparr>) (w_files w path))\<rparr>))"

text \<open>\<open>k\<close> bytes of the random source.\<close>

definition draw :: "nat \<Rightarrow> world \<Rightarrow> byte list \<times> world" where
  "draw k w = (map (\<lambda>i. w_rand w (w_rpos w + i)) [0..<k], w\<lparr>w_rpos := w_rpos w + k\<rparr>)"

definition RAND_bytes :: "nat \<Rightarrow> world \<Rightarrow> byte list option \<times> world" where
  "RAND_bytes n w =
     (case attempt w of
        (False, w) \<Rightarrow> (None, w)
      | (True, w) \<Rightarrow> (case draw n w of (r, w) \<Rightarrow> (Some r, w)))"

definition open_urandom :: "world \<Rightarrow> bool \<times> world" where
  "open_urandom w =
     (case attempt w of
        (False, w) \<Rightarrow> (False, w)
      | (True, w) \<Rightarrow> (True, w\<lparr>w_open := Suc (w_open w)\<rparr>))"

text \<open>\<open>read\<close> on the random device: an error, or between 0 and \<open>n\<close> bytes.\<close>

definition read_urandom :: "nat \<Rightarrow> world \<Rightarrow> byte list option \<times> world" where
  "read_urandom n w =
     (case poll w of
        (Pass, w) \<Rightarrow> (case draw n w of (r, w) \<Rightarrow> (Some r, w))
      | (Fail e, w) \<Rightarrow> (None, set_errno e w)
      | (Short k, w) \<Rightarrow> (case draw (min k n) w of (r, w) \<Rightarrow> (Some r, w)))"

section \<open>What the calls leave unchanged\<close>

text \<open>
  \<open>io_frame w w'\<close>: \<open>w'\<close> differs from \<open>w\<close> at most in \<open>errno\<close> and in the outcomes
  already used up. This is what a call that touches no file, no memory and no descriptor does.
\<close>

definition io_frame :: "world \<Rightarrow> world \<Rightarrow> bool" where
  "io_frame w w' \<longleftrightarrow>
     w_files w' = w_files w \<and> w_dirs w' = w_dirs w \<and> w_env w' = w_env w \<and>
     w_suffixes w' = w_suffixes w \<and> w_rand w' = w_rand w \<and> w_rpos w' = w_rpos w \<and>
     w_junk w' = w_junk w \<and> w_open w' = w_open w \<and> w_live w' = w_live w \<and>
     w_residue w' = w_residue w \<and> set (w_faults w') \<subseteq> set (w_faults w)"

lemma io_frame_refl [simp]: "io_frame w w"
  by (simp add: io_frame_def)

lemma io_frame_trans [trans]: "io_frame w w' \<Longrightarrow> io_frame w' w'' \<Longrightarrow> io_frame w w''"
  by (auto simp: io_frame_def)

lemma io_frame_set_errno [simp]: "io_frame w (set_errno e w)"
  by (simp add: io_frame_def)

lemma io_frame_no_faults: "io_frame w w' \<Longrightarrow> w_faults w = [] \<Longrightarrow> w_faults w' = []"
  by (simp add: io_frame_def)

lemma io_frame_file_data: "io_frame w w' \<Longrightarrow> file_data w' = file_data w"
  by (simp add: io_frame_def file_data_def fun_eq_iff)

lemma no_faults_poll [simp]: "w_faults w = [] \<Longrightarrow> poll w = (Pass, w)"
  by (simp add: poll_def)

lemma no_faults_attempt [simp]: "w_faults w = [] \<Longrightarrow> attempt w = (True, w)"
  by (simp add: attempt_def)

lemma no_faults_transfer [simp]: "w_faults w = [] \<Longrightarrow> transfer n w = (n, w)"
  by (simp add: transfer_def)

lemma poll_frame: "poll w = (f, w') \<Longrightarrow> io_frame w w'"
  by (auto simp: poll_def io_frame_def split: list.splits)

lemma attempt_frame: "attempt w = (ok, w') \<Longrightarrow> io_frame w w'"
  by (auto simp: attempt_def split: prod.splits fault.splits dest!: poll_frame intro: io_frame_trans)

lemma transfer_frame: "transfer n w = (k, w') \<Longrightarrow> io_frame w w'"
  by (auto simp: transfer_def split: prod.splits fault.splits if_splits dest!: poll_frame intro: io_frame_trans)

lemma transfer_le: "transfer n w = (k, w') \<Longrightarrow> k \<le> n"
  by (auto simp: transfer_def split: prod.splits fault.splits if_splits)

lemma length_junk [simp]: "length (junk w n) = n"
  by (simp add: junk_def)

lemma length_write_at [simp]: "off + length s \<le> length d \<Longrightarrow> length (write_at d off s) = length d"
  by (simp add: write_at_def)

lemma write_at_in: "off + length s \<le> length d \<Longrightarrow> write_at d off s = overlay d off s"
  by (simp add: write_at_def overlay_def)

lemma write_at_end: "write_at d (length d) s = d @ s"
  by (simp add: write_at_def)

lemma write_at_Nil [simp]: "write_at d off [] = d"
  by (simp add: write_at_def)

section \<open>Streams without pending output\<close>

lemma fseeko_clean:
  assumes "f_wbuf f = []" "fseeko f off w = (rc, f', w')"
  shows "io_frame w w'" "f_path f' = f_path f" "f_write f' = f_write f" "f_wbuf f' = []"
    "rc = 0 \<or> rc = -1"
    "rc = 0 \<Longrightarrow> f' = f\<lparr>f_pos := nat off\<rparr> \<and> 0 \<le> off"
    "w_faults w = [] \<Longrightarrow> rc = 0 \<longleftrightarrow> 0 \<le> off"
  using assms
  by (auto simp: fseeko_def fflush_def split: prod.splits if_splits bool.splits dest: attempt_frame)

lemma fread_spec:
  assumes "fread f n w = (b, f', w')"
  shows "io_frame w w'" "f' = f\<lparr>f_pos := f_pos f + length b\<rparr>"
    "length b = n \<Longrightarrow> b = window (file_data w (f_path f)) (f_pos f) n"
    "w_faults w = [] \<Longrightarrow> b = window (file_data w (f_path f)) (f_pos f) n"
    "length b \<le> n"
proof -
  obtain k w1 where t: "transfer (length (window (file_data w (f_path f)) (f_pos f) n)) w = (k, w1)"
    by (metis prod.exhaust)
  note frame = transfer_frame [OF t] and le = transfer_le [OF t]
  have b: "b = window (file_data w (f_path f)) (f_pos f) k" and f': "f' = f\<lparr>f_pos := f_pos f + k\<rparr>" and w': "w' = w1"
    using assms t frame by (auto simp: fread_def io_frame_file_data)
  have len: "length b = k"
    using le by (simp add: b length_window)
  show "io_frame w w'" using frame w' by simp
  show "f' = f\<lparr>f_pos := f_pos f + length b\<rparr>" using f' len by simp
  show "length b = n \<Longrightarrow> b = window (file_data w (f_path f)) (f_pos f) n" using b len by simp
  show "length b \<le> n" using le len by (simp add: length_window)
  assume "w_faults w = []"
  then have "k = length (window (file_data w (f_path f)) (f_pos f) n)" using t by (metis no_faults_transfer fst_conv)
  then show "b = window (file_data w (f_path f)) (f_pos f) n"
    unfolding b by (simp add: window_def min_def)
qed

text \<open>\<open>fseeko(file, (off_t) offset, SEEK_SET) != 0 || fread(buffer, 1u, n, file) != n\<close>\<close>

definition seek_read :: "FILE \<Rightarrow> 64 word \<Rightarrow> nat \<Rightarrow> world \<Rightarrow> byte list option \<times> FILE \<times> world" where
  "seek_read f off n w =
     (case fseeko f (sint off) w of
        (rc, f, w) \<Rightarrow>
          if rc \<noteq> 0 then (None, f, w)
          else (case fread f n w of
                  (b, f, w) \<Rightarrow> (if length b \<noteq> n then None else Some b, f, w)))"

lemma sint_nonneg: "0 \<le> sint (x :: 64 word) \<longleftrightarrow> unat x < 2 ^ 63"
proof
  assume "0 \<le> sint x"
  then have "\<not> bit (int (unat x)) 63"
    by (simp add: sint_uint signed_take_bit_nonnegative_iff)
  then have "\<not> bit (unat x) 63"
    by (simp add: bit_simps)
  then have "even (unat x div 2 ^ 63)"
    by (simp add: bit_iff_odd)
  moreover have "unat x div 2 ^ 63 < 2"
  proof (rule less_mult_imp_div_less)
    have "unat x < 2 ^ LENGTH(64)" by (rule unsigned_less)
    then show "unat x < 2 * 2 ^ 63" by simp
  qed
  ultimately have "unat x div 2 ^ 63 = 0"
    by (cases "unat x div 2 ^ 63 = 1") (simp_all only: odd_one less_2_cases_iff One_nat_def, simp_all)
  then show "unat x < 2 ^ 63"
    by (simp add: div_eq_0_iff)
qed (simp add: sint_eq_unat_64)

lemma seek_read_spec:
  assumes "f_wbuf f = []" "seek_read f off n w = (r, f', w')"
  shows "io_frame w w'" "f_path f' = f_path f" "f_write f' = f_write f" "f_wbuf f' = []"
    "r = None \<or> (r = Some (window (file_data w (f_path f)) (unat off) n) \<and> unat off < 2 ^ 63 \<and>
       length (window (file_data w (f_path f)) (unat off) n) = n)"
    "w_faults w = [] \<Longrightarrow> unat off < 2 ^ 63 \<Longrightarrow> unat off + n \<le> length (file_data w (f_path f)) \<Longrightarrow>
       r = Some (window (file_data w (f_path f)) (unat off) n)"
proof -
  obtain rc f1 w1 where s: "fseeko f (sint off) w = (rc, f1, w1)" by (metis prod_cases3)
  obtain b f2 w2 where rd: "fread f1 n w1 = (b, f2, w2)" by (metis prod_cases3)
  note s' = fseeko_clean [OF assms(1) s] and rd' = fread_spec [OF rd]
  have d: "file_data w1 = file_data w" using s'(1) by (rule io_frame_file_data)
  show "io_frame w w'" "f_path f' = f_path f" "f_write f' = f_write f" "f_wbuf f' = []"
    using assms(2) s rd s' rd' by (auto simp: seek_read_def split: if_splits intro: io_frame_trans)
  show "r = None \<or> (r = Some (window (file_data w (f_path f)) (unat off) n) \<and> unat off < 2 ^ 63 \<and>
       length (window (file_data w (f_path f)) (unat off) n) = n)"
  proof (cases "rc = 0 \<and> length b = n")
    case True
    then have lt: "unat off < 2 ^ 63" using s'(6) by (simp add: sint_nonneg)
    have "b = window (file_data w (f_path f)) (unat off) n"
      using True s'(6) rd'(3) d sint_eq_unat_64 [OF lt] by simp
    with True lt show ?thesis using assms(2) s rd by (simp add: seek_read_def)
  next
    case False
    then show ?thesis using assms(2) s rd by (auto simp: seek_read_def split: if_splits)
  qed
  assume nf: "w_faults w = []" and lt: "unat off < 2 ^ 63"
    and le: "unat off + n \<le> length (file_data w (f_path f))"
  have rc: "rc = 0" using s'(7) [OF nf] lt by (simp add: sint_nonneg)
  have "b = window (file_data w (f_path f)) (unat off) n"
    using rd'(4) s'(6) [OF rc] io_frame_no_faults [OF s'(1) nf] d sint_eq_unat_64 [OF lt] by simp
  with rc le show "r = Some (window (file_data w (f_path f)) (unat off) n)"
    using assms(2) s rd by (simp add: seek_read_def)
qed

section \<open>Calls that leave the files alone\<close>

definition file_frame :: "world \<Rightarrow> world \<Rightarrow> bool" where
  "file_frame w w' \<longleftrightarrow>
     w_files w' = w_files w \<and> w_dirs w' = w_dirs w \<and> w_env w' = w_env w \<and>
     w_suffixes w' = w_suffixes w \<and> set (w_faults w') \<subseteq> set (w_faults w)"

lemma file_frame_refl [simp]: "file_frame w w"
  by (simp add: file_frame_def)

lemma file_frame_trans [trans]: "file_frame w w' \<Longrightarrow> file_frame w' w'' \<Longrightarrow> file_frame w w''"
  by (auto simp: file_frame_def)

lemma io_frame_file_frame: "io_frame w w' \<Longrightarrow> file_frame w w'"
  by (simp add: io_frame_def file_frame_def)

lemma file_frame_free [simp]: "file_frame w (free n p w') \<longleftrightarrow> file_frame w w'"
  by (simp add: file_frame_def free_def split: option.splits)

lemma file_frame_leave [simp]: "file_frame w (leave n b w') \<longleftrightarrow> file_frame w w'"
  by (simp add: file_frame_def leave_def)

lemma file_frame_leave_left [simp]: "file_frame (leave n b w) w' \<longleftrightarrow> file_frame w w'"
  by (simp add: file_frame_def leave_def)

lemma file_data_free [simp]: "file_data (free n p w) = file_data w"
  by (simp add: file_data_def free_def fun_eq_iff split: option.splits)

lemma file_data_leave [simp]: "file_data (leave n b w) = file_data w"
  by (simp add: file_data_def leave_def fun_eq_iff)

lemma file_frame_data: "file_frame w w' \<Longrightarrow> file_data w' = file_data w"
  by (simp add: file_frame_def file_data_def fun_eq_iff)

lemma file_frame_no_faults: "file_frame w w' \<Longrightarrow> w_faults w = [] \<Longrightarrow> w_faults w' = []"
  by (simp add: file_frame_def)

lemma malloc_spec:
  assumes "malloc n w = (r, w')"
  shows "file_frame w w'" "\<And>b. r = Some b \<Longrightarrow> length b = n" "w_faults w = [] \<Longrightarrow> r \<noteq> None"
    "io_frame (w\<lparr>w_live := w_live w + (if r = None then 0 else 1)\<rparr>) w'"
  using assms
  by (auto simp: malloc_def file_frame_def io_frame_def split: prod.splits bool.splits dest!: attempt_frame)

lemma calloc_spec:
  assumes "calloc n w = (r, w')"
  shows "file_frame w w'" "\<And>b. r = Some b \<Longrightarrow> b = replicate n 0" "w_faults w = [] \<Longrightarrow> r \<noteq> None"
    "io_frame (w\<lparr>w_live := w_live w + (if r = None then 0 else 1)\<rparr>) w'"
  using assms
  by (auto simp: calloc_def file_frame_def io_frame_def split: prod.splits bool.splits dest!: attempt_frame)

lemma fopen_spec:
  assumes "fopen path mode w = (r, w')"
  shows "file_frame w w'" "\<And>f. r = Some f \<Longrightarrow> f = stream path (mode = ''rb+'')"
    "w_faults w = [] \<Longrightarrow> r = None \<longleftrightarrow> w_files w path = None"
  using assms
  by (auto simp: fopen_def file_frame_def io_frame_def split: prod.splits bool.splits option.splits dest!: attempt_frame)

lemma stream_simps [simp]:
  "f_path (stream p b) = p" "f_write (stream p b) = b" "f_wbuf (stream p b) = []" "f_pos (stream p b) = 0"
  by (simp_all add: stream_def)

lemma fclose_clean: "f_wbuf f = [] \<Longrightarrow> file_frame w (snd (fclose f w))"
  by (auto simp: fclose_def fflush_def file_frame_def io_frame_def split: prod.splits dest!: attempt_frame)

section \<open>Writes to one file\<close>

text \<open>Nothing but the contents of \<open>path\<close> has changed among the files and directories.\<close>

definition edits :: "string \<Rightarrow> world \<Rightarrow> world \<Rightarrow> bool" where
  "edits path w w' \<longleftrightarrow>
     (\<forall>p. p \<noteq> path \<longrightarrow> w_files w' p = w_files w p) \<and>
     map_option fn_mode (w_files w' path) = map_option fn_mode (w_files w path) \<and>
     w_dirs w' = w_dirs w \<and> w_env w' = w_env w \<and> set (w_faults w') \<subseteq> set (w_faults w)"

lemma file_frame_edits: "file_frame w w' \<Longrightarrow> edits path w w'"
  by (simp add: file_frame_def edits_def)

lemma edits_trans [trans]: "edits path w w' \<Longrightarrow> edits path w' w'' \<Longrightarrow> edits path w w''"
  by (auto simp: edits_def)

lemma edits_put_file [simp]: "edits path w (put_file path off s w') \<longleftrightarrow> edits path w w'"
  by (simp add: edits_def put_file_def split: option.splits)

lemma edits_exists: "edits path w w' \<Longrightarrow> w_files w path \<noteq> None \<Longrightarrow> w_files w' path \<noteq> None"
  by (auto simp: edits_def)

lemma edits_free [simp]: "edits path w (free n p w') \<longleftrightarrow> edits path w w'"
  by (simp add: edits_def free_def split: option.splits)

lemma edits_leave [simp]: "edits path w (leave n b w') \<longleftrightarrow> edits path w w'"
  by (simp add: edits_def leave_def)

lemma edits_no_faults: "edits path w w' \<Longrightarrow> w_faults w = [] \<Longrightarrow> w_faults w' = []"
  by (simp add: edits_def)

lemma file_data_put_file:
  "w_files w path \<noteq> None \<Longrightarrow> file_data (put_file path off s w) path = write_at (file_data w path) off s"
  by (auto simp: put_file_def file_data_def)

text \<open>How many bytes a transfer moves: all, none, or the length of a short transfer.\<close>

definition moved :: "world \<Rightarrow> nat \<Rightarrow> nat \<Rightarrow> bool" where
  "moved w n k \<longleftrightarrow> k \<le> n \<and> (k = n \<or> k = 0 \<or> Short k \<in> set (w_faults w)) \<and> (w_faults w = [] \<longrightarrow> k = n)"

lemma transfer_moved: "transfer n w = (k, w') \<Longrightarrow> moved w n k"
  by (auto simp: transfer_def poll_def moved_def min_def split: list.splits fault.splits if_splits)

lemma moved_mono: "moved w' n k \<Longrightarrow> set (w_faults w') \<subseteq> set (w_faults w) \<Longrightarrow> moved w n k"
  by (auto simp: moved_def)

lemma fflush_spec:
  assumes "fflush f w = (rc, f', w')" "w_files w (f_path f) \<noteq> None"
  obtains k where "moved w (length (f_wbuf f)) k" "rc = (if k = length (f_wbuf f) then 0 else -1)"
    "f' = f\<lparr>f_wbuf := drop k (f_wbuf f), f_wpos := f_wpos f + k\<rparr>" "edits (f_path f) w w'"
    "file_data w' (f_path f) = write_at (file_data w (f_path f)) (f_wpos f) (take k (f_wbuf f))"
proof (cases "f_wbuf f = []")
  case True
  with assms show thesis
    by (intro that [of 0]) (auto simp: fflush_def moved_def file_frame_edits)
next
  case False
  obtain k w1 where t: "transfer (length (f_wbuf f)) w = (k, w1)" by (metis prod.exhaust)
  note w1 = transfer_frame [OF t]
  have files: "w_files w1 (f_path f) \<noteq> None" "file_data w1 = file_data w"
    using assms(2) w1 by (simp_all add: io_frame_file_data) (simp add: io_frame_def)
  have eq: "rc = (if k = length (f_wbuf f) then 0 else -1)"
    "f' = f\<lparr>f_wbuf := drop k (f_wbuf f), f_wpos := f_wpos f + k\<rparr>"
    "w' = put_file (f_path f) (f_wpos f) (take k (f_wbuf f)) w1"
    using assms(1) False t by (auto simp: fflush_def)
  show thesis
    by (rule that [OF transfer_moved [OF t] eq(1,2)])
      (use files eq(3) file_frame_edits [OF io_frame_file_frame [OF w1]]
        in \<open>auto simp: file_data_put_file intro: edits_trans\<close>)
qed

lemma fclose_spec:
  assumes "w_files w (f_path f) \<noteq> None"
  obtains k where "moved w (length (f_wbuf f)) k" "edits (f_path f) w (snd (fclose f w))"
    "file_data (snd (fclose f w)) (f_path f) = write_at (file_data w (f_path f)) (f_wpos f) (take k (f_wbuf f))"
    "fst (fclose f w) = 0 \<longrightarrow> k = length (f_wbuf f)" "w_faults w = [] \<longrightarrow> fst (fclose f w) = 0"
proof -
  obtain rc f1 w1 where fl: "fflush f w = (rc, f1, w1)" by (metis prod_cases3)
  obtain k where k: "moved w (length (f_wbuf f)) k" "rc = (if k = length (f_wbuf f) then 0 else -1)"
    "edits (f_path f) w w1"
    "file_data w1 (f_path f) = write_at (file_data w (f_path f)) (f_wpos f) (take k (f_wbuf f))"
    by (rule fflush_spec [OF fl assms]) (rule that)
  obtain ok w2 where at: "attempt w1 = (ok, w2)" by (metis prod.exhaust)
  have w2: "file_frame w1 (w2\<lparr>w_open := w_open w2 - 1\<rparr>)"
    using attempt_frame [OF at] by (simp add: io_frame_def file_frame_def)
  have close: "fclose f w = (if rc = 0 \<and> ok then 0 else -1, w2\<lparr>w_open := w_open w2 - 1\<rparr>)"
    using fl at by (simp add: fclose_def)
  have nf: "ok" if "w_faults w = []"
    using at edits_no_faults [OF k(3) that] by simp
  show thesis
    by (rule that [OF k(1)])
      (use k close nf file_frame_data [OF w2] edits_trans [OF k(3) file_frame_edits [OF w2]] in
        \<open>auto simp: moved_def\<close>)
qed

text \<open>Seeking flushes first; a seek that succeeds leaves nothing pending.\<close>

lemma fseeko_spec:
  assumes "fseeko f off w = (rc, f', w')" "w_files w (f_path f) \<noteq> None" "0 \<le> off"
  obtains k where "moved w (length (f_wbuf f)) k" "edits (f_path f) w w'"
    "file_data w' (f_path f) = write_at (file_data w (f_path f)) (f_wpos f) (take k (f_wbuf f))"
    "f_path f' = f_path f" "f_write f' = f_write f"
    "f_wbuf f' = drop k (f_wbuf f)" "f_wpos f' = f_wpos f + k" "rc = 0 \<or> rc = -1"
    "rc = 0 \<longrightarrow> k = length (f_wbuf f) \<and> f_pos f' = nat off" "w_faults w = [] \<longrightarrow> rc = 0"
proof -
  obtain rc1 f1 w1 where fl: "fflush f w = (rc1, f1, w1)" by (metis prod_cases3)
  obtain k where k: "moved w (length (f_wbuf f)) k" "rc1 = (if k = length (f_wbuf f) then 0 else -1)"
    "f1 = f\<lparr>f_wbuf := drop k (f_wbuf f), f_wpos := f_wpos f + k\<rparr>" "edits (f_path f) w w1"
    "file_data w1 (f_path f) = write_at (file_data w (f_path f)) (f_wpos f) (take k (f_wbuf f))"
    by (rule fflush_spec [OF fl assms(2)]) (rule that)
  obtain ok w2 where at: "attempt w1 = (ok, w2)" by (metis prod.exhaust)
  note w2 = attempt_frame [OF at]
  have r: "(rc, f', w') = (if rc1 \<noteq> 0 then (-1, f1, w1) else if ok then (0, f1\<lparr>f_pos := nat off\<rparr>, w2) else (-1, f1, w2))"
    using assms(1,3) fl at by (auto simp: fseeko_def split: if_splits)
  have nf: "ok" if "w_faults w = []"
    using at edits_no_faults [OF k(4) that] by simp
  have e: "edits (f_path f) w w'" "file_data w' (f_path f) = file_data w1 (f_path f)"
    using r k(4) file_frame_edits [OF io_frame_file_frame [OF w2]] io_frame_file_data [OF w2]
    by (auto split: if_splits intro: edits_trans)
  show thesis
    by (rule that [OF k(1) e(1)]) (use r k e(2) nf in \<open>auto simp: moved_def split: if_splits\<close>)
qed

lemma fwrite_spec:
  assumes "fwrite s f w = (k, f', w')" "f_write f" "f_wbuf f = []"
  shows "moved w (length s) k" "io_frame w w'"
    "f' = f\<lparr>f_wpos := f_pos f, f_wbuf := take k s, f_pos := f_pos f + k\<rparr>"
  using assms by (auto simp: fwrite_def split: prod.splits dest: transfer_moved transfer_frame)

text \<open>No call changes the environment.\<close>

lemma names_env:
  "mkdir p m w = (rc, w') \<Longrightarrow> w_env w' = w_env w" "chmod p m w = (rc, w') \<Longrightarrow> w_env w' = w_env w"
  "rename old new w = (rc, w') \<Longrightarrow> w_env w' = w_env w" "mkstemp prefix w = (r, w') \<Longrightarrow> w_env w' = w_env w"
  by (auto simp: mkdir_def chmod_def rename_def mkstemp_def io_frame_def
      split: prod.splits bool.splits option.splits if_splits dest!: attempt_frame)

end
