(* ===== verification/Padlock_Header.thy ===== *)
theory Padlock_Header
  imports Padlock_Codec Padlock_World
begin

text \<open>
  The store header of \<^verbatim>\<open>src/src/padlock.c\<close>: the record \<open>padlock_header\<close>, its 4096-byte image
  (\<open>header_image\<close>, the buffer \<open>write_header\<close> fills; \<open>parse_header\<close>, the checks of
  \<open>read_header\<close>) and the two operations on a stream. The lemmas show the round trip, that
  every accepted header satisfies the bounds the rest of the code relies on, and what the two
  operations do to the file under any sequence of failures.
\<close>

section \<open>The header and its image\<close>

record padlock_header =
  total_size :: u64
  write_offset :: u64
  salt :: "byte list"
  iv :: "byte list"
  encrypted_secret :: "byte list"
  encrypted_secret_size :: u32

abbreviation PADLOCK_HEADER_SIZE :: nat where "PADLOCK_HEADER_SIZE \<equiv> 4096"
abbreviation PADLOCK_MIN_SIZE :: nat where "PADLOCK_MIN_SIZE \<equiv> 8192"

definition header_image :: "padlock_header \<Rightarrow> byte list option" where
  "header_image header =
     do {
       let buffer = replicate PADLOCK_HEADER_SIZE 0;
       buffer \<leftarrow> buf_write buffer 0 (bytes ''PADLOCK'');
       buffer \<leftarrow> put_u32 buffer 8 1;
       buffer \<leftarrow> put_u64 buffer 16 (of_nat PADLOCK_HEADER_SIZE);
       buffer \<leftarrow> put_u64 buffer 24 (total_size header);
       buffer \<leftarrow> put_u64 buffer 32 (write_offset header);
       buffer \<leftarrow> buf_write buffer 40 (salt header);
       buffer \<leftarrow> buf_write buffer 56 (iv header);
       buffer \<leftarrow> put_u32 buffer 72 (encrypted_secret_size header);
       buf_write buffer 76 (encrypted_secret header)
     }"

definition write_header :: "FILE \<Rightarrow> padlock_header \<Rightarrow> world \<Rightarrow> (int \<times> FILE \<times> world) option" where
  "write_header file header w =
     do {
       buffer \<leftarrow> header_image header;
       let (rc, file, w) = fseeko file 0 w;
       if rc \<noteq> 0 then Some (-1, file, w)
       else do {
         let (written, file, w) = fwrite buffer file w;
         Some (if written = PADLOCK_HEADER_SIZE then 0 else -1, file, w)
       }
     }"

text \<open>The checks of \<open>read_header\<close> on the buffer it has read.\<close>

definition parse_header :: "byte list \<Rightarrow> padlock_header option option" where
  "parse_header buffer =
     do {
       magic \<leftarrow> buf_read buffer 0 7;
       version \<leftarrow> get_u32 buffer 8;
       if magic \<noteq> bytes ''PADLOCK'' \<or> version \<noteq> 1 then Some None
       else do {
         total \<leftarrow> get_u64 buffer 24;
         woff \<leftarrow> get_u64 buffer 32;
         s \<leftarrow> buf_read buffer 40 16;
         v \<leftarrow> buf_read buffer 56 16;
         size \<leftarrow> get_u32 buffer 72;
         secret \<leftarrow> buf_read buffer 76 128;
         if total < of_nat PADLOCK_MIN_SIZE
            \<or> woff < of_nat PADLOCK_HEADER_SIZE
            \<or> woff > total
            \<or> size > 128
         then Some None
         else Some (Some \<lparr>total_size = total, write_offset = woff, salt = s, iv = v,
                          encrypted_secret = secret, encrypted_secret_size = size\<rparr>)
       }
     }"

definition read_header :: "FILE \<Rightarrow> world \<Rightarrow> (padlock_header option \<times> FILE \<times> world) option" where
  "read_header file w =
     do {
       let (rc, file, w) = fseeko file 0 w;
       if rc \<noteq> 0 then Some (None, file, w)
       else do {
         let (buffer, file, w) = fread file PADLOCK_HEADER_SIZE w;
         if length buffer \<noteq> PADLOCK_HEADER_SIZE then Some (None, file, w)
         else do {
           header \<leftarrow> parse_header buffer;
           Some (header, file, w)
         }
       }
     }"

section \<open>Well-formed headers\<close>

text \<open>The array sizes of the C type.\<close>

definition header_shape :: "padlock_header \<Rightarrow> bool" where
  "header_shape h \<longleftrightarrow> length (salt h) = 16 \<and> length (iv h) = 16 \<and> length (encrypted_secret h) = 128"

text \<open>The bounds \<open>read_header\<close> enforces.\<close>

definition header_bounds :: "padlock_header \<Rightarrow> bool" where
  "header_bounds h \<longleftrightarrow>
     PADLOCK_MIN_SIZE \<le> unat (total_size h) \<and> PADLOCK_HEADER_SIZE \<le> unat (write_offset h) \<and>
     unat (write_offset h) \<le> unat (total_size h) \<and> unat (encrypted_secret_size h) \<le> 128"

definition header_ok :: "padlock_header \<Rightarrow> bool" where
  "header_ok h \<longleftrightarrow> header_shape h \<and> header_bounds h"

lemmas field_put = u32.put_in u64.put_in
lemmas field_get = u32.get_in u64.get_in

text \<open>
  The image as one expression: the fields laid out at their offsets over a zero page.
\<close>

lemma header_image_eq:
  assumes "header_shape h"
  shows "header_image h =
    Some (overlay (overlay (overlay (overlay (overlay (overlay (overlay (overlay (overlay
      (replicate 4096 0) 0 (bytes ''PADLOCK'')) 8 (u32_bytes 1)) 16 (u64_bytes 4096))
      24 (u64_bytes (total_size h))) 32 (u64_bytes (write_offset h))) 40 (salt h)) 56 (iv h))
      72 (u32_bytes (encrypted_secret_size h))) 76 (encrypted_secret h))"
  using assms by (simp add: header_image_def header_shape_def field_put)

lemma header_image_some:
  assumes "header_shape h"
  obtains b where "header_image h = Some b" "length b = PADLOCK_HEADER_SIZE"
  using header_image_eq [OF assms] assms by (simp add: header_shape_def)

lemma header_image_fields:
  assumes "header_shape h" "header_image h = Some b"
  shows "window b 0 7 = bytes ''PADLOCK''" "window b 8 4 = u32_bytes 1"
    "window b 16 8 = u64_bytes 4096"
    "window b 24 8 = u64_bytes (total_size h)" "window b 32 8 = u64_bytes (write_offset h)"
    "window b 40 16 = salt h" "window b 56 16 = iv h" "window b 72 4 = u32_bytes (encrypted_secret_size h)"
    "window b 76 128 = encrypted_secret h"
proof -
  have b: "b = the (header_image h)" using assms(2) by simp
  show "window b 0 7 = bytes ''PADLOCK''" "window b 8 4 = u32_bytes 1"
    "window b 16 8 = u64_bytes 4096"
    "window b 24 8 = u64_bytes (total_size h)" "window b 32 8 = u64_bytes (write_offset h)"
    "window b 40 16 = salt h" "window b 56 16 = iv h" "window b 72 4 = u32_bytes (encrypted_secret_size h)"
    "window b 76 128 = encrypted_secret h"
    using assms(1) unfolding b header_image_eq [OF assms(1)] option.sel
    by (simp_all add: header_shape_def buffer_simps)
qed

lemma parse_header_eq:
  assumes "length b = 4096"
  shows "parse_header b =
    (let h = \<lparr>total_size = u64_of_bytes (window b 24 8), write_offset = u64_of_bytes (window b 32 8),
              salt = window b 40 16, iv = window b 56 16, encrypted_secret = window b 76 128,
              encrypted_secret_size = u32_of_bytes (window b 72 4)\<rparr>
     in Some (if window b 0 7 = bytes ''PADLOCK'' \<and> u32_of_bytes (window b 8 4) = 1 \<and> header_bounds h
              then Some h else None))"
  using assms
  by (auto simp: parse_header_def field_get Let_def header_bounds_def word_less_nat_alt not_less)

lemma parse_header_ok:
  assumes "length b = 4096" "parse_header b = Some (Some h)"
  shows "header_ok h"
  using assms
  by (auto simp: parse_header_eq Let_def header_ok_def header_shape_def split: if_splits)

lemma parse_header_image:
  assumes "header_ok h" "header_image h = Some b"
  shows "parse_header b = Some (Some h)"
proof -
  have shape: "header_shape h" and bounds: "header_bounds h"
    using assms(1) by (simp_all add: header_ok_def)
  have "length b = 4096"
    using header_image_some [OF shape] assms(2) by auto
  then show ?thesis
    using header_image_fields [OF shape assms(2)] bounds
    by (simp add: parse_header_eq Let_def header_bounds_def)
qed

section \<open>Reading and writing the header of a file\<close>

text \<open>What a header read from a file of the given contents can be.\<close>

definition header_of :: "byte list \<Rightarrow> padlock_header option" where
  "header_of d = (if PADLOCK_HEADER_SIZE \<le> length d then the (parse_header (window d 0 PADLOCK_HEADER_SIZE)) else None)"

lemma parse_header_total: "length b = 4096 \<Longrightarrow> \<exists>r. parse_header b = Some r"
  by (simp add: parse_header_eq Let_def)

lemma header_of_ok: "header_of d = Some h \<Longrightarrow> header_ok h"
  using parse_header_total [of "window d 0 4096"]
  by (auto simp: header_of_def split: if_splits intro: parse_header_ok [of "window d 0 4096"])

lemma header_of_write_at:
  assumes "header_ok h" "header_image h = Some b"
  shows "header_of (write_at d 0 b) = Some h"
proof -
  obtain "length b = 4096"
    using assms header_image_some [of h] by (auto simp: header_ok_def)
  then have "window (write_at d 0 b) 0 4096 = b" "4096 \<le> length (write_at d 0 b)"
    by (auto simp: write_at_def window_def)
  with parse_header_image [OF assms] show ?thesis
    by (simp add: header_of_def)
qed

lemma header_of_prefix: "take 4096 d = take 4096 d' \<Longrightarrow> length d = length d' \<Longrightarrow> header_of d = header_of d'"
  by (simp add: header_of_def window_def)

text \<open>A file has header \<open>h\<close> exactly when the fields of \<open>h\<close> stand at their offsets.\<close>

definition header_at :: "byte list \<Rightarrow> padlock_header \<Rightarrow> bool" where
  "header_at d h \<longleftrightarrow>
     4096 \<le> length d \<and> window d 0 7 = bytes ''PADLOCK'' \<and> window d 8 4 = u32_bytes 1 \<and>
     window d 24 8 = u64_bytes (total_size h) \<and> window d 32 8 = u64_bytes (write_offset h) \<and>
     window d 40 16 = salt h \<and> window d 56 16 = iv h \<and>
     window d 72 4 = u32_bytes (encrypted_secret_size h) \<and> window d 76 128 = encrypted_secret h"

lemma window_head: "o' + n \<le> m \<Longrightarrow> window (window d 0 m) o' n = window d o' n"
  by (simp add: window_def drop_take min_def)

lemma u32_of_bytes_eq: "length s = 4 \<Longrightarrow> u32_of_bytes s = v \<longleftrightarrow> s = u32_bytes v"
  by (metis u32_of_u32_bytes u32_bytes_u32_of)

lemma u64_of_bytes_eq: "length s = 8 \<Longrightarrow> u64_of_bytes s = v \<longleftrightarrow> s = u64_bytes v"
  by (metis u64_of_u64_bytes u64_bytes_u64_of)

lemma header_of_iff: "header_of d = Some h \<longleftrightarrow> header_at d h \<and> header_bounds h"
proof (cases "4096 \<le> length d")
  case True
  let ?h = "\<lparr>total_size = u64_of_bytes (window d 24 8), write_offset = u64_of_bytes (window d 32 8),
    salt = window d 40 16, iv = window d 56 16, encrypted_secret = window d 76 128,
    encrypted_secret_size = u32_of_bytes (window d 72 4)\<rparr>"
  have iff: "header_of d = Some h \<longleftrightarrow>
      window d 0 7 = bytes ''PADLOCK'' \<and> u32_of_bytes (window d 8 4) = 1 \<and> header_bounds ?h \<and> h = ?h"
    using True by (auto simp: header_of_def parse_header_eq Let_def window_head)
  have eq: "header_at d h \<longleftrightarrow> window d 0 7 = bytes ''PADLOCK'' \<and> u32_of_bytes (window d 8 4) = 1 \<and> h = ?h"
    using True by (cases h) (auto simp: header_at_def u32_of_bytes_eq u64_of_bytes_eq)
  show ?thesis unfolding iff eq by blast
qed (simp add: header_of_def header_at_def)

lemma read_header_spec:
  assumes "f_wbuf f = []"
  obtains r f' w' where "read_header f w = Some (r, f', w')" "io_frame w w'"
    "f_path f' = f_path f" "f_write f' = f_write f" "f_wbuf f' = []"
    "r = None \<or> r = header_of (file_data w (f_path f))"
    "w_faults w = [] \<longrightarrow> r = header_of (file_data w (f_path f))"
proof -
  obtain rc f1 w1 where s: "fseeko f 0 w = (rc, f1, w1)" by (metis prod_cases3)
  note s' = fseeko_clean [OF assms s]
  obtain b f2 w2 where r: "fread f1 4096 w1 = (b, f2, w2)" by (metis prod_cases3)
  note r' = fread_spec [OF r]
  show thesis
  proof (cases "rc = 0 \<and> length b = 4096")
    case True
    then have b: "b = window (file_data w (f_path f)) 0 4096" and len: "4096 \<le> length (file_data w (f_path f))"
      using s' r' by (auto simp: io_frame_file_data length_window)
    obtain h where h: "parse_header b = Some h" using parse_header_total True by blast
    have "read_header f w = Some (h, f2, w2)"
      using True s r h by (simp add: read_header_def)
    moreover have "h = header_of (file_data w (f_path f))"
      using b h len by (simp add: header_of_def)
    ultimately show thesis
      using s' r' by (intro that [of h f2 w2]) (auto intro: io_frame_trans)
  next
    case False
    have short: "header_of (file_data w (f_path f)) = None" if "w_faults w = []" "length b \<noteq> 4096"
      using that s' r' by (auto simp: header_of_def io_frame_file_data io_frame_no_faults)
    show thesis
    proof (cases "rc = 0")
      case True
      with False s r s' r' short show thesis
        by (intro that [of None f2 w2])
          (auto simp: read_header_def intro: io_frame_trans)
    next
      case rc: False
      with s s' show thesis
        by (intro that [of None f1 w1]) (auto simp: read_header_def)
    qed
  qed
qed

section \<open>Properties\<close>

text \<open>
  Every header within the bounds has an image of exactly 4096 bytes, and \<open>read_header\<close>'s checks
  accept that image and give the header back.
\<close>

theorem header_round_trip:
  assumes "header_ok h"
  shows "\<exists>b. header_image h = Some b \<and> length b = PADLOCK_HEADER_SIZE \<and> parse_header b = Some (Some h)"
  using assms header_image_some [of h] parse_header_image [OF assms] by (auto simp: header_ok_def)

definition sample_fields :: padlock_header where
  "sample_fields = \<lparr>total_size = 8192, write_offset = 4096, salt = replicate 16 1, iv = replicate 16 2,
     encrypted_secret = replicate 128 3, encrypted_secret_size = 80\<rparr>"

theorem header_round_trip_witness: "\<exists>b. header_image sample_fields = Some b \<and> parse_header b = Some (Some sample_fields)"
  using header_round_trip [of sample_fields]
  by (auto simp: header_ok_def header_shape_def header_bounds_def sample_fields_def)

text \<open>
  C39: \<open>read_header\<close> on any file and for every sequence of failures returns, changes no file, and what
  it accepts has a total size of at least 8192, a write offset between 4096 and the total size, a
  secret size of at most 128, and the array lengths of the C type.
\<close>

theorem read_header_bounds:
  assumes "f_wbuf f = []"
  shows "\<exists>r f' w'. read_header f w = Some (r, f', w') \<and> w_files w' = w_files w \<and>
    (\<forall>h. r = Some h \<longrightarrow> header_ok h \<and> header_of (file_data w (f_path f)) = Some h)"
proof -
  obtain r f' w' where "read_header f w = Some (r, f', w')" "io_frame w w'"
    "r = None \<or> r = header_of (file_data w (f_path f))"
    by (rule read_header_spec [OF assms]) (rule that)
  then show ?thesis by (auto simp: io_frame_def intro: header_of_ok)
qed

definition header_world :: "byte list \<Rightarrow> world" where
  "header_world b = \<lparr>w_files = [''x'' \<mapsto> \<lparr>fn_data = b, fn_mode = 0\<rparr>], w_dirs = Map.empty, w_env = Map.empty, w_suffixes = [],
     w_errno = 0, w_faults = [], w_rand = of_nat, w_rpos = 0, w_junk = (\<lambda>_. 0), w_open = 0, w_live = 0, w_residue = []\<rparr>"

theorem read_header_bounds_witness:
  "\<exists>b f' w'. header_image sample_fields = Some b \<and> read_header (stream ''x'' False) (header_world b) = Some (Some sample_fields, f', w') \<and>
     header_ok sample_fields \<and> w_files w' = w_files (header_world b)"
proof -
  have ok: "header_ok sample_fields" by (simp add: header_ok_def header_shape_def header_bounds_def sample_fields_def)
  obtain b where b: "header_image sample_fields = Some b" "length b = 4096"
    using header_image_some [of sample_fields] ok by (auto simp: header_ok_def)
  let ?f = "stream ''x'' False" and ?w = "header_world b"
  have h: "header_of (file_data ?w (f_path ?f)) = Some sample_fields" "w_faults ?w = []"
    using parse_header_image [OF ok b(1)] b(2) by (simp_all add: header_of_def header_world_def file_data_def window_def)
  obtain r f' w' where "read_header ?f ?w = Some (r, f', w')" "r = Some sample_fields"
    by (rule read_header_spec [of ?f ?w]) (use h in auto)
  then show ?thesis using read_header_bounds [of ?f ?w] b(1) by auto
qed

text \<open>
  Without failing calls, a header written to a stream that may be written is what the next
  \<open>read_header\<close> on the same stream reads, through the stream's buffer.
\<close>

theorem write_read_header:
  assumes "header_ok h" "f_wbuf f = []" "f_write f" "w_files w (f_path f) \<noteq> None" "w_faults w = []"
  shows "\<exists>f1 w1 f2 w2. write_header f h w = Some (0, f1, w1) \<and> read_header f1 w1 = Some (Some h, f2, w2)"
proof -
  obtain b where b: "header_image h = Some b" "length b = 4096"
    using header_image_some [of h] assms(1) by (auto simp: header_ok_def)
  let ?d = "file_data w (f_path f)"
  have w: "write_header f h w = Some (0, f\<lparr>f_pos := 4096, f_wbuf := b, f_wpos := 0\<rparr>, w)"
    using assms b by (simp add: write_header_def fseeko_def fflush_def fwrite_def)
  have "window (write_at ?d 0 b) 0 4096 = b" using b(2) by (auto simp: write_at_def window_def)
  then have "\<exists>f2 w2. read_header (f\<lparr>f_pos := 4096, f_wbuf := b, f_wpos := 0\<rparr>) w = Some (Some h, f2, w2)"
    using assms b parse_header_image [OF assms(1) b(1)] file_data_put_file [of w "f_path f" 0 b]
    by (auto simp: read_header_def fseeko_def fflush_def fread_def put_file_def split: option.splits)
  with w show ?thesis by blast
qed

theorem write_read_header_witness:
  "\<exists>f1 w1 f2 w2. write_header (stream ''x'' True) sample_fields \<lparr>w_files = [''x'' \<mapsto> \<lparr>fn_data = [], fn_mode = 0\<rparr>],
     w_dirs = Map.empty, w_env = Map.empty, w_suffixes = [], w_errno = 0, w_faults = [], w_rand = of_nat, w_rpos = 0,
     w_junk = (\<lambda>_. 0), w_open = 0, w_live = 0, w_residue = []\<rparr> = Some (0, f1, w1) \<and>
     read_header f1 w1 = Some (Some sample_fields, f2, w2)"
  by (rule write_read_header) (simp_all add: header_ok_def header_shape_def header_bounds_def sample_fields_def)

end
