(* ===== verification/Padlock_Crypto.thy ===== *)
theory Padlock_Crypto
  imports Padlock_Header
begin

text \<open>
  The cryptographic layer of \<^verbatim>\<open>src/src/padlock.c\<close>: \<open>derive_header_key\<close>, \<open>encrypt_secret\<close>,
  \<open>decrypt_secret\<close> and \<open>crypt_xts\<close>.

  OpenSSL is not part of the repository. The functions it provides are the fields of the record
  \<open>openssl\<close>, a parameter of every definition that calls them; \<open>'c\<close> stands for the cipher
  context. What the code relies on is stated by \<open>cbc_laws\<close> and \<open>xts_laws\<close> (sizes, padding,
  decryption inverts encryption, XTS works block by block), which theorems assume where they
  need it. \<open>sample_ssl\<close> is a small concrete instance that satisfies the laws.
\<close>

unbundle bit_operations_syntax

section \<open>The interface to OpenSSL\<close>

datatype evp_cipher = EVP_aes_256_cbc | EVP_aes_256_xts

record 'c openssl =
  PKCS5_PBKDF2_HMAC_sha256 :: "byte list \<Rightarrow> int \<Rightarrow> byte list \<Rightarrow> nat \<Rightarrow> nat \<Rightarrow> byte list option"
  HMAC_sha256 :: "byte list \<Rightarrow> byte list \<Rightarrow> byte list option"
  EVP_EncryptInit_ex :: "evp_cipher \<Rightarrow> byte list \<Rightarrow> byte list \<Rightarrow> 'c option"
  EVP_EncryptUpdate :: "'c \<Rightarrow> byte list \<Rightarrow> int \<Rightarrow> ('c \<times> byte list) option"
  EVP_EncryptFinal_ex :: "'c \<Rightarrow> byte list option"
  EVP_DecryptInit_ex :: "evp_cipher \<Rightarrow> byte list \<Rightarrow> byte list \<Rightarrow> 'c option"
  EVP_DecryptUpdate :: "'c \<Rightarrow> byte list \<Rightarrow> int \<Rightarrow> ('c \<times> byte list) option"
  EVP_DecryptFinal_ex :: "'c \<Rightarrow> byte list option"
  EVP_CIPHER_CTX_set_padding :: "'c \<Rightarrow> int \<Rightarrow> 'c"

text \<open>A context is a heap object of the library.\<close>

definition EVP_CIPHER_CTX_new :: "world \<Rightarrow> bool \<times> world" where
  "EVP_CIPHER_CTX_new w =
     (case attempt w of
        (False, w) \<Rightarrow> (False, w)
      | (True, w) \<Rightarrow> (True, w\<lparr>w_live := Suc (w_live w)\<rparr>))"

definition EVP_CIPHER_CTX_free :: "bool \<Rightarrow> world \<Rightarrow> world" where
  "EVP_CIPHER_CTX_free ctx w = (if ctx then w\<lparr>w_live := w_live w - 1\<rparr> else w)"

text \<open>The conversion \<open>(int) length\<close> of a \<open>size_t\<close>.\<close>

definition int_of_size :: "u64 \<Rightarrow> int" where
  "int_of_size n = sint (ucast n :: u32)"

text \<open>\<open>padlock_secure_zero\<close> on an array of the frame, whose address is never \<open>NULL\<close>.\<close>

definition scrub :: "byte list \<Rightarrow> nat \<Rightarrow> byte list option" where
  "scrub b n = do { r \<leftarrow> padlock_secure_zero (Some b) n; r }"

text \<open>
  The call sequence \<open>EVP_*Init_ex\<close>, \<open>EVP_*Update\<close>, \<open>EVP_*Final_ex\<close> of the three functions
  below, with the direction the C code selects and, for XTS, \<open>EVP_CIPHER_CTX_set_padding(ctx, 0)\<close>
  after the first call. \<open>Update\<close> writes at the start of the output buffer and \<open>Final\<close> behind
  what \<open>Update\<close> wrote. The result is \<open>out_len + final_len\<close>, or \<open>None\<close> where the C code
  jumps to \<open>done\<close>, and the output buffer.
\<close>

definition cipher_init where
  "cipher_init ssl encrypt = (if encrypt then EVP_EncryptInit_ex ssl else EVP_DecryptInit_ex ssl)"

definition cipher_update where
  "cipher_update ssl encrypt = (if encrypt then EVP_EncryptUpdate ssl else EVP_DecryptUpdate ssl)"

definition cipher_final where
  "cipher_final ssl encrypt = (if encrypt then EVP_EncryptFinal_ex ssl else EVP_DecryptFinal_ex ssl)"

definition set_padding :: "'c openssl \<Rightarrow> evp_cipher \<Rightarrow> 'c \<Rightarrow> 'c" where
  "set_padding ssl cipher c =
     (case cipher of EVP_aes_256_cbc \<Rightarrow> c | EVP_aes_256_xts \<Rightarrow> EVP_CIPHER_CTX_set_padding ssl c 0)"

definition evp_crypt ::
  "'c openssl \<Rightarrow> bool \<Rightarrow> evp_cipher \<Rightarrow> byte list \<Rightarrow> byte list \<Rightarrow> byte list \<Rightarrow> int \<Rightarrow> byte list
     \<Rightarrow> (nat option \<times> byte list) option" where
  "evp_crypt ssl encrypt cipher key v input inl output =
     (case cipher_init ssl encrypt cipher key v of
        None \<Rightarrow> Some (None, output)
      | Some c \<Rightarrow>
          (case cipher_update ssl encrypt (set_padding ssl cipher c) input inl of
             None \<Rightarrow> Some (None, output)
           | Some (c, out) \<Rightarrow>
               do {
                 output \<leftarrow> buf_write output 0 out;
                 case cipher_final ssl encrypt c of
                   None \<Rightarrow> Some (None, output)
                 | Some final \<Rightarrow>
                     do {
                       output \<leftarrow> buf_write output (length out) final;
                       Some (Some (length out + length final), output)
                     }
               }))"

section \<open>Deriving the header key\<close>

definition derive_header_key :: "'c openssl \<Rightarrow> string option \<Rightarrow> byte list \<Rightarrow> byte list option" where
  "derive_header_key ssl password slt =
     (case password of
        None \<Rightarrow> None
      | Some p \<Rightarrow>
          if p = '''' then None
          else PKCS5_PBKDF2_HMAC_sha256 ssl (bytes p) (int_of_size (of_nat (length p))) slt 200000 32)"

section \<open>The sealed store key\<close>

text \<open>
  The label \<open>done\<close> of \<open>encrypt_secret\<close> and \<open>decrypt_secret\<close>: free the context if there is
  one, zero the derived key and the plaintext (\<open>n = sizeof(secret)\<close>), return.
\<close>

definition secret_done :: "bool \<Rightarrow> byte list \<Rightarrow> byte list \<Rightarrow> nat \<Rightarrow> 'r \<Rightarrow> world \<Rightarrow> ('r \<times> world) option" where
  "secret_done ctx key secret n result w =
     do {
       let w = EVP_CIPHER_CTX_free ctx w;
       key \<leftarrow> scrub key 32;
       secret \<leftarrow> scrub secret n;
       Some (result, leave ''secret'' secret (leave ''key'' key w))
     }"

definition encrypt_secret ::
  "'c openssl \<Rightarrow> string option \<Rightarrow> padlock_header \<Rightarrow> byte list \<Rightarrow> world \<Rightarrow> (padlock_header option \<times> world) option" where
  "encrypt_secret ssl password header xts_key w =
     do {
       let secret = replicate 72 0;
       secret \<leftarrow> buf_write secret 0 (bytes ''PLSECRET'');
       secret \<leftarrow> buf_write secret 8 xts_key;
       case derive_header_key ssl password (salt header) of
         None \<Rightarrow> secret_done False (junk w 32) secret 72 None w
       | Some key \<Rightarrow>
           do {
             let (ctx, w) = EVP_CIPHER_CTX_new w;
             if \<not> ctx then secret_done ctx key secret 72 None w
             else do {
               (len, enc) \<leftarrow> evp_crypt ssl True EVP_aes_256_cbc key (iv header) secret 72 (encrypted_secret header);
               case len of
                 None \<Rightarrow> secret_done ctx key secret 72 None w
               | Some n \<Rightarrow>
                   secret_done ctx key secret 72
                     (Some (header\<lparr>encrypted_secret := enc, encrypted_secret_size := of_nat n\<rparr>)) w
             }
           }
     }"

definition decrypt_secret ::
  "'c openssl \<Rightarrow> string option \<Rightarrow> padlock_header \<Rightarrow> world \<Rightarrow> (byte list option \<times> world) option" where
  "decrypt_secret ssl password header w =
     (let secret = replicate 88 0 in
      if encrypted_secret_size header > 128 then Some (None, w)
      else case derive_header_key ssl password (salt header) of
        None \<Rightarrow> secret_done False (junk w 32) secret 88 None w
      | Some key \<Rightarrow>
          do {
            let (ctx, w) = EVP_CIPHER_CTX_new w;
            if \<not> ctx then secret_done ctx key secret 88 None w
            else do {
              input \<leftarrow> buf_read (encrypted_secret header) 0 (unat (encrypted_secret_size header));
              (len, secret) \<leftarrow> evp_crypt ssl False EVP_aes_256_cbc key (iv header) input
                                 (sint (encrypted_secret_size header)) secret;
              case len of
                None \<Rightarrow> secret_done ctx key secret 88 None w
              | Some n \<Rightarrow>
                  if n < 72 then secret_done ctx key secret 88 None w
                  else do {
                    magic \<leftarrow> buf_read secret 0 8;
                    if magic \<noteq> bytes ''PLSECRET'' then secret_done ctx key secret 88 None w
                    else do {
                      xts_key \<leftarrow> buf_read secret 8 64;
                      secret_done ctx key secret 88 (Some xts_key) w
                    }
                  }
            }
          })"

section \<open>XTS encryption of store data\<close>

definition xts_tweak :: "u64 \<Rightarrow> byte list option" where
  "xts_tweak file_offset = put_u64 (replicate 16 0) 0 (file_offset div 16)"

text \<open>The result code and the output buffer.\<close>

definition crypt_xts ::
  "'c openssl \<Rightarrow> bool \<Rightarrow> byte list \<Rightarrow> u64 \<Rightarrow> byte list \<Rightarrow> byte list \<Rightarrow> u64 \<Rightarrow> world
     \<Rightarrow> ((int \<times> byte list) \<times> world) option" where
  "crypt_xts ssl encrypt xts_key file_offset input output n w =
     do {
       tweak \<leftarrow> xts_tweak file_offset;
       let (ctx, w) = EVP_CIPHER_CTX_new w;
       if \<not> ctx then Some ((-1, output), w)
       else do {
         (len, output) \<leftarrow> evp_crypt ssl encrypt EVP_aes_256_xts xts_key tweak input (int_of_size n) output;
         Some ((if len = Some (unat n) then 0 else -1, output), EVP_CIPHER_CTX_free ctx w)
       }
     }"

section \<open>What the code relies on\<close>

definition kdf_laws :: "'c openssl \<Rightarrow> bool" where
  "kdf_laws ssl \<longleftrightarrow>
     (\<forall>pass len slt iter n k. PKCS5_PBKDF2_HMAC_sha256 ssl pass len slt iter n = Some k \<longrightarrow> length k = n)"

text \<open>A whole message in one \<open>Update\<close> call and \<open>Final\<close>.\<close>

definition evp_whole ::
  "'c openssl \<Rightarrow> bool \<Rightarrow> evp_cipher \<Rightarrow> byte list \<Rightarrow> byte list \<Rightarrow> byte list \<Rightarrow> byte list option" where
  "evp_whole ssl encrypt cipher key v p =
     do {
       c \<leftarrow> cipher_init ssl encrypt cipher key v;
       (c, out) \<leftarrow> cipher_update ssl encrypt (set_padding ssl cipher c) p (int (length p));
       final \<leftarrow> cipher_final ssl encrypt c;
       Some (out @ final)
     }"

text \<open>
  \<open>evp_bound ssl encrypt cipher m\<close>: on a message of \<open>n\<close> bytes the library writes at most
  \<open>m n\<close> bytes, counting what \<open>Update\<close> writes before a \<open>Final\<close> that fails.
\<close>

definition evp_bound :: "'c openssl \<Rightarrow> bool \<Rightarrow> evp_cipher \<Rightarrow> (nat \<Rightarrow> nat) \<Rightarrow> bool" where
  "evp_bound ssl encrypt cipher m \<longleftrightarrow>
     (\<forall>key v c p c' out. cipher_init ssl encrypt cipher key v = Some c \<longrightarrow>
        cipher_update ssl encrypt (set_padding ssl cipher c) p (int (length p)) = Some (c', out) \<longrightarrow>
        length out \<le> m (length p) \<and>
        (\<forall>final. cipher_final ssl encrypt c' = Some final \<longrightarrow> length out + length final \<le> m (length p)))"

text \<open>
  CBC with PKCS padding: encryption adds between 1 and 16 bytes up to a block boundary,
  decryption never returns more than it was given, and it inverts encryption.
\<close>

definition cbc_laws :: "'c openssl \<Rightarrow> bool" where
  "cbc_laws ssl \<longleftrightarrow>
     evp_bound ssl True EVP_aes_256_cbc (\<lambda>n. 16 * (n div 16 + 1)) \<and>
     evp_bound ssl False EVP_aes_256_cbc (\<lambda>n. n) \<and>
     (\<forall>key v p e. evp_whole ssl True EVP_aes_256_cbc key v p = Some e \<longrightarrow>
        length e = 16 * (length p div 16 + 1) \<and> evp_whole ssl False EVP_aes_256_cbc key v e = Some p)"

text \<open>
  XTS keeps the length and decryption inverts encryption. On whole blocks the decryption of a
  prefix is the prefix of the decryption, because each block is transformed on its own.
\<close>

definition xts_sizes :: "'c openssl \<Rightarrow> bool" where
  "xts_sizes ssl \<longleftrightarrow>
     (\<forall>encrypt. evp_bound ssl encrypt EVP_aes_256_xts (\<lambda>n. n)) \<and>
     (\<forall>encrypt key tweak p e. evp_whole ssl encrypt EVP_aes_256_xts key tweak p = Some e \<longrightarrow> length e = length p)"

definition xts_inverse :: "'c openssl \<Rightarrow> bool" where
  "xts_inverse ssl \<longleftrightarrow>
     (\<forall>key tweak p e. 16 \<le> length p \<longrightarrow> evp_whole ssl True EVP_aes_256_xts key tweak p = Some e \<longrightarrow>
        evp_whole ssl False EVP_aes_256_xts key tweak e = Some p)"

definition xts_blockwise :: "'c openssl \<Rightarrow> bool" where
  "xts_blockwise ssl \<longleftrightarrow>
     (\<forall>key tweak e p n. 16 \<le> n \<longrightarrow> n \<le> length e \<longrightarrow> 16 dvd n \<longrightarrow> 16 dvd length e \<longrightarrow>
        evp_whole ssl False EVP_aes_256_xts key tweak e = Some p \<longrightarrow>
        evp_whole ssl False EVP_aes_256_xts key tweak (take n e) = Some (take n p))"

definition ssl_laws :: "'c openssl \<Rightarrow> bool" where
  "ssl_laws ssl \<longleftrightarrow> kdf_laws ssl \<and> cbc_laws ssl \<and> xts_sizes ssl \<and> xts_inverse ssl \<and> xts_blockwise ssl"

section \<open>The library calls on a buffer that is large enough\<close>

lemma int_of_size_small: "unat n < 2 ^ 31 \<Longrightarrow> int_of_size n = int (unat n)"
proof -
  assume n: "unat n < 2 ^ 31"
  then have "unat (ucast n :: u32) = unat n"
    by (simp add: unsigned_ucast_eq take_bit_nat_eq_self)
  with n show ?thesis
    by (simp add: int_of_size_def sint_eq_unat_32)
qed

lemma scrub_all [simp]: "length b = n \<Longrightarrow> scrub b n = Some (replicate n 0)"
  by (simp add: scrub_def)

lemma overlay_twice:
  "length a + length b \<le> length o1 \<Longrightarrow> overlay (overlay o1 0 a) (length a) b = overlay o1 0 (a @ b)"
  by (simp add: overlay_def add.commute)

lemma evp_crypt_spec:
  assumes bound: "evp_bound ssl encrypt cipher m" and fits: "m (length p) \<le> length output"
  shows "\<exists>out. length out = length output \<and>
     evp_crypt ssl encrypt cipher key v p (int (length p)) output =
       Some (map_option length (evp_whole ssl encrypt cipher key v p), out) \<and>
     (\<forall>e. evp_whole ssl encrypt cipher key v p = Some e \<longrightarrow> length e \<le> m (length p) \<and> out = overlay output 0 e)"
proof (cases "cipher_init ssl encrypt cipher key v")
  case None
  then show ?thesis by (simp add: evp_crypt_def evp_whole_def)
next
  case (Some c)
  note init = this
  show ?thesis
  proof (cases "cipher_update ssl encrypt (set_padding ssl cipher c) p (int (length p))")
    case None
    with init show ?thesis by (simp add: evp_crypt_def evp_whole_def)
  next
    case (Some co)
    then obtain c' out where upd: "cipher_update ssl encrypt (set_padding ssl cipher c) p (int (length p)) = Some (c', out)"
      by (cases co) auto
    have out: "length out \<le> length output"
      and final: "\<And>f. cipher_final ssl encrypt c' = Some f \<Longrightarrow> length out + length f \<le> m (length p)"
      using bound init upd fits unfolding evp_bound_def by (blast intro: order_trans)+
    show ?thesis
    proof (cases "cipher_final ssl encrypt c'")
      case None
      with init upd out show ?thesis by (simp add: evp_crypt_def evp_whole_def)
    next
      case (Some f)
      with init upd out final [OF Some] fits show ?thesis
        by (simp add: evp_crypt_def evp_whole_def overlay_twice)
    qed
  qed
qed

lemma EVP_CIPHER_CTX_new_cases:
  assumes "EVP_CIPHER_CTX_new w = (ctx, w')"
  shows "io_frame w (EVP_CIPHER_CTX_free ctx w')" "w_faults w = [] \<Longrightarrow> ctx"
  using assms
  by (auto simp: EVP_CIPHER_CTX_new_def EVP_CIPHER_CTX_free_def io_frame_def
      split: prod.splits bool.splits dest!: attempt_frame)

lemma EVP_CIPHER_CTX_free_False [simp]: "EVP_CIPHER_CTX_free False w = w"
  by (simp add: EVP_CIPHER_CTX_free_def)

section \<open>\<open>crypt_xts\<close> computes one data unit\<close>

definition tweak_of :: "u64 \<Rightarrow> byte list" where
  "tweak_of off = u64_bytes (off div 16) @ replicate 8 0"

abbreviation xts_unit :: "'c openssl \<Rightarrow> bool \<Rightarrow> byte list \<Rightarrow> u64 \<Rightarrow> byte list \<Rightarrow> byte list option" where
  "xts_unit ssl encrypt key off \<equiv> evp_whole ssl encrypt EVP_aes_256_xts key (tweak_of off)"

lemma xts_tweak_eq [simp]: "xts_tweak off = Some (tweak_of off)"
  by (simp add: xts_tweak_def tweak_of_def field_put overlay_def)

lemma crypt_xts_spec:
  assumes sizes: "xts_sizes ssl"
    and len: "length input = unat n" "length output = unat n" "unat n < 2 ^ 31"
  obtains rc out w' where
    "crypt_xts ssl encrypt key off input output n w = Some ((rc, out), w')" "io_frame w w'"
    "length out = unat n" "rc = 0 \<or> rc = -1"
    "rc = 0 \<longrightarrow> xts_unit ssl encrypt key off input = Some out"
    "w_faults w = [] \<longrightarrow> xts_unit ssl encrypt key off input \<noteq> None \<longrightarrow> rc = 0"
proof -
  obtain ctx w1 where new: "EVP_CIPHER_CTX_new w = (ctx, w1)" by (metis prod.exhaust)
  note new' = EVP_CIPHER_CTX_new_cases [OF new]
  have isz: "int_of_size n = int (length input)"
    using len by (simp add: int_of_size_small)
  have bound: "evp_bound ssl encrypt EVP_aes_256_xts (\<lambda>n. n)"
    using sizes by (simp add: xts_sizes_def)
  have whole: "length e = unat n" if "xts_unit ssl encrypt key off input = Some e" for e
    using sizes that len unfolding xts_sizes_def by metis
  obtain out where out: "length out = length output"
    "evp_crypt ssl encrypt EVP_aes_256_xts key (tweak_of off) input (int (length input)) output =
       Some (map_option length (xts_unit ssl encrypt key off input), out)"
    "\<And>e. xts_unit ssl encrypt key off input = Some e \<Longrightarrow> out = overlay output 0 e"
    using evp_crypt_spec [OF bound, of input "output" key "tweak_of off"] len by auto
  show thesis
  proof (cases ctx)
    case False
    with new new' len show thesis
      by (intro that [of "-1" "output" w1]) (auto simp: crypt_xts_def)
  next
    case True
    define rc :: int where "rc = (if xts_unit ssl encrypt key off input = None then -1 else 0)"
    have c: "crypt_xts ssl encrypt key off input output n w = Some ((rc, out), EVP_CIPHER_CTX_free ctx w1)"
      using True new isz out(2) whole by (auto simp: crypt_xts_def rc_def split: option.splits)
    have d: "rc = 0 \<longrightarrow> xts_unit ssl encrypt key off input = Some out"
      using out(3) whole len by (auto simp: rc_def split: if_splits)
    show thesis
      by (rule that [OF c new'(1) _ _ d]) (use out(1) len in \<open>simp_all add: rc_def\<close>)
  qed
qed

section \<open>Sealing and opening the store key\<close>

text \<open>The frame of \<open>encrypt_secret\<close> and \<open>decrypt_secret\<close> leaves only zeros behind.\<close>

abbreviation secret_frame :: "nat \<Rightarrow> world \<Rightarrow> world" where
  "secret_frame n w \<equiv> leave ''secret'' (replicate n 0) (leave ''key'' (replicate 32 0) w)"

lemma io_frame_leave: "io_frame w w' \<Longrightarrow> io_frame (leave a b w) (leave a b w')"
  by (simp add: io_frame_def leave_def)

lemma secret_done_eq [simp]:
  "length key = 32 \<Longrightarrow> length secret = n \<Longrightarrow>
     secret_done ctx key secret n r w = Some (r, secret_frame n (EVP_CIPHER_CTX_free ctx w))"
  by (simp add: secret_done_def)

lemma derive_header_key_length:
  "kdf_laws ssl \<Longrightarrow> derive_header_key ssl pw s = Some k \<Longrightarrow> length k = 32"
  unfolding kdf_laws_def derive_header_key_def by (fastforce split: option.splits if_splits)

definition store_secret :: "byte list \<Rightarrow> byte list" where
  "store_secret xts_key = bytes ''PLSECRET'' @ xts_key"

text \<open>The ciphertext of the store key under a password, and the store key a header yields.\<close>

definition sealed_secret :: "'c openssl \<Rightarrow> string option \<Rightarrow> padlock_header \<Rightarrow> byte list \<Rightarrow> byte list option" where
  "sealed_secret ssl pw h xts_key =
     do {
       kd \<leftarrow> derive_header_key ssl pw (salt h);
       evp_whole ssl True EVP_aes_256_cbc kd (iv h) (store_secret xts_key)
     }"

definition opened_secret :: "'c openssl \<Rightarrow> string option \<Rightarrow> padlock_header \<Rightarrow> byte list option" where
  "opened_secret ssl pw h =
     do {
       kd \<leftarrow> derive_header_key ssl pw (salt h);
       p \<leftarrow> evp_whole ssl False EVP_aes_256_cbc kd (iv h)
              (window (encrypted_secret h) 0 (unat (encrypted_secret_size h)));
       if 72 \<le> length p \<and> take 8 p = bytes ''PLSECRET'' then Some (window p 8 64) else None
     }"

lemma opened_secret_length: "opened_secret ssl pw h = Some k \<Longrightarrow> length k = 64"
  by (auto simp: opened_secret_def bind_eq_Some_conv split: if_splits)

lemma encrypt_secret_spec:
  assumes laws: "kdf_laws ssl" "cbc_laws ssl" and shape: "header_shape h" and k: "length xts_key = 64"
  obtains r w' where "encrypt_secret ssl pw h xts_key w = Some (r, w')" "io_frame (secret_frame 72 w) w'"
    "r = None \<or> (\<exists>e. sealed_secret ssl pw h xts_key = Some e \<and> length e = 80 \<and>
        r = Some (h\<lparr>encrypted_secret := overlay (encrypted_secret h) 0 e, encrypted_secret_size := 80\<rparr>))"
    "w_faults w = [] \<longrightarrow> sealed_secret ssl pw h xts_key \<noteq> None \<longrightarrow> r \<noteq> None"
proof -
  have sec: "overlay (overlay (replicate 72 0) 0 (bytes ''PLSECRET'')) 8 xts_key = store_secret xts_key"
    "length (store_secret xts_key) = 72"
    using k by (simp_all add: overlay_def store_secret_def)
  obtain ctx w1 where new: "EVP_CIPHER_CTX_new w = (ctx, w1)" by (metis prod.exhaust)
  note new' = EVP_CIPHER_CTX_new_cases [OF new]
  have fin: "io_frame (secret_frame 72 w) (secret_frame 72 (EVP_CIPHER_CTX_free ctx w1))"
    using new'(1) by (intro io_frame_leave)
  show thesis
  proof (cases "derive_header_key ssl pw (salt h)")
    case None
    then show thesis
      using k by (intro that [of None "secret_frame 72 w"])
        (simp_all add: encrypt_secret_def sec sealed_secret_def)
  next
    case (Some kd)
    note kd = derive_header_key_length [OF laws(1) Some]
    have bound: "evp_bound ssl True EVP_aes_256_cbc (\<lambda>n. 16 * (n div 16 + 1))"
      using laws(2) by (simp add: cbc_laws_def)
    obtain out where out: "length out = 128"
      "evp_crypt ssl True EVP_aes_256_cbc kd (iv h) (store_secret xts_key) 72 (encrypted_secret h) =
        Some (map_option length (sealed_secret ssl pw h xts_key), out)"
      "\<And>e. sealed_secret ssl pw h xts_key = Some e \<Longrightarrow> out = overlay (encrypted_secret h) 0 e"
      using evp_crypt_spec [OF bound, of "store_secret xts_key" "encrypted_secret h" kd "iv h"] shape
      by (auto simp: sec header_shape_def sealed_secret_def Some)
    have e: "length e = 80" if "sealed_secret ssl pw h xts_key = Some e" for e
      using that laws(2) by (auto simp: sealed_secret_def Some cbc_laws_def sec)
    show thesis
    proof (cases "ctx \<and> sealed_secret ssl pw h xts_key \<noteq> None")
      case True
      then obtain e where s: "sealed_secret ssl pw h xts_key = Some e" by auto
      show thesis
        by (rule that [of "Some (h\<lparr>encrypted_secret := out, encrypted_secret_size := 80\<rparr>)", OF _ fin])
          (use True new k kd Some out s e [OF s] in \<open>simp_all add: encrypt_secret_def sec\<close>)
    next
      case False
      show thesis
        by (rule that [of None, OF _ fin])
          (use False new new'(2) k kd Some out in \<open>auto simp: encrypt_secret_def sec\<close>)
    qed
  qed
qed

lemma decrypt_secret_spec:
  assumes laws: "kdf_laws ssl" "cbc_laws ssl" and shape: "header_shape h"
    and size: "unat (encrypted_secret_size h) \<le> 88"
  obtains r w' where "decrypt_secret ssl pw h w = Some (r, w')" "io_frame (secret_frame 88 w) w'"
    "r = None \<or> r = opened_secret ssl pw h"
    "w_faults w = [] \<longrightarrow> r = opened_secret ssl pw h"
proof -
  let ?n = "unat (encrypted_secret_size h)"
  define input where "input = window (encrypted_secret h) 0 ?n"
  have input: "buf_read (encrypted_secret h) 0 ?n = Some input" "length input = ?n"
    "sint (encrypted_secret_size h) = int (length input)" "\<not> encrypted_secret_size h > 128"
    using shape size
    by (simp_all add: input_def header_shape_def sint_eq_unat_32 word_less_nat_alt not_less)
  obtain ctx w1 where new: "EVP_CIPHER_CTX_new w = (ctx, w1)" by (metis prod.exhaust)
  note new' = EVP_CIPHER_CTX_new_cases [OF new]
  have fin: "io_frame (secret_frame 88 w) (secret_frame 88 (EVP_CIPHER_CTX_free ctx w1))"
    using new'(1) by (intro io_frame_leave)
  show thesis
  proof (cases "derive_header_key ssl pw (salt h)")
    case None
    then show thesis
      using input by (intro that [of None "secret_frame 88 w"])
        (simp_all add: decrypt_secret_def opened_secret_def)
  next
    case (Some kd)
    note kd = derive_header_key_length [OF laws(1) Some]
    let ?p = "evp_whole ssl False EVP_aes_256_cbc kd (iv h) input"
    have le: "length input \<le> 88" using size input(2) by simp
    have bound: "evp_bound ssl False EVP_aes_256_cbc (\<lambda>n. n)"
      using laws(2) by (simp add: cbc_laws_def)
    obtain out where out: "length out = 88"
      "evp_crypt ssl False EVP_aes_256_cbc kd (iv h) input (int (length input)) (replicate 88 0) =
        Some (map_option length ?p, out)"
      "\<And>p. ?p = Some p \<Longrightarrow> length p \<le> 88 \<and> out = overlay (replicate 88 0) 0 p"
      using evp_crypt_spec [OF bound, of input "replicate 88 0" kd "iv h"] le by (fastforce dest: order_trans)
    have p: "window out 0 8 = take 8 p \<and> window out 8 64 = window p 8 64" if "?p = Some p" "72 \<le> length p" for p
      using out(3) [OF that(1)] that(2) by (simp add: overlay_def window_def)
    have opened: "opened_secret ssl pw h =
      (case ?p of None \<Rightarrow> None | Some p \<Rightarrow>
         if 72 \<le> length p \<and> take 8 p = bytes ''PLSECRET'' then Some (window p 8 64) else None)"
      by (simp add: opened_secret_def Some input_def split: option.splits)
    have run: "decrypt_secret ssl pw h w =
      Some (if ctx then opened_secret ssl pw h else None, secret_frame 88 (EVP_CIPHER_CTX_free ctx w1))"
      using new Some kd input(1,3,4) out(1,2) p
      by (cases ctx; cases ?p) (auto simp: decrypt_secret_def Let_def opened not_less)
    show thesis
      by (rule that [OF run fin]) (use new'(2) in auto)
  qed
qed

text \<open>Whenever \<open>decrypt_secret\<close> gets past its size check and returns, its frame is scrubbed.\<close>

lemma evp_crypt_length: "evp_crypt ssl e cipher key v input inl output = Some (n, out) \<Longrightarrow> length out = length output"
  by (auto simp: evp_crypt_def bind_eq_Some_conv split: option.splits dest!: buf_write_length)

lemma decrypt_secret_scrubs:
  assumes laws: "kdf_laws ssl" and size: "unat (encrypted_secret_size h) \<le> 128" and run: "decrypt_secret ssl pw h w = Some (r, w')"
  shows "io_frame (secret_frame 88 w) w'"
proof (cases "derive_header_key ssl pw (salt h)")
  case None
  then show ?thesis using run size by (auto simp: decrypt_secret_def word_less_nat_alt)
next
  case (Some kd)
  note kd = derive_header_key_length [OF laws Some]
  obtain ctx w1 where new: "EVP_CIPHER_CTX_new w = (ctx, w1)" by (metis prod.exhaust)
  have "w' = secret_frame 88 (EVP_CIPHER_CTX_free ctx w1)"
    using run size Some new kd
    by (auto simp: decrypt_secret_def Let_def word_less_nat_alt bind_eq_Some_conv split: if_splits option.splits dest!: evp_crypt_length)
  then show ?thesis using EVP_CIPHER_CTX_new_cases(1) [OF new] by (simp add: io_frame_leave)
qed

text \<open>Opening what was sealed under the same password gives the store key back.\<close>

lemma opened_sealed_secret:
  assumes "cbc_laws ssl" "sealed_secret ssl pw h xts_key = Some e" "length xts_key = 64"
    and "length (encrypted_secret h) = 128"
  shows "opened_secret ssl pw (h\<lparr>encrypted_secret := overlay (encrypted_secret h) 0 e, encrypted_secret_size := 80\<rparr>)
    = Some xts_key"
proof -
  obtain kd where kd: "derive_header_key ssl pw (salt h) = Some kd"
    and e: "evp_whole ssl True EVP_aes_256_cbc kd (iv h) (store_secret xts_key) = Some e"
    using assms(2) by (auto simp: sealed_secret_def bind_eq_Some_conv)
  have len: "length e = 80" and dec: "evp_whole ssl False EVP_aes_256_cbc kd (iv h) e = Some (store_secret xts_key)"
    using assms(1,3) e by (auto simp: cbc_laws_def store_secret_def)
  have "window (overlay (encrypted_secret h) 0 e) 0 80 = e"
    using assms(4) len by (simp add: buffer_simps)
  with kd dec assms(3) show ?thesis
    by (simp add: opened_secret_def store_secret_def window_def)
qed

end
