(* ===== verification/Padlock_Store.thy ===== *)
theory Padlock_Store
  imports Padlock_Crypto
begin

text \<open>
  The operations on a store of \<^verbatim>\<open>src/src/padlock.c\<close>: \<open>ensure_parent_directory\<close>,
  \<open>write_urandom_bytes\<close>, \<open>padlock_allocate\<close>, \<open>padlock_set\<close> and \<open>padlock_get\<close>. Each C function is
  one definition over the world; the label \<open>done\<close> of a function is its own definition
  (\<open>padlock_set_done\<close> and so on), called at every \<open>goto done\<close> with the locals that are live there;
  a loop is a recursive function, with its body as a definition where it is long.
  This theory holds definitions and the termination proofs; their behaviour is proved in
  \<^verbatim>\<open>Padlock_Get\<close>, \<^verbatim>\<open>Padlock_Set\<close> and \<^verbatim>\<open>Padlock_Allocate\<close>.
\<close>

unbundle bit_operations_syntax

section \<open>Directories and random filling\<close>

definition ensure_parent_directory :: "string \<Rightarrow> world \<Rightarrow> int \<times> world" where
  "ensure_parent_directory path w =
     (if length path \<ge> 4096 then (-1, w)
      else case before_last_slash path of
        None \<Rightarrow> (0, w)
      | Some copy \<Rightarrow>
          (case mkdir copy mode_0700 w of
             (rc, w) \<Rightarrow>
               if rc = 0 \<or> w_errno w = EEXIST then (0, snd (chmod copy mode_0700 w))
               else (-1, w)))"

abbreviation BUFFER_SIZE :: nat where "BUFFER_SIZE \<equiv> 1048576"

text \<open>The inner loops of \<open>write_urandom_bytes\<close>: fill the buffer, then write it out.\<close>

function read_loop :: "byte list \<Rightarrow> nat \<Rightarrow> nat \<Rightarrow> world \<Rightarrow> (bool \<times> byte list \<times> world) option" where
  "read_loop buffer read_total amount w =
     (if read_total < amount then
        (case read_urandom (amount - read_total) w of
           (None, w') \<Rightarrow>
             if w_errno w' = EINTR then read_loop buffer read_total amount w'
             else Some (False, buffer, w')
         | (Some b, w') \<Rightarrow>
             if b = [] then Some (False, buffer, set_errno EIO w')
             else do {
               buffer' \<leftarrow> buf_write buffer read_total b;
               read_loop buffer' (read_total + length b) amount w'
             })
      else Some (True, buffer, w))"
  by pat_completeness auto

lemma read_urandom_faults:
  "read_urandom n w = (None, w') \<Longrightarrow> length (w_faults w') < length (w_faults w)"
  "read_urandom n w = (Some b, w') \<Longrightarrow> length (w_faults w') \<le> length (w_faults w)"
  by (auto simp: read_urandom_def poll_def draw_def split: list.splits fault.splits prod.splits)

termination read_loop
  by (relation "measure (\<lambda>(buffer, read_total, amount, w). (amount - read_total) + length (w_faults w))")
    (auto simp: neq_Nil_conv dest!: sym [of "(_, _)"] dest: read_urandom_faults)

declare read_loop.simps [simp del]

function write_loop :: "byte list \<Rightarrow> nat \<Rightarrow> nat \<Rightarrow> FILE \<Rightarrow> world \<Rightarrow> (bool \<times> FILE \<times> world) option" where
  "write_loop buffer write_total amount file w =
     (if write_total < amount then
        do {
          chunk \<leftarrow> buf_read buffer write_total (amount - write_total);
          case fwrite chunk file w of
            (written, file', w') \<Rightarrow>
              if written = 0 then Some (False, file', w')
              else write_loop buffer (write_total + written) amount file' w'
        }
      else Some (True, file, w))"
  by pat_completeness auto
termination write_loop
  by (relation "measure (\<lambda>(buffer, write_total, amount, file, w). amount - write_total)") auto

declare write_loop.simps [simp del]

function urandom_loop :: "byte list \<Rightarrow> u64 \<Rightarrow> FILE \<Rightarrow> world \<Rightarrow> (bool \<times> byte list \<times> FILE \<times> world) option" where
  "urandom_loop buffer remaining file w =
     (if remaining > 0 then
        do {
          let amount = (if remaining > of_nat BUFFER_SIZE then of_nat BUFFER_SIZE else remaining);
          (ok, buffer', w') \<leftarrow> read_loop buffer 0 (unat amount) w;
          if \<not> ok then Some (False, buffer', file, w')
          else do {
            (ok, file', w'') \<leftarrow> write_loop buffer' 0 (unat amount) file w';
            if \<not> ok then Some (False, buffer', file', w'')
            else urandom_loop buffer' (remaining - amount) file' w''
          }
        }
      else Some (True, buffer, file, w))"
  by pat_completeness auto

lemma urandom_amount_less:
  "(remaining :: u64) > 0 \<Longrightarrow>
     unat (remaining - (if remaining > of_nat BUFFER_SIZE then of_nat BUFFER_SIZE else remaining)) < unat remaining"
  by (auto simp: word_less_nat_alt unat_sub word_le_nat_alt)

termination urandom_loop
  by (relation "measure (\<lambda>(buffer, remaining, file, w). unat remaining)") (auto dest: urandom_amount_less)

declare urandom_loop.simps [simp del]

definition write_urandom_bytes :: "FILE \<Rightarrow> u64 \<Rightarrow> world \<Rightarrow> (int \<times> FILE \<times> world) option" where
  "write_urandom_bytes file n w =
     (case malloc BUFFER_SIZE w of
        (None, w) \<Rightarrow> Some (-1, file, w)
      | (Some buffer, w) \<Rightarrow>
          do {
            let (random_fd, w) = open_urandom w;
            (ok, buffer, file, w) \<leftarrow>
              (if random_fd then urandom_loop buffer n file w else Some (False, buffer, file, w));
            let w = (if random_fd then close w else w);
            buffer \<leftarrow> scrub buffer BUFFER_SIZE;
            Some (if ok then 0 else -1, file, free ''buffer'' (Some buffer) w)
          })"

section \<open>\<open>padlock_allocate\<close>\<close>

definition padlock_allocate_done ::
  "int \<Rightarrow> FILE option \<Rightarrow> bool \<Rightarrow> string \<Rightarrow> byte list \<Rightarrow> world \<Rightarrow> (int \<times> world) option" where
  "padlock_allocate_done ok file fd temp_path xts_key w =
     do {
       let w = (case file of None \<Rightarrow> w | Some f \<Rightarrow> snd (fclose f w));
       let w = (if fd then close w else w);
       let w = (if ok \<noteq> 0 \<and> temp_path \<noteq> '''' then snd (unlink temp_path w) else w);
       xts_key \<leftarrow> scrub xts_key 64;
       Some (ok, leave ''xts_key'' xts_key w)
     }"

text \<open>The header after \<open>memset\<close> and the two assignments, with the random salt and IV.\<close>

definition fresh_header :: "u64 \<Rightarrow> byte list \<Rightarrow> byte list \<Rightarrow> padlock_header" where
  "fresh_header sz slt v =
     \<lparr>total_size = sz, write_offset = of_nat PADLOCK_HEADER_SIZE, salt = slt, iv = v,
      encrypted_secret = replicate 128 0, encrypted_secret_size = 0\<rparr>"

text \<open>From \<open>write_header\<close> to \<open>rename\<close>: the header goes in and the file is published.\<close>

definition allocate_publish ::
  "string \<Rightarrow> string \<Rightarrow> FILE \<Rightarrow> padlock_header \<Rightarrow> byte list \<Rightarrow> world \<Rightarrow> (int \<times> world) option" where
  "allocate_publish path temp_path file header xts_key w =
     do {
       (rc, file, w) \<leftarrow> write_header file header w;
       if rc \<noteq> 0 then padlock_allocate_done (-1) (Some file) False temp_path xts_key w
       else do {
         let (rc, file, w) = fflush file w;
         if rc \<noteq> 0 then padlock_allocate_done (-1) (Some file) False temp_path xts_key w
         else do {
           let (rc, w) = fsync w;
           if rc \<noteq> 0 then padlock_allocate_done (-1) (Some file) False temp_path xts_key w
           else do {
             let (rc, w) = fclose file w;
             if rc \<noteq> 0 then padlock_allocate_done (-1) None False temp_path xts_key w
             else do {
               let (rc, w) = rename temp_path path w;
               padlock_allocate_done (if rc \<noteq> 0 then -1 else 0) None False temp_path xts_key w
             }
           }
         }
       }
     }"

text \<open>From \<open>RAND_bytes\<close> on: the salt, the IV and the store key are drawn and the key is sealed.\<close>

definition allocate_seal ::
  "'c openssl \<Rightarrow> string \<Rightarrow> u64 \<Rightarrow> string \<Rightarrow> string \<Rightarrow> FILE \<Rightarrow> world \<Rightarrow> (int \<times> world) option" where
  "allocate_seal ssl path sz password temp_path file w =
     (case RAND_bytes 16 w of
        (None, w) \<Rightarrow> padlock_allocate_done (-1) (Some file) False temp_path (junk w 64) w
      | (Some slt, w) \<Rightarrow>
     (case RAND_bytes 16 w of
        (None, w) \<Rightarrow> padlock_allocate_done (-1) (Some file) False temp_path (junk w 64) w
      | (Some v, w) \<Rightarrow>
     (case RAND_bytes 64 w of
        (None, w) \<Rightarrow> padlock_allocate_done (-1) (Some file) False temp_path (junk w 64) w
      | (Some xts_key, w) \<Rightarrow>
          do {
            (sealed, w) \<leftarrow> encrypt_secret ssl (Some password) (fresh_header sz slt v) xts_key w;
            case sealed of
              None \<Rightarrow> padlock_allocate_done (-1) (Some file) False temp_path xts_key w
            | Some header \<Rightarrow> allocate_publish path temp_path file header xts_key w
          })))"

definition padlock_allocate ::
  "'c openssl \<Rightarrow> string option \<Rightarrow> u64 \<Rightarrow> string option \<Rightarrow> world \<Rightarrow> (int \<times> world) option" where
  "padlock_allocate ssl path sz password w =
     (case (path, password) of
        (Some path, Some password) \<Rightarrow>
          if sz < of_nat PADLOCK_MIN_SIZE then Some (-1, w)
          else do {
            let (rc, w) = ensure_parent_directory path w;
            if rc \<noteq> 0 then Some (-1, w)
            else if length path + 11 \<ge> 4096 then Some (-1, w)
            else case mkstemp (path @ ''.tmp.'') w of
              (None, w) \<Rightarrow> Some (-1, w)
            | (Some temp_path, w) \<Rightarrow>
                do {
                  let (rc, w) = chmod_file temp_path mode_0600 w;
                  if rc \<noteq> 0 then padlock_allocate_done (-1) None True temp_path (junk w 64) w
                  else case fdopen temp_path w of
                    (None, w) \<Rightarrow> padlock_allocate_done (-1) None True temp_path (junk w 64) w
                  | (Some file, w) \<Rightarrow>
                      do {
                        (rc, file, w) \<leftarrow> write_urandom_bytes file sz w;
                        if rc \<noteq> 0
                        then padlock_allocate_done (-1) (Some file) False temp_path (junk w 64) w
                        else allocate_seal ssl path sz password temp_path file w
                      }
                }
          }
      | _ \<Rightarrow> Some (-1, w))"

section \<open>Opening a store\<close>

text \<open>
  The condition \<open>file == 0 || read_header(file, &header) != 0 || decrypt_secret(password, &header, xts_key) != 0\<close>
  of \<open>padlock_set\<close> and \<open>padlock_get\<close>, with the \<open>fopen\<close> before it: the stream, and the header and
  the store key when every call succeeded.
\<close>

definition open_store ::
  "'c openssl \<Rightarrow> string \<Rightarrow> string \<Rightarrow> string \<Rightarrow> world
     \<Rightarrow> ((FILE option \<times> (padlock_header \<times> byte list) option) \<times> world) option" where
  "open_store ssl path mode password w =
     (case fopen path mode w of
        (None, w) \<Rightarrow> Some ((None, None), w)
      | (Some file, w) \<Rightarrow>
          do {
            (hdr, file, w) \<leftarrow> read_header file w;
            case hdr of
              None \<Rightarrow> Some ((Some file, None), w)
            | Some header \<Rightarrow>
                do {
                  (opened, w) \<leftarrow> decrypt_secret ssl (Some password) header w;
                  Some ((Some file, map_option (Pair header) opened), w)
                }
          })"

section \<open>\<open>padlock_set\<close>\<close>

definition padlock_set_done ::
  "int \<Rightarrow> FILE option \<Rightarrow> byte list option \<Rightarrow> u64 \<Rightarrow> byte list option \<Rightarrow> byte list \<Rightarrow> world
     \<Rightarrow> (int \<times> world) option" where
  "padlock_set_done ok file plain padded_length cipher xts_key w =
     do {
       let w = (case file of None \<Rightarrow> w | Some f \<Rightarrow> snd (fclose f w));
       w \<leftarrow> (case plain of
               None \<Rightarrow> Some w
             | Some p \<Rightarrow> do {
                 p \<leftarrow> scrub p (unat padded_length);
                 Some (free ''plain'' (Some p) w)
               });
       let w = free ''cipher'' cipher w;
       xts_key \<leftarrow> scrub xts_key 64;
       Some (ok, leave ''xts_key'' xts_key w)
     }"

text \<open>The plaintext of a record, written into the zeroed buffer.\<close>

definition fill_plain :: "byte list \<Rightarrow> string \<Rightarrow> byte list \<Rightarrow> u32 \<Rightarrow> byte list option" where
  "fill_plain plain key val value_length =
     do {
       plain \<leftarrow> buf_write plain 0 [of_nat (length key)];
       plain \<leftarrow> buf_write plain 1 (bytes key);
       plain \<leftarrow> put_u32 plain (1 + length key) value_length;
       v \<leftarrow> buf_read val 0 (unat value_length);
       buf_write plain (1 + length key + 4) v
     }"

text \<open>From \<open>fseeko\<close> to \<open>write_header\<close>: the record goes to the write offset, then the header moves it.\<close>

definition append_record ::
  "FILE \<Rightarrow> padlock_header \<Rightarrow> byte list \<Rightarrow> u64 \<Rightarrow> world \<Rightarrow> (int \<times> FILE \<times> world) option" where
  "append_record file header cipher padded_length w =
     do {
       let (rc, file, w) = fseeko file (sint (write_offset header)) w;
       if rc \<noteq> 0 then Some (-1, file, w)
       else do {
         let (written, file, w) = fwrite cipher file w;
         if written \<noteq> unat padded_length then Some (-1, file, w)
         else do {
           let header = header\<lparr>write_offset := write_offset header + padded_length\<rparr>;
           (rc, file, w) \<leftarrow> write_header file header w;
           Some (if rc \<noteq> 0 then -1 else 0, file, w)
         }
       }
     }"

definition padlock_set ::
  "'c openssl \<Rightarrow> string option \<Rightarrow> string option \<Rightarrow> string option \<Rightarrow> byte list option \<Rightarrow> u32 \<Rightarrow> world
     \<Rightarrow> (int \<times> world) option" where
  "padlock_set ssl path password key val value_length w =
     (case (path, password, key, val) of
        (Some path, Some password, Some key, Some val) \<Rightarrow>
          if length key = 0 \<or> length key > 255 then Some (-1, w)
          else do {
            ((file, opened), w) \<leftarrow> open_store ssl path ''rb+'' password w;
            case (file, opened) of
              (Some file, Some (header, xts_key)) \<Rightarrow>
              do {
                let plain_length = 1 + of_nat (length key) + 4 + ucast value_length;
                let padded_length = align16 plain_length;
                if padded_length < 16 \<or> write_offset header + padded_length > total_size header
                then padlock_set_done (-1) (Some file) None 0 None xts_key w
                else do {
                  let (plain, w) = calloc (unat padded_length) w;
                  let (cipher, w) = malloc (unat padded_length) w;
                  case (plain, cipher) of
                    (Some p, Some c) \<Rightarrow>
                      do {
                        p \<leftarrow> fill_plain p key val value_length;
                        ((rc, c), w) \<leftarrow> crypt_xts ssl True xts_key (write_offset header) p c padded_length w;
                        if rc \<noteq> 0 then padlock_set_done (-1) (Some file) (Some p) padded_length (Some c) xts_key w
                        else do {
                          (ok, file, w) \<leftarrow> append_record file header c padded_length w;
                          padlock_set_done ok (Some file) (Some p) padded_length (Some c) xts_key w
                        }
                      }
                  | _ \<Rightarrow> padlock_set_done (-1) (Some file) plain padded_length cipher xts_key w
                }
              }
            | _ \<Rightarrow> padlock_set_done (-1) file None 0 None (junk w 64) w
          }
      | _ \<Rightarrow> Some (-1, w))"

section \<open>\<open>padlock_get\<close>\<close>

text \<open>The locals of \<open>padlock_get\<close> that change in its loop.\<close>

record get_state =
  g_offset :: u64
  g_found :: "byte list option"
  g_found_length :: u32
  g_block :: "byte list"
  g_file :: FILE
  g_world :: world

text \<open>
  The comparison and the copy: \<open>None\<close> when \<open>malloc\<close> fails, otherwise the new \<open>found\<close>,
  \<open>found_length\<close> and the world.
\<close>

definition get_match ::
  "string \<Rightarrow> byte \<Rightarrow> u32 \<Rightarrow> byte list \<Rightarrow> byte list option \<Rightarrow> u32 \<Rightarrow> world
     \<Rightarrow> ((byte list option \<times> u32) option \<times> world) option" where
  "get_match key key_size current_value_length entry_plain found found_length w =
     (if unat key_size \<noteq> length key then Some (Some (found, found_length), w)
      else do {
        k \<leftarrow> buf_read entry_plain 1 (length key);
        if k \<noteq> bytes key then Some (Some (found, found_length), w)
        else case malloc (unat (current_value_length + 1)) w of
          (None, w) \<Rightarrow> Some (None, w)
        | (Some replacement, w) \<Rightarrow>
            do {
              v \<leftarrow> buf_read entry_plain (1 + unat key_size + 4) (unat current_value_length);
              replacement \<leftarrow> buf_write replacement 0 v;
              replacement \<leftarrow> buf_write replacement (unat current_value_length) [0];
              Some (Some (Some replacement, current_value_length), free ''found'' found w)
            }
      })"

text \<open>
  One iteration of the loop, in three parts: \<open>True\<close> with the next state, or \<open>False\<close> at a
  \<open>goto done\<close> with the state there. \<open>get_entry\<close> reads and decrypts the whole record,
  \<open>get_prefix\<close> the part up to the value length, \<open>get_body\<close> the first block.
\<close>

definition get_entry ::
  "'c openssl \<Rightarrow> byte list \<Rightarrow> string \<Rightarrow> byte \<Rightarrow> u32 \<Rightarrow> u64 \<Rightarrow> u64 \<Rightarrow> byte list \<Rightarrow> byte list
     \<Rightarrow> byte list \<Rightarrow> byte list \<Rightarrow> get_state \<Rightarrow> (bool \<times> get_state) option" where
  "get_entry ssl xts_key key key_size current_value_length prefix_length padded_length
     prefix_cipher prefix_plain entry_cipher entry_plain s =
     (case seek_read (g_file s) (g_offset s) (unat padded_length) (g_world s) of
        (None, file, w) \<Rightarrow>
          do {
            prefix_plain \<leftarrow> scrub prefix_plain (unat prefix_length);
            let w = free ''prefix_plain'' (Some prefix_plain) (free ''prefix_cipher'' (Some prefix_cipher) w);
            let w = free ''entry_plain'' (Some entry_plain) (free ''entry_cipher'' (Some entry_cipher) w);
            Some (False, s\<lparr>g_file := file, g_world := w\<rparr>)
          }
      | (Some entry_cipher, file, w) \<Rightarrow>
          do {
            ((rc, entry_plain), w) \<leftarrow>
              crypt_xts ssl False xts_key (g_offset s) entry_cipher entry_plain padded_length w;
            if rc \<noteq> 0 then do {
              prefix_plain \<leftarrow> scrub prefix_plain (unat prefix_length);
              let w = free ''prefix_plain'' (Some prefix_plain) (free ''prefix_cipher'' (Some prefix_cipher) w);
              let w = free ''entry_plain'' (Some entry_plain) (free ''entry_cipher'' (Some entry_cipher) w);
              Some (False, s\<lparr>g_file := file, g_world := w\<rparr>)
            }
            else do {
              (m, w) \<leftarrow> get_match key key_size current_value_length entry_plain (g_found s) (g_found_length s) w;
              case m of
                None \<Rightarrow>
                  Some (False, s\<lparr>g_file := file,
                    g_world := free ''entry_plain'' (Some entry_plain) (free ''entry_cipher'' (Some entry_cipher) w)\<rparr>)
              | Some (found, found_length) \<Rightarrow>
                  do {
                    prefix_plain \<leftarrow> scrub prefix_plain (unat prefix_length);
                    let w = free ''prefix_plain'' (Some prefix_plain) (free ''prefix_cipher'' (Some prefix_cipher) w);
                    entry_plain \<leftarrow> scrub entry_plain (unat padded_length);
                    let w = free ''entry_plain'' (Some entry_plain) (free ''entry_cipher'' (Some entry_cipher) w);
                    Some (True, s\<lparr>g_found := found, g_found_length := found_length, g_file := file,
                                  g_world := w, g_offset := g_offset s + padded_length\<rparr>)
                  }
            }
          })"

definition get_prefix ::
  "'c openssl \<Rightarrow> byte list \<Rightarrow> string \<Rightarrow> u64 \<Rightarrow> byte \<Rightarrow> u64 \<Rightarrow> byte list \<Rightarrow> byte list \<Rightarrow> get_state
     \<Rightarrow> (bool \<times> get_state) option" where
  "get_prefix ssl xts_key key woff key_size prefix_length prefix_cipher prefix_plain s =
     (case seek_read (g_file s) (g_offset s) (unat prefix_length) (g_world s) of
        (None, file, w) \<Rightarrow>
          Some (False, s\<lparr>g_file := file,
            g_world := free ''prefix_plain'' (Some prefix_plain) (free ''prefix_cipher'' (Some prefix_cipher) w)\<rparr>)
      | (Some prefix_cipher, file, w) \<Rightarrow>
          do {
            ((rc, prefix_plain), w) \<leftarrow>
              crypt_xts ssl False xts_key (g_offset s) prefix_cipher prefix_plain prefix_length w;
            if rc \<noteq> 0 then
              Some (False, s\<lparr>g_file := file,
                g_world := free ''prefix_plain'' (Some prefix_plain) (free ''prefix_cipher'' (Some prefix_cipher) w)\<rparr>)
            else do {
              current_value_length \<leftarrow> get_u32 prefix_plain (1 + unat key_size);
              let entry_length = 1 + ucast key_size + 4 + current_value_length;
              let padded_length = align16 (ucast (entry_length :: u32));
              if padded_length < 16 \<or> g_offset s + padded_length > woff then do {
                prefix_plain \<leftarrow> scrub prefix_plain (unat prefix_length);
                let w = free ''prefix_plain'' (Some prefix_plain) (free ''prefix_cipher'' (Some prefix_cipher) w);
                Some (False, s\<lparr>g_file := file, g_world := w\<rparr>)
              }
              else do {
                let (entry_cipher, w) = malloc (unat padded_length) w;
                let (entry_plain, w) = malloc (unat padded_length) w;
                case (entry_cipher, entry_plain) of
                  (Some ec, Some ep) \<Rightarrow>
                    get_entry ssl xts_key key key_size current_value_length prefix_length padded_length
                      prefix_cipher prefix_plain ec ep (s\<lparr>g_file := file, g_world := w\<rparr>)
                | _ \<Rightarrow>
                    do {
                      prefix_plain \<leftarrow> scrub prefix_plain (unat prefix_length);
                      let w = free ''prefix_plain'' (Some prefix_plain) (free ''prefix_cipher'' (Some prefix_cipher) w);
                      let w = free ''entry_plain'' entry_plain (free ''entry_cipher'' entry_cipher w);
                      Some (False, s\<lparr>g_file := file, g_world := w\<rparr>)
                    }
              }
            }
          })"

definition get_body ::
  "'c openssl \<Rightarrow> byte list \<Rightarrow> string \<Rightarrow> u64 \<Rightarrow> get_state \<Rightarrow> (bool \<times> get_state) option" where
  "get_body ssl xts_key key woff s =
     (case seek_read (g_file s) (g_offset s) 16 (g_world s) of
        (None, file, w) \<Rightarrow> Some (False, s\<lparr>g_file := file, g_world := w\<rparr>)
      | (Some cipher, file, w) \<Rightarrow>
          do {
            ((rc, block), w) \<leftarrow> crypt_xts ssl False xts_key (g_offset s) cipher (g_block s) 16 w;
            let s = s\<lparr>g_block := block, g_file := file, g_world := w\<rparr>;
            if rc \<noteq> 0 then Some (False, s)
            else do {
              let key_size = block ! 0;
              if key_size = 0 then Some (False, s)
              else do {
                let prefix_length = align16 (ucast (1 + ucast key_size + 4 :: u32));
                if g_offset s + prefix_length > woff then Some (False, s)
                else do {
                  let (prefix_cipher, w) = malloc (unat prefix_length) w;
                  let (prefix_plain, w) = malloc (unat prefix_length) w;
                  case (prefix_cipher, prefix_plain) of
                    (Some pc, Some pp) \<Rightarrow>
                      get_prefix ssl xts_key key woff key_size prefix_length pc pp (s\<lparr>g_world := w\<rparr>)
                  | _ \<Rightarrow>
                      Some (False, s\<lparr>g_world := free ''prefix_plain'' prefix_plain (free ''prefix_cipher'' prefix_cipher w)\<rparr>)
                }
              }
            }
          })"

text \<open>
  Every iteration that continues moves the offset forward: a record of which bytes were read
  starts below \<open>2 ^ 63\<close>, and its padded length lies between 16 and \<open>2 ^ 32\<close>.
\<close>

lemma seek_read_offset: "seek_read f off n w = (Some b, f', w') \<Longrightarrow> unat off < 2 ^ 63"
  using sint_nonneg [of off]
  by (auto simp: seek_read_def fseeko_def not_less split: prod.splits if_splits bool.splits)

lemma get_body_progress:
  assumes "get_body ssl xts_key key woff s = Some (True, s')"
  shows "unat (g_offset s) < unat (g_offset s')"
proof -
  obtain c f w where "seek_read (g_file s) (g_offset s) 16 (g_world s) = (Some c, f, w)"
    using assms by (auto simp: get_body_def split: prod.splits option.splits)
  then have off: "unat (g_offset s) < 2 ^ 63" by (rule seek_read_offset)
  obtain n where "g_offset s' = g_offset s + align16 n" "\<not> align16 n < 16"
    using assms
    by (auto simp: get_body_def get_prefix_def get_entry_def Let_def bind_eq_Some_conv
        split: prod.splits option.splits if_splits)
  moreover have "unat (align16 n) < 2 ^ 32" by (rule align16_less)
  ultimately show ?thesis
    using off by (simp add: unat_add_no_wrap word_less_nat_alt)
qed

function get_loop ::
  "'c openssl \<Rightarrow> byte list \<Rightarrow> string \<Rightarrow> u64 \<Rightarrow> get_state \<Rightarrow> (bool \<times> get_state) option" where
  "get_loop ssl xts_key key woff s =
     (if g_offset s + 16 \<le> woff then
        (case get_body ssl xts_key key woff s of
           None \<Rightarrow> None
         | Some (continue, s') \<Rightarrow>
             if continue then get_loop ssl xts_key key woff s' else Some (False, s'))
      else Some (True, s))"
  by pat_completeness auto
termination get_loop
proof (relation "measure (\<lambda>(ssl, xts_key, key, woff, s). 2 ^ 64 - unat (g_offset s))", goal_cases)
  case (2 ssl xts_key key woff s p cont s')
  then have "unat (g_offset s) < unat (g_offset s')"
    using get_body_progress by metis
  moreover have "unat (g_offset s') < 2 ^ LENGTH(64)" by (rule unsigned_less)
  ultimately show ?case by simp
qed simp

declare get_loop.simps [simp del]

definition padlock_get_done ::
  "int \<Rightarrow> FILE option \<Rightarrow> byte list option \<Rightarrow> byte list \<Rightarrow> byte list \<Rightarrow> byte list option \<times> u32 \<Rightarrow> world
     \<Rightarrow> (int \<times> (byte list option \<times> u32) \<times> world) option" where
  "padlock_get_done ok file found block xts_key result w =
     do {
       let w = (case file of None \<Rightarrow> w | Some f \<Rightarrow> snd (fclose f w));
       let w = free ''found'' found w;
       xts_key \<leftarrow> scrub xts_key 64;
       Some (ok, result, leave ''block'' block (leave ''xts_key'' xts_key w))
     }"

text \<open>
  The two out-parameters \<open>*value\<close> and \<open>*value_length\<close> are the second component of the result;
  \<open>outs\<close> says that both pointers are given.
\<close>

definition padlock_get ::
  "'c openssl \<Rightarrow> string option \<Rightarrow> string option \<Rightarrow> string option \<Rightarrow> bool \<Rightarrow> world
     \<Rightarrow> (int \<times> (byte list option \<times> u32) \<times> world) option" where
  "padlock_get ssl path password key outs w =
     (case (path, password, key) of
        (Some path, Some password, Some key) \<Rightarrow>
          if \<not> outs then Some (-1, (None, 0), w)
          else do {
            ((file, opened), w) \<leftarrow> open_store ssl path ''rb'' password w;
            case (file, opened) of
              (Some file, Some (header, xts_key)) \<Rightarrow>
              do {
                (completed, s) \<leftarrow>
                  get_loop ssl xts_key key (write_offset header)
                    \<lparr>g_offset = of_nat PADLOCK_HEADER_SIZE, g_found = None, g_found_length = 0,
                     g_block = junk w 16, g_file = file, g_world = w\<rparr>;
                if completed \<and> g_found s \<noteq> None
                then padlock_get_done 0 (Some (g_file s)) None (g_block s) xts_key
                       (g_found s, g_found_length s) (g_world s)
                else padlock_get_done (-1) (Some (g_file s)) (g_found s) (g_block s) xts_key (None, 0) (g_world s)
              }
            | _ \<Rightarrow> padlock_get_done (-1) file None (junk w 16) (junk w 64) (None, 0) w
          }
      | _ \<Rightarrow> Some (-1, (None, 0), w))"

end
