(* ===== verification/Padlock_Log.thy ===== *)
theory Padlock_Log
  imports Padlock_Store
begin

text \<open>
  What a store holds, seen from outside: a log of key/value entries in the order they were
  set. \<open>plain_record\<close> is the plaintext of one entry, \<open>stored\<close> says that a stretch of the
  file decrypts to a list of entries, and \<open>store_ok\<close> ties a whole file to its password and
  its log. The interface \<open>keystore\<close> states what a client of the store relies on, in terms of
  the log alone; it is interpreted on the model in the root theory.
\<close>

section \<open>Records\<close>

definition rec_len :: "nat \<Rightarrow> nat \<Rightarrow> nat" where
  "rec_len kl vl = 16 * ((5 + kl + vl + 15) div 16)"

definition raw_record :: "string \<Rightarrow> byte list \<Rightarrow> byte list" where
  "raw_record k v = of_nat (length k) # bytes k @ u32_bytes (of_nat (length v)) @ v"

definition plain_record :: "string \<Rightarrow> byte list \<Rightarrow> byte list" where
  "plain_record k v =
     raw_record k v @ replicate (rec_len (length k) (length v) - length (raw_record k v)) 0"

text \<open>Entries whose record has a length that fits in a C \<open>int\<close>.\<close>

definition in_range :: "string \<Rightarrow> byte list \<Rightarrow> bool" where
  "in_range k v \<longleftrightarrow> 20 + length k + length v < 2 ^ 31"

text \<open>The entries the format can hold: a key of 1 to 255 bytes, a record below \<open>2 ^ 31\<close> bytes.\<close>

definition valid_entry :: "string \<Rightarrow> byte list \<Rightarrow> bool" where
  "valid_entry k v \<longleftrightarrow> 0 < length k \<and> length k \<le> 255 \<and> 20 + length k + length v < 2 ^ 31"

lemma length_raw_record [simp]: "length (raw_record k v) = 5 + length k + length v"
  by (simp add: raw_record_def)

lemma rec_len_ge: "5 + kl + vl \<le> rec_len kl vl"
  by (simp add: rec_len_def)

lemma rec_len_le: "rec_len kl vl \<le> 20 + kl + vl"
  by (simp add: rec_len_def)

lemma rec_len_dvd [simp]: "16 dvd rec_len kl vl"
  by (simp add: rec_len_def)

lemma rec_len_16: "16 \<le> rec_len kl vl"
  by (simp add: rec_len_def)

lemma rec_len_mono: "rec_len kl 0 \<le> rec_len kl vl"
  by (simp add: rec_len_def div_le_mono)

lemma length_plain_record [simp]: "length (plain_record k v) = rec_len (length k) (length v)"
  using rec_len_ge [of "length k" "length v"] by (simp add: plain_record_def)

lemma plain_record_fields:
  "plain_record k v ! 0 = of_nat (length k)"
  "window (plain_record k v) 1 (length k) = bytes k"
  "window (plain_record k v) (1 + length k) 4 = u32_bytes (of_nat (length v))"
  "window (plain_record k v) (1 + length k + 4) (length v) = v"
  by (simp_all add: plain_record_def raw_record_def window_def drop_Cons')

lemma plain_record_inject:
  assumes "valid_entry k v" "valid_entry k' v'" "plain_record k v = plain_record k' v'"
  shows "k = k' \<and> v = v'"
proof -
  have "(of_nat (length k) :: byte) = of_nat (length k')"
    using assms(3) plain_record_fields(1) by metis
  then have "unat (of_nat (length k) :: byte) = unat (of_nat (length k') :: byte)" by simp
  then have kl: "length k = length k'"
    using assms(1,2) by (simp add: valid_entry_def unsigned_of_nat take_bit_nat_eq_self)
  have k: "k = k'"
    using assms(3) plain_record_fields(2) kl by (metis bytes_inject)
  have "u32_bytes (of_nat (length v)) = u32_bytes (of_nat (length v'))"
    using assms(3) plain_record_fields(3) kl by metis
  then have "(of_nat (length v) :: u32) = of_nat (length v')"
    by (metis u32_of_u32_bytes)
  then have "unat (of_nat (length v) :: u32) = unat (of_nat (length v') :: u32)" by simp
  then have vl: "length v = length v'"
    using assms(1,2) by (simp add: valid_entry_def unsigned_of_nat take_bit_nat_eq_self)
  have "v = v'"
    using assms(3) plain_record_fields(4) kl vl by metis
  with k show ?thesis by simp
qed

section \<open>Logs in a file\<close>

type_synonym entry = "string \<times> byte list"

fun stored :: "'c openssl \<Rightarrow> byte list \<Rightarrow> byte list \<Rightarrow> nat \<Rightarrow> entry list \<Rightarrow> nat \<Rightarrow> bool" where
  "stored ssl xts_key d off [] e \<longleftrightarrow> off = e"
| "stored ssl xts_key d off ((k, v) # es) e \<longleftrightarrow>
     valid_entry k v \<and>
     off + rec_len (length k) (length v) \<le> length d \<and>
     xts_unit ssl False xts_key (of_nat off) (window d off (rec_len (length k) (length v))) = Some (plain_record k v) \<and>
     stored ssl xts_key d (off + rec_len (length k) (length v)) es e"

definition lookup :: "entry list \<Rightarrow> string \<Rightarrow> byte list option" where
  "lookup es k = map_of (rev es) k"

text \<open>
  A file is a store with log \<open>es\<close> under password \<open>pw\<close>: it has the size its header says, the
  header opens under the password, and the records fill the space up to the write offset.
\<close>

definition store_key :: "'c openssl \<Rightarrow> string \<Rightarrow> byte list \<Rightarrow> byte list option" where
  "store_key ssl pw d = do { h \<leftarrow> header_of d; opened_secret ssl (Some pw) h }"

definition store_ok :: "'c openssl \<Rightarrow> string \<Rightarrow> byte list \<Rightarrow> entry list \<Rightarrow> bool" where
  "store_ok ssl pw d es \<longleftrightarrow>
     length d < 2 ^ 63 \<and>
     (\<exists>h xts_key. header_of d = Some h \<and> opened_secret ssl (Some pw) h = Some xts_key \<and>
        unat (total_size h) = length d \<and> encrypted_secret_size h = 80 \<and>
        stored ssl xts_key d PADLOCK_HEADER_SIZE es (unat (write_offset h)))"

lemma stored_bounds: "stored ssl xk d off es e \<Longrightarrow> off \<le> e \<and> (es \<noteq> [] \<longrightarrow> e \<le> length d)"
proof (induction es arbitrary: off)
  case (Cons a es)
  then show ?case by (cases a; cases es) fastforce+
qed simp

lemma stored_append:
  "stored ssl xk d off (es @ fs) e \<longleftrightarrow> (\<exists>m. stored ssl xk d off es m \<and> stored ssl xk d m fs e)"
  by (induction es arbitrary: off) auto

lemma stored_dvd: "stored ssl xk d off es e \<Longrightarrow> 16 dvd off \<Longrightarrow> 16 dvd e"
  by (induction es arbitrary: off) auto

text \<open>A log depends only on the bytes it occupies.\<close>

lemma stored_cong:
  assumes "stored ssl xk d off es e" "e \<le> length d" "length d' = length d"
    and "\<And>o' n. off \<le> o' \<Longrightarrow> o' + n \<le> e \<Longrightarrow> window d' o' n = window d o' n"
  shows "stored ssl xk d' off es e"
  using assms
proof (induction es arbitrary: off)
  case (Cons a es)
  obtain k v where a: "a = (k, v)" by (cases a)
  let ?n = "rec_len (length k) (length v)"
  have rest: "stored ssl xk d (off + ?n) es e" using Cons.prems(1) a by simp
  then have le: "off + ?n \<le> e" by (simp add: stored_bounds)
  have "stored ssl xk d' (off + ?n) es e"
    using Cons.IH [OF rest] Cons.prems by auto
  moreover have "window d' off ?n = window d off ?n"
    using Cons.prems(4) le by simp
  ultimately show ?case
    using Cons.prems(1,3) a by simp
qed simp

lemma lookup_Nil [simp]: "lookup [] = Map.empty"
  by (simp add: lookup_def fun_eq_iff)

lemma lookup_snoc: "lookup (es @ [(k, v)]) = (lookup es)(k \<mapsto> v)"
  by (simp add: lookup_def fun_eq_iff)

section \<open>Opening a store under its password\<close>

lemma store_okE:
  assumes "store_ok ssl pw d es"
  obtains h xk where "header_of d = Some h" "opened_secret ssl (Some pw) h = Some xk" "length xk = 64"
    "header_ok h" "unat (total_size h) = length d" "encrypted_secret_size h = 80" "length d < 2 ^ 63"
    "unat (write_offset h) \<le> length d" "stored ssl xk d 4096 es (unat (write_offset h))"
proof -
  obtain h xk where *: "header_of d = Some h" "opened_secret ssl (Some pw) h = Some xk"
    "unat (total_size h) = length d" "encrypted_secret_size h = 80" "length d < 2 ^ 63"
    "stored ssl xk d 4096 es (unat (write_offset h))"
    using assms by (auto simp: store_ok_def)
  note ok = header_of_ok [OF *(1)]
  show thesis
    by (rule that [OF *(1,2) opened_secret_length [OF *(2)] ok *(3-5) _ *(6)])
      (use ok *(3) in \<open>simp add: header_ok_def header_bounds_def\<close>)
qed

lemma store_ok_file: "store_ok ssl pw (file_data w path) es \<Longrightarrow> w_files w path \<noteq> None"
  by (auto simp: store_ok_def header_of_def file_data_def split: option.splits)

lemma open_store_spec:
  assumes laws: "ssl_laws ssl" and d: "header_of (file_data w path) = Some h"
    "opened_secret ssl (Some pw) h = Some xk" "encrypted_secret_size h = 80"
  obtains f r w' where "open_store ssl path mode pw w = Some ((f, r), w')" "file_frame w w'"
    "f = None \<or> (\<exists>f'. f = Some f' \<and> f_wbuf f' = [] \<and> f_path f' = path \<and> f_write f' = (mode = ''rb+''))"
    "r = None \<or> r = Some (h, xk) \<and> f \<noteq> None"
    "w_faults w = [] \<longrightarrow> r = Some (h, xk)"
proof -
  have exists: "w_files w path \<noteq> None"
    using d(1) by (auto simp: header_of_def file_data_def split: option.splits)
  obtain r w1 where op: "fopen path mode w = (r, w1)" by (metis prod.exhaust)
  note op' = fopen_spec [OF op]
  show thesis
  proof (cases r)
    case None
    with op op' exists show thesis
      by (intro that [of None None w1]) (auto simp: open_store_def)
  next
    case (Some f0)
    then have f0: "f0 = stream path (mode = ''rb+'')" using op'(2) by simp
    obtain hr f1 w2 where rd: "read_header f0 w1 = Some (hr, f1, w2)" "io_frame w1 w2"
      "f_path f1 = path" "f_write f1 = (mode = ''rb+'')" "f_wbuf f1 = []"
      "hr = None \<or> hr = Some h" "w_faults w1 = [] \<longrightarrow> hr = Some h"
      by (rule read_header_spec [of f0 w1]) (use f0 d(1) file_frame_data [OF op'(1)] in \<open>auto intro: that\<close>)
    have w2: "file_frame w w2" using op'(1) io_frame_file_frame [OF rd(2)] by (rule file_frame_trans)
    show thesis
    proof (cases hr)
      case None
      with op Some rd w2 file_frame_no_faults [OF op'(1)] show thesis
        by (intro that [of "Some f1" None w2]) (auto simp: open_store_def)
    next
      case hr: (Some h')
      have "header_shape h" using header_of_ok [OF d(1)] by (simp add: header_ok_def)
      then obtain o1 w3 where de: "decrypt_secret ssl (Some pw) h w2 = Some (o1, w3)"
        "io_frame (secret_frame 88 w2) w3" "o1 = None \<or> o1 = Some xk" "w_faults w2 = [] \<longrightarrow> o1 = Some xk"
        using decrypt_secret_spec [of ssl h "Some pw" w2] laws d(2,3) by (auto simp: ssl_laws_def)
      have "file_frame w w3"
        using w2 io_frame_file_frame [OF de(2)] by (auto intro: file_frame_trans)
      with op Some rd hr de file_frame_no_faults [OF w2] show thesis
        by (intro that [of "Some f1" "map_option (Pair h) o1" w3]) (auto simp: open_store_def)
    qed
  qed
qed

section \<open>The interface of a keystore\<close>

text \<open>
  What a client sees: \<open>entries\<close> is the log behind a state. A \<open>put\<close> of an admissible entry returns, keeps
  the invariant, and says whether the state \<open>takes\<close> the entry: then it is appended to the log, otherwise
  the log stays. \<open>get\<close> returns the last value of a key. A call with undefined behaviour is \<open>None\<close>.
  \<open>puts\<close> makes a sequence of calls and collects which of them succeeded.
\<close>

fun puts :: "(string \<Rightarrow> byte list \<Rightarrow> 's \<Rightarrow> (bool \<times> 's) option) \<Rightarrow> entry list \<Rightarrow> 's \<Rightarrow> (bool list \<times> 's) option" where
  "puts put [] s = Some ([], s)"
| "puts put ((k, v) # es) s = do { (ok, s) \<leftarrow> put k v s; (oks, s) \<leftarrow> puts put es s; Some (ok # oks, s) }"

text \<open>The entries that were accepted, by the answers to the puts.\<close>

definition accepted :: "bool list \<Rightarrow> entry list \<Rightarrow> entry list" where
  "accepted oks es = map snd (filter fst (zip oks es))"

lemma accepted_simps [simp]: "accepted [] es = []" "accepted (ok # oks) (e # es) = (if ok then [e] else []) @ accepted oks es"
  by (simp_all add: accepted_def)

locale keystore =
  fixes invar :: "'s \<Rightarrow> bool"
    and entries :: "'s \<Rightarrow> entry list"
    and admissible :: "string \<Rightarrow> byte list \<Rightarrow> bool"
    and takes :: "'s \<Rightarrow> string \<Rightarrow> byte list \<Rightarrow> bool"
    and put :: "string \<Rightarrow> byte list \<Rightarrow> 's \<Rightarrow> (bool \<times> 's) option"
    and get :: "string \<Rightarrow> 's \<Rightarrow> byte list option option"
  assumes put_step: "invar s \<Longrightarrow> admissible k v \<Longrightarrow>
      \<exists>s'. put k v s = Some (takes s k v, s') \<and> invar s' \<and> entries s' = entries s @ (if takes s k v then [(k, v)] else [])"
    and get_lookup: "invar s \<Longrightarrow> get k s = Some (lookup (entries s) k)"
begin

lemma get_put_same:
  assumes "invar s" "admissible k v" "put k v s = Some (True, s')"
  shows "get k s' = Some (Some v)"
  using put_step [OF assms(1,2)] assms(3) by (auto simp: get_lookup lookup_snoc)

lemma get_put_other:
  assumes "invar s" "admissible k v" "put k v s = Some (ok, s')" "k' \<noteq> k"
  shows "get k' s' = get k' s"
  using put_step [OF assms(1,2)] assms(1,3,4) by (auto simp: get_lookup lookup_snoc)

text \<open>
  No sequence of calls gets stuck, and the history is never rewritten: any sequence extends the log by
  what was accepted.
\<close>

lemma puts_entries:
  "invar s \<Longrightarrow> \<forall>(k, v)\<in>set es. admissible k v \<Longrightarrow>
     \<exists>oks s'. puts put es s = Some (oks, s') \<and> length oks = length es \<and> invar s' \<and> entries s' = entries s @ accepted oks es"
proof (induction es arbitrary: s)
  case (Cons e es)
  obtain k v where e: "e = (k, v)" by (cases e)
  obtain s1 where p: "put k v s = Some (takes s k v, s1)" "invar s1" "entries s1 = entries s @ (if takes s k v then [(k, v)] else [])"
    using put_step [of s k v] Cons.prems e by auto
  obtain oks s' where "puts put es s1 = Some (oks, s')" "length oks = length es" "invar s'" "entries s' = entries s1 @ accepted oks es"
    using Cons.IH [OF p(2)] Cons.prems(2) by auto
  with p e show ?case by auto
qed simp

lemma get_puts:
  assumes "invar s" "\<forall>(k, v)\<in>set es. admissible k v"
  shows "\<exists>oks s'. puts put es s = Some (oks, s') \<and> length oks = length es \<and> invar s' \<and> entries s' = entries s @ accepted oks es \<and>
    (\<forall>k. get k s' = Some (lookup (entries s @ accepted oks es) k))"
  using puts_entries [OF assms] get_lookup by metis

end

end
