(* ===== verification/Padlock_Get.thy ===== *)
theory Padlock_Get
  imports Padlock_Log
begin

text \<open>
  \<open>padlock_get\<close> on a store: it returns the last value set for a key, whatever calls fail on
  the way, and fails where the key is absent. The proof follows the three parts of one
  iteration (\<open>get_entry\<close>, \<open>get_prefix\<close>, \<open>get_body\<close>) and then the loop by induction on the log.
\<close>

section \<open>One iteration on a record\<close>

text \<open>The stream is clean and positioned on the file, whose contents are \<open>d\<close>.\<close>

definition reads :: "string \<Rightarrow> byte list \<Rightarrow> get_state \<Rightarrow> bool" where
  "reads path d s \<longleftrightarrow>
     f_wbuf (g_file s) = [] \<and> f_path (g_file s) = path \<and> file_data (g_world s) path = d \<and>
     length (g_block s) = 16"

text \<open>
  The result of a part of the iteration: no undefined behaviour, the files are unchanged, and
  if it continues then \<open>Q\<close> holds of the next state; without faults it does continue.
\<close>

definition outcome ::
  "string \<Rightarrow> byte list \<Rightarrow> get_state \<Rightarrow> (get_state \<Rightarrow> bool) \<Rightarrow> (bool \<times> get_state) option \<Rightarrow> bool" where
  "outcome path d s Q r \<longleftrightarrow>
     (case r of
        None \<Rightarrow> False
      | Some (cont, s') \<Rightarrow>
          reads path d s' \<and> file_frame (g_world s) (g_world s') \<and>
          (cont \<longrightarrow> Q s') \<and> (w_faults (g_world s) = [] \<longrightarrow> cont))"

lemma outcome_weaken:
  "outcome path d s' Q r \<Longrightarrow> file_frame (g_world s) (g_world s') \<Longrightarrow> outcome path d s Q r"
  by (auto simp: outcome_def split: option.splits intro: file_frame_trans file_frame_no_faults)

text \<open>What an iteration on the record of \<open>(k, v)\<close> leaves in \<open>found\<close>.\<close>

definition found_after :: "string \<Rightarrow> string \<Rightarrow> byte list \<Rightarrow> byte list option \<times> u32 \<Rightarrow> byte list option \<times> u32" where
  "found_after key k v f = (if k = key then (Some (v @ [0]), of_nat (length v)) else f)"

lemma unat_key_length: "valid_entry k v \<Longrightarrow> unat (of_nat (length k) :: byte) = length k"
  by (simp add: valid_entry_def unsigned_of_nat take_bit_nat_eq_self)

lemma unat_value_length: "valid_entry k v \<Longrightarrow> unat (of_nat (length v) :: u32) = length v"
  by (simp add: valid_entry_def unsigned_of_nat take_bit_nat_eq_self)

lemma unat_value_length_Suc: "valid_entry k v \<Longrightarrow> unat (of_nat (length v) + 1 :: u32) = Suc (length v)"
  by (subst unat_add_no_wrap) (simp_all add: unat_value_length, simp_all add: valid_entry_def)

lemma get_match_record:
  assumes "valid_entry k v"
  obtains m w' where
    "get_match key (of_nat (length k)) (of_nat (length v)) (plain_record k v) found fl w = Some (m, w')"
    "file_frame w w'" "m = None \<or> m = Some (found_after key k v (found, fl))"
    "w_faults w = [] \<longrightarrow> m \<noteq> None"
proof (cases "k = key")
  case False
  have "get_match key (of_nat (length k)) (of_nat (length v)) (plain_record k v) found fl w
    = Some (Some (found, fl), w)"
    using False assms plain_record_fields(2) [of k v] rec_len_ge [of "length k" "length v"]
    by (auto simp: get_match_def unat_key_length)
  then show thesis using False by (intro that) (auto simp: found_after_def)
next
  case True
  obtain r w1 where m: "malloc (Suc (length v)) w = (r, w1)" by (metis prod.exhaust)
  note m' = malloc_spec [OF m]
  note facts = unat_key_length [OF assms] unat_value_length [OF assms] unat_value_length_Suc [OF assms]
    plain_record_fields(2,4) [of k v] rec_len_ge [of "length k" "length v"]
  show thesis
  proof (cases r)
    case None
    then show thesis
      using True facts m m' by (intro that [of None w1]) (auto simp: get_match_def)
  next
    case (Some b)
    have "overlay (overlay b 0 v) (length v) [0] = v @ [0]"
      using m'(2) [OF Some] by (simp add: overlay_def)
    then have "get_match key (of_nat (length k)) (of_nat (length v)) (plain_record k v) found fl w
      = Some (Some (Some (v @ [0]), of_nat (length v)), free ''found'' found w1)"
      using True facts m m'(2) [OF Some] Some by (simp add: get_match_def)
    then show thesis
      by (rule that) (use True m'(1) in \<open>auto simp: found_after_def\<close>)
  qed
qed

lemma get_entry_record:
  assumes sizes: "xts_sizes ssl" and s: "reads path d s" and kv: "valid_entry k v"
    and n: "unat padded = rec_len (length k) (length v)"
    and off: "unat (g_offset s) < 2 ^ 63" "unat (g_offset s) + unat padded \<le> length d"
    and dec: "xts_unit ssl False xk (g_offset s) (window d (unat (g_offset s)) (unat padded)) = Some (plain_record k v)"
    and len: "length pp = unat prefix" "length ep = unat padded"
  shows "outcome path d s
     (\<lambda>s'. g_offset s' = g_offset s + padded \<and>
        (g_found s', g_found_length s') = found_after key k v (g_found s, g_found_length s))
     (get_entry ssl xk key (of_nat (length k)) (of_nat (length v)) prefix padded pc pp ec ep s)"
proof -
  have st: "f_wbuf (g_file s) = []" "f_path (g_file s) = path" "file_data (g_world s) path = d"
    "length (g_block s) = 16"
    using s by (simp_all add: reads_def)
  obtain r f1 w1 where r: "seek_read (g_file s) (g_offset s) (unat padded) (g_world s) = (r, f1, w1)"
    by (metis prod_cases3)
  note r' = seek_read_spec [OF st(1) r]
  have n31: "unat padded < 2 ^ 31"
    using n kv rec_len_le [of "length k" "length v"] by (simp add: valid_entry_def)
  have f1: "f_wbuf f1 = []" "f_path f1 = path" and d1: "file_data w1 path = d"
    using r'(2,4) st io_frame_file_data [OF r'(1)] by simp_all
  show ?thesis
  proof (cases r)
    case None
    have "w_faults (g_world s) \<noteq> []"
      using None r'(6) off st by auto
    then show ?thesis
      using None r f1 d1 st len r'(1)
      by (simp add: outcome_def get_entry_def reads_def io_frame_file_frame)
  next
    case (Some c)
    then have c: "c = window d (unat (g_offset s)) (unat padded)" "length c = unat padded"
      using r'(5) st by auto
    obtain rc out w2 where x: "crypt_xts ssl False xk (g_offset s) c ep padded w1 = Some ((rc, out), w2)"
      "io_frame w1 w2" "length out = unat padded" "rc = 0 \<or> rc = -1"
      "rc = 0 \<longrightarrow> xts_unit ssl False xk (g_offset s) c = Some out"
      "w_faults w1 = [] \<longrightarrow> xts_unit ssl False xk (g_offset s) c \<noteq> None \<longrightarrow> rc = 0"
      by (rule crypt_xts_spec [OF sizes c(2) len(2) n31]) (rule that)
    have w2: "io_frame (g_world s) w2" using r'(1) x(2) by (rule io_frame_trans)
    have d2: "file_data w2 path = d" using io_frame_file_data [OF w2] st by simp
    show ?thesis
    proof (cases "rc = 0")
      case False
      have "w_faults (g_world s) \<noteq> []"
        using False x(6) dec c(1) io_frame_no_faults [OF r'(1)] by auto
      then show ?thesis
        using False Some r x(1,3) f1 d2 st len w2
        by (simp add: outcome_def get_entry_def reads_def io_frame_file_frame)
    next
      case True
      then have out: "out = plain_record k v" using x(5) dec c(1) by simp
      obtain m w3 where m: "get_match key (of_nat (length k)) (of_nat (length v)) (plain_record k v) (g_found s)
          (g_found_length s) w2 = Some (m, w3)" "file_frame w2 w3"
        "m = None \<or> m = Some (found_after key k v (g_found s, g_found_length s))"
        "w_faults w2 = [] \<longrightarrow> m \<noteq> None"
        by (rule get_match_record [OF kv]) (rule that)
      have w3: "file_frame (g_world s) w3"
        using io_frame_file_frame [OF w2] m(2) by (rule file_frame_trans)
      have d3: "file_data w3 path = d" using file_frame_data [OF w3] st by simp
      show ?thesis
      proof (cases m)
        case None
        then have "w_faults (g_world s) \<noteq> []" using m(4) io_frame_no_faults [OF w2] by auto
        then show ?thesis
          using True None \<open>r = Some c\<close> r x(1) out m(1) f1 d3 w3 st
          by (simp add: outcome_def get_entry_def reads_def)
      next
        case (Some ff)
        then show ?thesis
          using True \<open>r = Some c\<close> r x(1,3) out m(1,3) f1 d3 w3 st len
          by (simp add: outcome_def get_entry_def reads_def split_beta)
      qed
    qed
  qed
qed

text \<open>The lengths the iteration computes from the first block and from the prefix.\<close>

lemma unat_prefix_length:
  assumes "valid_entry k v"
  shows "unat (align16 (ucast (1 + ucast (of_nat (length k) :: byte) + 4 :: u32))) = rec_len (length k) 0"
proof -
  have "unat (ucast (of_nat (length k) :: byte) :: u32) = length k"
    using unat_key_length [OF assms] by (simp add: unat_ucast_up)
  then have "unat (1 + ucast (of_nat (length k) :: byte) + 4 :: u32) = 5 + length k"
    using assms by (simp add: unat_word_ariths valid_entry_def)
  then have "unat (ucast (1 + ucast (of_nat (length k) :: byte) + 4 :: u32) :: u64) = 5 + length k"
    by (simp only: unat_ucast_up [where 'a = 32 and 'b = 64, simplified])
  with assms show ?thesis
    by (simp add: unat_align16_small rec_len_def valid_entry_def)
qed

lemma unat_padded_length:
  assumes "valid_entry k v"
  shows "unat (align16 (ucast (1 + ucast (of_nat (length k) :: byte) + 4 + of_nat (length v) :: u32)))
    = rec_len (length k) (length v)"
proof -
  have "unat (ucast (of_nat (length k) :: byte) :: u32) = length k" "unat (of_nat (length v) :: u32) = length v"
    using unat_key_length [OF assms] unat_value_length [OF assms] by (simp_all add: unat_ucast_up)
  then have "unat (1 + ucast (of_nat (length k) :: byte) + 4 + of_nat (length v) :: u32) = 5 + length k + length v"
    using assms by (simp add: unat_word_ariths valid_entry_def)
  then have "unat (ucast (1 + ucast (of_nat (length k) :: byte) + 4 + of_nat (length v) :: u32) :: u64)
      = 5 + length k + length v"
    by (simp only: unat_ucast_up [where 'a = 32 and 'b = 64, simplified])
  with assms show ?thesis
    by (simp add: unat_align16_small rec_len_def valid_entry_def)
qed

text \<open>The file holds the record of \<open>(k, v)\<close> at offset \<open>off\<close>, within the written part.\<close>

definition record_at :: "'c openssl \<Rightarrow> byte list \<Rightarrow> byte list \<Rightarrow> u64 \<Rightarrow> u64 \<Rightarrow> string \<Rightarrow> byte list \<Rightarrow> bool" where
  "record_at ssl xk d woff off k v \<longleftrightarrow>
     valid_entry k v \<and> unat off < 2 ^ 63 \<and> unat off + rec_len (length k) (length v) \<le> length d \<and>
     unat off + rec_len (length k) (length v) \<le> unat woff \<and>
     xts_unit ssl False xk off (window d (unat off) (rec_len (length k) (length v))) = Some (plain_record k v)"

lemma record_at_prefix:
  assumes "xts_blockwise ssl" "record_at ssl xk d woff off k v"
    and "16 \<le> m" "16 dvd m" "m \<le> rec_len (length k) (length v)"
  shows "xts_unit ssl False xk off (window d (unat off) m) = Some (take m (plain_record k v))"
proof -
  let ?n = "rec_len (length k) (length v)"
  have "take m (window d (unat off) ?n) = window d (unat off) m"
    using assms(5) by (rule take_window)
  moreover have "length (window d (unat off) ?n) = ?n"
    using assms(2) by (simp add: record_at_def)
  ultimately show ?thesis
    using assms unfolding xts_blockwise_def record_at_def by (metis rec_len_dvd)
qed

lemma offset_add_le:
  "record_at ssl xk d woff off k v \<Longrightarrow> unat n \<le> rec_len (length k) (length v) \<Longrightarrow> \<not> off + n > (woff :: u64)"
proof -
  assume r: "record_at ssl xk d woff off k v" and n: "unat n \<le> rec_len (length k) (length v)"
  have "unat (off + n) = unat off + unat n"
    using r n rec_len_le [of "length k" "length v"]
    by (intro unat_add_no_wrap) (simp add: record_at_def valid_entry_def)
  with r n show ?thesis by (simp add: record_at_def word_less_nat_alt)
qed

lemma get_prefix_record:
  assumes sizes: "xts_sizes ssl" and blockwise: "xts_blockwise ssl" and s: "reads path d s"
    and at: "record_at ssl xk d woff (g_offset s) k v"
    and m: "unat prefix = rec_len (length k) 0" and len: "length pp = unat prefix"
  shows "outcome path d s
     (\<lambda>s'. g_offset s' = g_offset s + of_nat (rec_len (length k) (length v)) \<and>
        (g_found s', g_found_length s') = found_after key k v (g_found s, g_found_length s))
     (get_prefix ssl xk key woff (of_nat (length k)) prefix pc pp s)"
proof -
  let ?n = "rec_len (length k) (length v)"
  have st: "f_wbuf (g_file s) = []" "f_path (g_file s) = path" "file_data (g_world s) path = d"
    "length (g_block s) = 16"
    using s by (simp_all add: reads_def)
  have kv: "valid_entry k v" and off: "unat (g_offset s) < 2 ^ 63" "unat (g_offset s) + ?n \<le> length d"
    using at by (simp_all add: record_at_def)
  have mn: "unat prefix \<le> ?n" "16 \<le> unat prefix" "16 dvd unat prefix"
    using rec_len_mono [of "length k" "length v"] rec_len_16 by (simp_all add: m)
  have m31: "unat prefix < 2 ^ 31"
    using mn kv rec_len_le [of "length k" "length v"] by (simp add: valid_entry_def)
  note dec = record_at_prefix [OF blockwise at mn(2,3,1)]
  obtain r f1 w1 where r: "seek_read (g_file s) (g_offset s) (unat prefix) (g_world s) = (r, f1, w1)"
    by (metis prod_cases3)
  note r' = seek_read_spec [OF st(1) r]
  have f1: "f_wbuf f1 = []" "f_path f1 = path" and d1: "file_data w1 path = d"
    using r'(2,4) st io_frame_file_data [OF r'(1)] by simp_all
  show ?thesis
  proof (cases r)
    case None
    have "w_faults (g_world s) \<noteq> []"
      using None r'(6) off st mn by auto
    then show ?thesis
      using None r f1 d1 st r'(1)
      by (simp add: outcome_def get_prefix_def reads_def io_frame_file_frame)
  next
    case (Some c)
    then have c: "c = window d (unat (g_offset s)) (unat prefix)" "length c = unat prefix"
      using r'(5) st by auto
    obtain rc out w2 where x: "crypt_xts ssl False xk (g_offset s) c pp prefix w1 = Some ((rc, out), w2)"
      "io_frame w1 w2" "length out = unat prefix" "rc = 0 \<or> rc = -1"
      "rc = 0 \<longrightarrow> xts_unit ssl False xk (g_offset s) c = Some out"
      "w_faults w1 = [] \<longrightarrow> xts_unit ssl False xk (g_offset s) c \<noteq> None \<longrightarrow> rc = 0"
      by (rule crypt_xts_spec [OF sizes c(2) len m31]) (rule that)
    have w2: "io_frame (g_world s) w2" using r'(1) x(2) by (rule io_frame_trans)
    have d2: "file_data w2 path = d" using io_frame_file_data [OF w2] st by simp
    show ?thesis
    proof (cases "rc = 0")
      case False
      have "w_faults (g_world s) \<noteq> []"
        using False x(6) dec c(1) io_frame_no_faults [OF r'(1)] by auto
      then show ?thesis
        using False Some r x(1) f1 d2 st w2
        by (simp add: outcome_def get_prefix_def reads_def io_frame_file_frame)
    next
      case True
      then have "out = take (unat prefix) (plain_record k v)" using x(5) dec c(1) by simp
      moreover have "1 + length k + 4 \<le> unat prefix"
        using rec_len_ge [of "length k" 0] m by simp
      ultimately have cvl: "get_u32 out (1 + length k) = Some (of_nat (length v))"
        using plain_record_fields(3) [of k v] x(3) by (simp add: field_get window_take)
      define padded where
        "padded = align16 (ucast (5 + ucast (of_nat (length k) :: byte) + of_nat (length v) :: u32))"
      have n: "unat padded = ?n" using unat_padded_length [OF kv] by (simp add: padded_def)
      then have padded: "padded = of_nat ?n" by (simp flip: n)
      have chk: "\<not> (padded < 16 \<or> g_offset s + padded > woff)"
        using offset_add_le [OF at, of padded] n rec_len_16 [of "length k" "length v"]
        by (simp add: word_less_nat_alt)
      obtain ec w3 where m1: "malloc ?n w2 = (ec, w3)" by (metis prod.exhaust)
      obtain ep w4 where m2: "malloc ?n w3 = (ep, w4)" by (metis prod.exhaust)
      note m1' = malloc_spec [OF m1] and m2' = malloc_spec [OF m2]
      have w4: "file_frame (g_world s) w4"
        using io_frame_file_frame [OF w2] m1'(1) m2'(1) by (blast intro: file_frame_trans)
      have d4: "file_data w4 path = d" using file_frame_data [OF w4] st by simp
      show ?thesis
      proof (cases "\<exists>a b. ec = Some a \<and> ep = Some b")
        case False
        have "w_faults (g_world s) \<noteq> []"
          using False m1'(1,3) m2'(3) io_frame_no_faults [OF w2] file_frame_no_faults by blast
        moreover have "get_prefix ssl xk key woff (of_nat (length k)) prefix pc pp s =
          Some (False, s\<lparr>g_file := f1, g_world :=
            free ''entry_plain'' ep (free ''entry_cipher'' ec
              (free ''prefix_plain'' (Some (replicate (unat prefix) 0)) (free ''prefix_cipher'' (Some c) w4)))\<rparr>)"
          using False True Some r x(1,3) chk n m1 m2 cvl unat_key_length [OF kv]
          by (auto simp: get_prefix_def Let_def padded_def [symmetric] split: option.splits)
        ultimately show ?thesis
          using f1 d4 st w4 by (simp add: outcome_def reads_def)
      next
        case allocated: True
        then obtain a b where ab: "ec = Some a" "ep = Some b" by blast
        let ?s = "s\<lparr>g_file := f1, g_world := w4\<rparr>"
        have run: "get_prefix ssl xk key woff (of_nat (length k)) prefix pc pp s =
          get_entry ssl xk key (of_nat (length k)) (of_nat (length v)) prefix padded c out a b ?s"
          using ab True Some r x(1,3) chk n m1 m2 cvl unat_key_length [OF kv]
          by (simp add: get_prefix_def Let_def padded_def [symmetric])
        have "reads path d ?s" using f1 d4 st by (simp add: reads_def)
        then have "outcome path d ?s
          (\<lambda>s'. g_offset s' = g_offset ?s + padded \<and>
             (g_found s', g_found_length s') = found_after key k v (g_found ?s, g_found_length ?s))
          (get_entry ssl xk key (of_nat (length k)) (of_nat (length v)) prefix padded c out a b ?s)"
          by (rule get_entry_record [OF sizes _ kv n])
            (use off n at x(3) m2'(2) [OF ab(2)] in \<open>simp_all add: record_at_def\<close>)
        then show ?thesis
          unfolding run using w4 by (auto simp: padded intro: outcome_weaken)
      qed
    qed
  qed
qed

lemma get_body_record:
  assumes sizes: "xts_sizes ssl" and blockwise: "xts_blockwise ssl" and s: "reads path d s"
    and at: "record_at ssl xk d woff (g_offset s) k v"
  shows "outcome path d s
     (\<lambda>s'. g_offset s' = g_offset s + of_nat (rec_len (length k) (length v)) \<and>
        (g_found s', g_found_length s') = found_after key k v (g_found s, g_found_length s))
     (get_body ssl xk key woff s)"
proof -
  let ?n = "rec_len (length k) (length v)"
  have st: "f_wbuf (g_file s) = []" "f_path (g_file s) = path" "file_data (g_world s) path = d"
    "length (g_block s) = unat (16 :: u64)"
    using s by (simp_all add: reads_def)
  have kv: "valid_entry k v" and off: "unat (g_offset s) < 2 ^ 63" "unat (g_offset s) + ?n \<le> length d"
    using at by (simp_all add: record_at_def)
  have n16: "16 \<le> ?n" by (rule rec_len_16)
  note dec = record_at_prefix [OF blockwise at order_refl _ n16, simplified]
  obtain r f1 w1 where r: "seek_read (g_file s) (g_offset s) 16 (g_world s) = (r, f1, w1)"
    by (metis prod_cases3)
  note r' = seek_read_spec [OF st(1) r]
  have f1: "f_wbuf f1 = []" "f_path f1 = path" and d1: "file_data w1 path = d"
    using r'(2,4) st io_frame_file_data [OF r'(1)] by simp_all
  show ?thesis
  proof (cases r)
    case None
    have "w_faults (g_world s) \<noteq> []"
      using None r'(6) off st n16 by auto
    then show ?thesis
      using None r f1 d1 st r'(1)
      by (simp add: outcome_def get_body_def reads_def io_frame_file_frame)
  next
    case (Some c)
    then have c: "c = window d (unat (g_offset s)) 16" "length c = unat (16 :: u64)"
      using r'(5) st by auto
    obtain rc out w2 where x: "crypt_xts ssl False xk (g_offset s) c (g_block s) 16 w1 = Some ((rc, out), w2)"
      "io_frame w1 w2" "length out = unat (16 :: u64)" "rc = 0 \<or> rc = -1"
      "rc = 0 \<longrightarrow> xts_unit ssl False xk (g_offset s) c = Some out"
      "w_faults w1 = [] \<longrightarrow> xts_unit ssl False xk (g_offset s) c \<noteq> None \<longrightarrow> rc = 0"
      by (rule crypt_xts_spec [OF sizes c(2) st(4)]) (simp, rule that)
    have w2: "io_frame (g_world s) w2" using r'(1) x(2) by (rule io_frame_trans)
    have d2: "file_data w2 path = d" using io_frame_file_data [OF w2] st by simp
    show ?thesis
    proof (cases "rc = 0")
      case False
      have "w_faults (g_world s) \<noteq> []"
        using False x(6) dec c(1) io_frame_no_faults [OF r'(1)] by auto
      then show ?thesis
        using False Some r x(1,3) f1 d2 st w2
        by (simp add: outcome_def get_body_def reads_def io_frame_file_frame)
    next
      case True
      then have "out = take 16 (plain_record k v)" using x(5) dec c(1) by simp
      then have ks: "out ! 0 = of_nat (length k)" "out ! 0 \<noteq> 0"
        using plain_record_fields(1) [of k v] unat_key_length [OF kv] kv
        by (auto simp: valid_entry_def)
      define prefix where "prefix = align16 (ucast (5 + ucast (of_nat (length k) :: byte) :: u32))"
      have m: "unat prefix = rec_len (length k) 0" using unat_prefix_length [OF kv] by (simp add: prefix_def)
      have chk: "\<not> g_offset s + prefix > woff"
        using offset_add_le [OF at, of prefix] m rec_len_mono [of "length k" "length v"] by simp
      obtain pc w3 where m1: "malloc (unat prefix) w2 = (pc, w3)" by (metis prod.exhaust)
      obtain pp w4 where m2: "malloc (unat prefix) w3 = (pp, w4)" by (metis prod.exhaust)
      note m1' = malloc_spec [OF m1] and m2' = malloc_spec [OF m2]
      have w4: "file_frame (g_world s) w4"
        using io_frame_file_frame [OF w2] m1'(1) m2'(1) by (blast intro: file_frame_trans)
      have d4: "file_data w4 path = d" using file_frame_data [OF w4] st by simp
      show ?thesis
      proof (cases "\<exists>a b. pc = Some a \<and> pp = Some b")
        case False
        have "w_faults (g_world s) \<noteq> []"
          using False m1'(1,3) m2'(3) io_frame_no_faults [OF w2] file_frame_no_faults by blast
        moreover have "get_body ssl xk key woff s =
          Some (False, s\<lparr>g_block := out, g_file := f1, g_world :=
            free ''prefix_plain'' pp (free ''prefix_cipher'' pc w4)\<rparr>)"
          using False True Some r x(1,3) chk m1 m2 ks
          by (auto simp: get_body_def Let_def prefix_def [symmetric] split: option.splits)
        ultimately show ?thesis
          using f1 d4 st w4 x(3) by (simp add: outcome_def reads_def)
      next
        case allocated: True
        then obtain a b where ab: "pc = Some a" "pp = Some b" by blast
        let ?s = "s\<lparr>g_block := out, g_file := f1, g_world := w4\<rparr>"
        have run: "get_body ssl xk key woff s = get_prefix ssl xk key woff (of_nat (length k)) prefix a b ?s"
          using ab True Some r x(1,3) chk m1 m2 ks
          by (simp add: get_body_def Let_def prefix_def [symmetric])
        have "reads path d ?s" using f1 d4 st x(3) by (simp add: reads_def)
        then have "outcome path d ?s
          (\<lambda>s'. g_offset s' = g_offset ?s + of_nat ?n \<and>
             (g_found s', g_found_length s') = found_after key k v (g_found ?s, g_found_length ?s))
          (get_prefix ssl xk key woff (of_nat (length k)) prefix a b ?s)"
          by (rule get_prefix_record [OF sizes blockwise _ _ m]) (use at m2'(2) [OF ab(2)] in simp_all)
        then show ?thesis
          unfolding run using w4 by (auto intro: outcome_weaken)
      qed
    qed
  qed
qed

section \<open>The loop on a log\<close>

text \<open>The value \<open>found\<close> holds after the loop has passed a log.\<close>

definition found_in :: "string \<Rightarrow> entry list \<Rightarrow> byte list option \<times> u32 \<Rightarrow> byte list option \<times> u32" where
  "found_in key es f = foldl (\<lambda>f (k, v). found_after key k v f) f es"

lemma found_in_lookup:
  "found_in key es f =
     (case lookup es key of None \<Rightarrow> f | Some v \<Rightarrow> (Some (v @ [0]), of_nat (length v)))"
proof (induction es rule: rev_induct)
  case Nil
  then show ?case by (simp add: found_in_def)
next
  case (snoc e es)
  obtain k v where "e = (k, v)" by (cases e)
  with snoc show ?case
    by (simp add: found_in_def lookup_snoc found_after_def)
qed

lemma get_loop_log:
  assumes sizes: "xts_sizes ssl" and blockwise: "xts_blockwise ssl"
    and "stored ssl xk d (unat (g_offset s)) es (unat woff)"
    and "reads path d s" "unat woff \<le> length d" "length d < 2 ^ 63"
  shows "outcome path d s
     (\<lambda>s'. (g_found s', g_found_length s') = found_in key es (g_found s, g_found_length s))
     (get_loop ssl xk key woff s)"
  using assms(3-6)
proof (induction es arbitrary: s)
  case Nil
  then have "\<not> g_offset s + 16 \<le> woff"
    by (simp add: word_le_nat_alt unat_word_ariths)
  with Nil show ?case
    by (simp add: get_loop.simps outcome_def found_in_def)
next
  case (Cons e es)
  obtain k v where e: "e = (k, v)" by (cases e)
  let ?n = "rec_len (length k) (length v)" and ?o = "unat (g_offset s)"
  have rest: "stored ssl xk d (?o + ?n) es (unat woff)" and kv: "valid_entry k v"
    and fit: "?o + ?n \<le> length d"
    and dec: "xts_unit ssl False xk (g_offset s) (window d ?o ?n) = Some (plain_record k v)"
    using Cons.prems(1) e by simp_all
  have le: "?o + ?n \<le> unat woff" using stored_bounds [OF rest] by simp
  have at: "record_at ssl xk d woff (g_offset s) k v"
    using kv fit dec le Cons.prems(4) by (simp add: record_at_def)
  have go: "g_offset s + 16 \<le> woff"
    using offset_add_le [OF at, of 16] rec_len_16 [of "length k" "length v"] by simp
  have off: "unat (g_offset s + of_nat ?n) = ?o + ?n"
    using fit Cons.prems(4) by (simp add: unat_word_ariths unsigned_of_nat take_bit_nat_eq_self)
  obtain cont s' where b: "get_body ssl xk key woff s = Some (cont, s')" "reads path d s'"
    "file_frame (g_world s) (g_world s')" "w_faults (g_world s) = [] \<longrightarrow> cont"
    "cont \<longrightarrow> g_offset s' = g_offset s + of_nat ?n \<and>
       (g_found s', g_found_length s') = found_after key k v (g_found s, g_found_length s)"
    using get_body_record [OF sizes blockwise Cons.prems(2) at, of key]
    by (auto simp: outcome_def split: option.splits)
  show ?case
  proof (cases cont)
    case False
    with b go show ?thesis by (simp add: get_loop.simps outcome_def)
  next
    case True
    with b(5) have nxt: "g_offset s' = g_offset s + of_nat ?n"
      "(g_found s', g_found_length s') = found_after key k v (g_found s, g_found_length s)" by auto
    have "outcome path d s'
      (\<lambda>s''. (g_found s'', g_found_length s'') = found_in key es (g_found s', g_found_length s'))
      (get_loop ssl xk key woff s')"
      using Cons.IH [of s'] rest off nxt(1) b(2) Cons.prems(3,4) by simp
    moreover have "get_loop ssl xk key woff s = get_loop ssl xk key woff s'"
      using go b(1) True by (simp add: get_loop.simps [of ssl xk key woff s])
    moreover have "found_in key (e # es) (g_found s, g_found_length s) = found_in key es (g_found s', g_found_length s')"
      using nxt(2) e by (simp add: found_in_def)
    ultimately show ?thesis
      using b(3) by (auto intro: outcome_weaken)
  qed
qed

section \<open>The whole call\<close>

lemma padlock_get_done_eq:
  assumes "length xts_key = 64"
  shows "padlock_get_done ok file found block xts_key result w =
    Some (ok, result, leave ''block'' block (leave ''xts_key'' (replicate 64 0)
      (free ''found'' found (case file of None \<Rightarrow> w | Some f \<Rightarrow> snd (fclose f w)))))"
  using assms by (simp add: padlock_get_done_def)

text \<open>What a call returns for a log: the last value of the key, or nothing.\<close>

definition get_answer :: "entry list \<Rightarrow> string \<Rightarrow> int \<Rightarrow> byte list option \<times> u32 \<Rightarrow> bool" where
  "get_answer es key rc result \<longleftrightarrow>
     (case lookup es key of
        None \<Rightarrow> rc = -1 \<and> result = (None, 0)
      | Some v \<Rightarrow> rc = 0 \<and> result = (Some (v @ [0]), of_nat (length v)))"

lemma padlock_get_log:
  assumes laws: "ssl_laws ssl" and store: "store_ok ssl pw (file_data w path) es"
  obtains rc result w' where
    "padlock_get ssl (Some path) (Some pw) (Some key) True w = Some (rc, result, w')" "file_frame w w'"
    "rc = -1 \<and> result = (None, 0) \<or> get_answer es key rc result"
    "w_faults w = [] \<longrightarrow> get_answer es key rc result"
proof -
  let ?d = "file_data w path"
  obtain h xk where d: "header_of ?d = Some h" "opened_secret ssl (Some pw) h = Some xk"
    "length xk = 64" "header_ok h" "unat (total_size h) = length ?d"
    "encrypted_secret_size h = 80" "length ?d < 2 ^ 63"
    "unat (write_offset h) \<le> length ?d" "stored ssl xk ?d 4096 es (unat (write_offset h))"
    by (rule store_okE [OF store]) (rule that)
  obtain f r w1 where op: "open_store ssl path ''rb'' pw w = Some ((f, r), w1)" "file_frame w w1"
    "f = None \<or> (\<exists>f'. f = Some f' \<and> f_wbuf f' = [] \<and> f_path f' = path)"
    "r = None \<or> r = Some (h, xk) \<and> f \<noteq> None" "w_faults w = [] \<longrightarrow> r = Some (h, xk)"
    by (rule open_store_spec [OF laws d(1,2,6), of "''rb''"]) auto
  have closed: "file_frame w (case f of None \<Rightarrow> w1 | Some f \<Rightarrow> snd (fclose f w1))"
    using op(2,3) fclose_clean by (auto split: option.splits intro: file_frame_trans)
  show thesis
  proof (cases r)
    case None
    have run: "padlock_get ssl (Some path) (Some pw) (Some key) True w =
        padlock_get_done (-1) f None (junk w1 16) (junk w1 64) (None, 0) w1"
      using None op(1) by (simp add: padlock_get_def split: option.splits)
    show thesis
      by (rule that [OF run [simplified padlock_get_done_eq [OF length_junk]]])
        (use None op(5) closed in simp_all)
  next
    case (Some a)
    with op(3,4) obtain f1 where o1: "r = Some (h, xk)" "f = Some f1" "f_wbuf f1 = []" "f_path f1 = path" by auto
    let ?s = "\<lparr>g_offset = 4096, g_found = None, g_found_length = 0, g_block = junk w1 16, g_file = f1, g_world = w1\<rparr>"
    have "outcome path ?d ?s
      (\<lambda>s'. (g_found s', g_found_length s') = found_in key es (None, 0)) (get_loop ssl xk key (write_offset h) ?s)"
      using get_loop_log [of ssl xk ?d ?s es "write_offset h" path key] laws d(7,8,9) o1(3,4)
        file_frame_data [OF op(2)] by (simp add: ssl_laws_def reads_def)
    then obtain c s' where l: "get_loop ssl xk key (write_offset h) ?s = Some (c, s')"
      "f_wbuf (g_file s') = []" "file_frame w1 (g_world s')" "w_faults w1 = [] \<longrightarrow> c"
      "c \<longrightarrow> (g_found s', g_found_length s') = found_in key es (None, 0)"
      by (auto simp: outcome_def reads_def split: option.splits)
    have fin: "file_frame w (snd (fclose (g_file s') (g_world s')))"
      using op(2) l(3) fclose_clean [OF l(2)] by (blast intro: file_frame_trans)
    show thesis
    proof (cases "c \<and> g_found s' \<noteq> None")
      case True
      with l(5) obtain v where "lookup es key = Some v"
        "(g_found s', g_found_length s') = (Some (v @ [0]), of_nat (length v))"
        by (auto simp: found_in_lookup split: option.splits)
      moreover have run: "padlock_get ssl (Some path) (Some pw) (Some key) True w =
        padlock_get_done 0 (Some (g_file s')) None (g_block s') xk (g_found s', g_found_length s') (g_world s')"
        using True op(1) o1(1,2) l(1) by (simp add: padlock_get_def)
      ultimately show thesis
        by (intro that [OF run [unfolded padlock_get_done_eq [OF d(3)]]]) (use fin in \<open>auto simp: get_answer_def\<close>)
    next
      case False
      have "get_answer es key (-1) (None, 0)" if "w_faults w = []"
        using that l(4,5) False file_frame_no_faults [OF op(2)]
        by (auto simp: found_in_lookup get_answer_def split: option.splits)
      moreover have run: "padlock_get ssl (Some path) (Some pw) (Some key) True w =
        padlock_get_done (-1) (Some (g_file s')) (g_found s') (g_block s') xk (None, 0) (g_world s')"
        using False op(1) o1(1,2) l(1) by (auto simp add: padlock_get_def)
      ultimately show thesis
        by (intro that [OF run [unfolded padlock_get_done_eq [OF d(3)]]]) (use fin in auto)
    qed
  qed
qed

end
