(* ===== verification/Padlock_Set.thy ===== *)
theory Padlock_Set
  imports Padlock_Log
begin

text \<open>
  \<open>padlock_set\<close> on a store: the plaintext it builds is the record of the key and the value, the
  record goes behind the log, and the header that moves the write offset goes last. So whatever
  call fails, the file is a store with the old log or with the new entry appended.
\<close>

section \<open>The plaintext of a record\<close>

lemma fill_plain_record:
  assumes "length key \<le> 255" "unat vl \<le> length val"
  shows "fill_plain (replicate (rec_len (length key) (unat vl)) 0) key val vl =
    Some (plain_record key (take (unat vl) val))"
proof -
  let ?v = "take (unat vl) val" and ?n = "rec_len (length key) (unat vl)"
  note ge = rec_len_ge [of "length key" "unat vl"]
  have vl: "u32_bytes (of_nat (length ?v)) = u32_bytes vl"
    using assms(2) by (simp add: min_absorb2)
  have "overlay (overlay (overlay (overlay (replicate ?n 0) 0 [of_nat (length key)]) 1 (bytes key))
      (1 + length key) (u32_bytes vl)) (1 + length key + 4) ?v = plain_record key ?v"
    using ge assms(2) unfolding plain_record_def raw_record_def vl
    by (simp add: overlay_def drop_Cons' min_absorb2 numeral_eq_Suc)
  then show ?thesis
    using ge assms(2) by (simp add: fill_plain_def field_put window_def)
qed

section \<open>The two writes and the close\<close>

lemma write_at_twice:
  "off + length a + length b \<le> length d \<Longrightarrow>
     write_at (write_at d off a) (off + length a) b = overlay d off (a @ b)"
  by (simp add: write_at_in) (simp add: overlay_def ac_simps)

text \<open>
  What reaches the file: \<open>m\<close> bytes of the record at the write offset, and \<open>j\<close> bytes of the new
  header at the start, none before the whole record.
\<close>

definition appended :: "byte list \<Rightarrow> nat \<Rightarrow> byte list \<Rightarrow> nat \<Rightarrow> byte list \<Rightarrow> nat \<Rightarrow> byte list" where
  "appended d off c m b j = overlay (overlay d off (take m c)) 0 (take j b)"

lemma appended_0: "off \<le> length d \<Longrightarrow> appended d off c m b 0 = overlay d off (take m c)"
  by (simp add: appended_def overlay_def)

text \<open>
  The outcome \<open>(rc, f', w')\<close> of the writes, seen after the stream is closed: the parts of the
  record and of the header that reached the file, and what the return code says about them.
\<close>

definition append_outcome ::
  "string \<Rightarrow> byte list \<Rightarrow> nat \<Rightarrow> byte list \<Rightarrow> byte list \<Rightarrow> world \<Rightarrow> int \<Rightarrow> FILE \<Rightarrow> world \<Rightarrow> bool" where
  "append_outcome path d off c b w rc f' w' \<longleftrightarrow>
     edits path w (snd (fclose f' w')) \<and> (rc = 0 \<or> rc = -1) \<and> (w_faults w = [] \<longrightarrow> rc = 0) \<and>
     (\<exists>m j. file_data (snd (fclose f' w')) path = appended d off c m b j \<and> m \<le> length c \<and>
        (j \<noteq> 0 \<longrightarrow> m = length c) \<and> (j = 0 \<or> j = 4096 \<or> j < 4096 \<and> Short j \<in> set (w_faults w)) \<and>
        (w_faults w = [] \<longrightarrow> j = 4096) \<and> (rc = -1 \<longrightarrow> j = 0 \<or> Short j \<in> set (w_faults w)))"

lemma append_outcomeI:
  assumes "edits path w (snd (fclose f' w'))" "rc = 0 \<or> rc = -1" "w_faults w = [] \<longrightarrow> rc = 0 \<and> j = 4096"
    and "file_data (snd (fclose f' w')) path = appended d off c m b j" "m \<le> length c" "j \<noteq> 0 \<longrightarrow> m = length c"
    and "j = 0 \<or> j = 4096 \<or> j < 4096 \<and> Short j \<in> set (w_faults w)"
    and "rc = -1 \<longrightarrow> j = 0 \<or> Short j \<in> set (w_faults w)"
  shows "append_outcome path d off c b w rc f' w'"
  unfolding append_outcome_def using assms by blast

lemma append_outcome_fail:
  assumes "edits path w (snd (fclose f' w'))" "w_faults w \<noteq> []" "m \<le> length c" "off \<le> length d"
    and "file_data (snd (fclose f' w')) path = overlay d off (take m c)"
  shows "append_outcome path d off c b w (-1) f' w'"
  by (rule append_outcomeI [of _ _ _ _ _ 0 _ _ _ m]) (use assms in \<open>simp_all add: appended_0\<close>)

lemma moved_trans:
  "moved w n k \<Longrightarrow> moved w k k' \<Longrightarrow> k' = 0 \<or> k' = n \<or> k' < n \<and> Short k' \<in> set (w_faults w)"
  by (auto simp: moved_def)

lemma write_header_close:
  assumes image: "header_image h = Some b" "length b = 4096"
    and f: "f_write f" "f_path f = path" "f_wbuf f = c" "f_wpos f = off"
    and d: "file_data w path = d" "w_files w path \<noteq> None" "4096 \<le> length d" "off + length c \<le> length d"
  obtains rc f' w' where "write_header f h w = Some (rc, f', w')" "append_outcome path d off c b w rc f' w'"
proof -
  obtain rc1 f1 w1 where s1: "fseeko f 0 w = (rc1, f1, w1)" by (metis prod_cases3)
  have ex: "w_files w (f_path f) \<noteq> None" using d(2) f(2) by simp
  obtain k where k: "moved w (length c) k" "edits path w w1" "file_data w1 path = write_at d off (take k c)"
    "f_path f1 = path" "f_write f1" "f_wbuf f1 = drop k c" "f_wpos f1 = off + k" "rc1 = 0 \<or> rc1 = -1"
    "rc1 = 0 \<longrightarrow> k = length c \<and> f_pos f1 = 0" "w_faults w = [] \<longrightarrow> rc1 = 0"
    by (rule fseeko_spec [OF s1 ex order_refl]) (use f d(1) in \<open>auto intro: that\<close>)
  note ex1 = edits_exists [OF k(2) d(2)]
  have kc: "k \<le> length c" using k(1) by (simp add: moved_def)
  show thesis
  proof (cases "rc1 = 0")
    case False
    obtain m where m: "moved w1 (length (drop k c)) m" "edits path w1 (snd (fclose f1 w1))"
      "file_data (snd (fclose f1 w1)) path = write_at (file_data w1 path) (off + k) (take m (drop k c))"
      by (rule fclose_spec [of w1 f1]) (use ex1 k(4,6,7) in \<open>auto intro: that\<close>)
    have mk: "m \<le> length c - k" using m(1) by (simp add: moved_def)
    have "file_data (snd (fclose f1 w1)) path = overlay d off (take (k + m) c)"
      using write_at_twice [of off "take k c" "take m (drop k c)" d] kc mk d(4)
      by (simp add: m(3) k(3) take_add min_absorb2)
    then have "append_outcome path d off c b w (-1) f1 w1"
      using kc mk d(4) False k(10) edits_trans [OF k(2) m(2)] by (intro append_outcome_fail [of _ _ _ _ "k + m"]) auto
    then show thesis
      by (intro that [of "-1" f1 w1]) (use False s1 image in \<open>simp_all add: write_header_def\<close>)
  next
    case True
    with k(9) have kk: "k = length c" "f_pos f1 = 0" by auto
    obtain k2 f2 w2 where s2: "fwrite b f1 w1 = (k2, f2, w2)" by (metis prod_cases3)
    have clean: "f_wbuf f1 = []" using k(6) kk(1) by simp
    note s2' = fwrite_spec [OF s2 k(5) clean]
    have d2: "file_data w2 path = overlay d off c" "w_files w2 path \<noteq> None"
      using io_frame_file_data [OF s2'(2)] k(3) kk(1) d(4) ex1 s2'(2) by (simp_all add: write_at_in io_frame_def)
    have f2: "f_path f2 = path" "f_wbuf f2 = take k2 b" "f_wpos f2 = 0"
      using s2'(3) k(4) kk(2) by simp_all
    obtain j where j: "moved w2 (length (take k2 b)) j" "edits path w2 (snd (fclose f2 w2))"
      "file_data (snd (fclose f2 w2)) path = write_at (overlay d off c) 0 (take j (take k2 b))"
      by (rule fclose_spec [of w2 f2]) (use d2 f2 in \<open>auto intro: that\<close>)
    have w1w: "set (w_faults w1) \<subseteq> set (w_faults w)" and w2w: "set (w_faults w2) \<subseteq> set (w_faults w)"
      using k(2) s2'(2) by (auto simp: edits_def io_frame_def)
    have mk2: "moved w 4096 k2"
      using moved_mono [OF s2'(1) w1w] image(2) by simp
    then have "length (take k2 b) = k2" using image(2) by (simp add: moved_def)
    then have mj: "moved w k2 j" using moved_mono [OF j(1) w2w] by simp
    from mk2 mj have jk: "j \<le> k2" "k2 \<le> 4096" by (auto simp: moved_def)
    have data: "file_data (snd (fclose f2 w2)) path = appended d off c (length c) b j"
      using j(3) jk image(2) d(3,4) by (simp add: write_at_in appended_def min_absorb1)
    have ed: "edits path w (snd (fclose f2 w2))"
      using k(2) file_frame_edits [OF io_frame_file_frame [OF s2'(2)]] j(2) by (blast intro: edits_trans)
    have "append_outcome path d off c b w (if k2 = 4096 then 0 else -1) f2 w2"
      by (rule append_outcomeI [OF ed _ _ data])
        (use moved_trans [OF mk2 mj] mk2 mj jk in \<open>auto simp: moved_def\<close>)
    then show thesis
      by (intro that [of _ f2 w2]) (use True s1 s2 image in \<open>simp_all add: write_header_def\<close>)
  qed
qed

lemma append_record_close:
  assumes shape: "header_shape h" and image: "header_image (h\<lparr>write_offset := write_offset h + n\<rparr>) = Some b"
    and f: "f_wbuf f = []" "f_write f" "f_path f = path"
    and d: "file_data w path = d" "w_files w path \<noteq> None" "length d < 2 ^ 63" "4096 \<le> length d"
    and c: "length c = unat n" "unat (write_offset h) + unat n \<le> length d"
  obtains rc f' w' where "append_record f h c n w = Some (rc, f', w')"
    "append_outcome path d (unat (write_offset h)) c b w rc f' w'"
proof -
  let ?o = "unat (write_offset h)"
  have b: "length b = 4096"
    using header_image_some [of "h\<lparr>write_offset := write_offset h + n\<rparr>"] shape image
    by (auto simp: header_shape_def)
  have o63: "?o < 2 ^ 63" using c d by simp
  obtain rc1 f1 w1 where s1: "fseeko f (sint (write_offset h)) w = (rc1, f1, w1)" by (metis prod_cases3)
  note s1' = fseeko_clean [OF f(1) s1]
  note e1 = file_frame_edits [OF io_frame_file_frame [OF s1'(1)], of path]
  note d1 = io_frame_file_data [OF s1'(1)]
  show thesis
  proof (cases "rc1 = 0")
    case False
    have "append_outcome path d ?o c b w (-1) f1 w1"
      by (rule append_outcome_fail [of _ _ _ _ 0])
        (use False s1'(7) o63 e1 file_frame_edits [OF fclose_clean [OF s1'(4)], of path w1] c d(1) d1
           file_frame_data [OF fclose_clean [OF s1'(4)], of w1] in
          \<open>auto simp: overlay_def sint_nonneg intro: edits_trans\<close>)
    then show thesis
      by (intro that [of "-1" f1 w1]) (use False s1 in \<open>simp_all add: append_record_def\<close>)
  next
    case True
    have pos: "f_pos f1 = ?o" using s1'(6) [OF True] o63 by (simp add: sint_eq_unat_64)
    obtain k f2 w2 where s2: "fwrite c f1 w1 = (k, f2, w2)" by (metis prod_cases3)
    have "f_write f1" using s1'(3) f(2) by simp
    note s2' = fwrite_spec [OF s2 this s1'(4)]
    have d2: "file_data w2 path = d" "w_files w2 path \<noteq> None"
      using io_frame_file_data [OF s2'(2)] s1'(1) s2'(2) d d1 by (simp_all add: io_frame_def)
    have e2: "edits path w w2"
      using e1 file_frame_edits [OF io_frame_file_frame [OF s2'(2)]] by (rule edits_trans)
    have f2: "f_path f2 = path" "f_wbuf f2 = take k c" "f_wpos f2 = ?o" "f_write f2"
      using s2'(3) pos f s1'(2,3) by simp_all
    show thesis
    proof (cases "k = unat n")
      case False
      obtain m where m: "moved w2 (length (take k c)) m" "edits path w2 (snd (fclose f2 w2))"
        "file_data (snd (fclose f2 w2)) path = write_at d ?o (take m (take k c))"
        by (rule fclose_spec [of w2 f2]) (use d2 f2 in \<open>auto intro: that\<close>)
      have "append_outcome path d ?o c b w (-1) f2 w2"
        by (rule append_outcome_fail [of _ _ _ _ m])
          (use m False s2'(1) c e2 edits_no_faults [OF e1] in
            \<open>auto simp: moved_def write_at_in min_absorb1 intro: edits_trans\<close>)
      then show thesis
        by (intro that [of "-1" f2 w2]) (use False True s1 s2 in \<open>simp_all add: append_record_def\<close>)
    next
      case whole: True
      obtain rc f3 w3 where wh: "write_header f2 (h\<lparr>write_offset := write_offset h + n\<rparr>) w2 = Some (rc, f3, w3)"
        "append_outcome path d ?o c b w2 rc f3 w3"
        by (rule write_header_close [OF image b f2(4,1) _ f2(3) d2(1,2) d(4)])
          (use f2 whole c in \<open>auto intro: that\<close>)
      have "append_outcome path d ?o c b w rc f3 w3"
        using wh(2) e2 edits_no_faults [OF e2] unfolding append_outcome_def
        by (fastforce intro: edits_trans simp: edits_def)
      then show thesis
        by (intro that [of rc f3 w3])
          (use wh whole True s1 s2 in \<open>auto simp: append_record_def append_outcome_def\<close>)
    qed
  qed
qed

section \<open>What the writes do to the store\<close>

lemma window_overlay_head:
  assumes "window b o' n = window d o' n" "o' + n \<le> length b" "length b \<le> length d"
  shows "window (overlay d 0 (take j b)) o' n = window d o' n"
proof (rule nth_equalityI)
  fix i assume "i < length (window (overlay d 0 (take j b)) o' n)"
  then have i: "i < n" by (simp add: length_window)
  then have "b ! (o' + i) = d ! (o' + i)"
    using assms(2,3) nth_window [of i n o' b] nth_window [of i n o' d] unfolding assms(1) by simp
  with i assms(2,3) show "window (overlay d 0 (take j b)) o' n ! i = window d o' n ! i"
    by (simp add: nth_window nth_overlay)
qed (use assms in \<open>simp add: length_window\<close>)

lemma window_overlay_take:
  "o' + n \<le> j \<Longrightarrow> j \<le> length b \<Longrightarrow> length b \<le> length d \<Longrightarrow> window (overlay d 0 (take j b)) o' n = window b o' n"
  by (rule nth_equalityI) (simp_all add: nth_window nth_overlay length_window)

text \<open>
  Two headers that differ in the write offset only differ in the bytes 32 to 39. Up to 32 bytes
  of the new one change nothing, 40 or more are the new header.
\<close>

lemma header_prefix:
  assumes d: "header_at d h" and b: "header_image (h\<lparr>write_offset := x\<rparr>) = Some b" "length b = 4096"
    and shape: "header_shape h" and j: "j \<le> 4096"
  shows "j \<le> 32 \<Longrightarrow> header_at (overlay d 0 (take j b)) h"
    "40 \<le> j \<Longrightarrow> header_at (overlay d 0 (take j b)) (h\<lparr>write_offset := x\<rparr>)"
proof -
  let ?d = "overlay d 0 (take j b)"
  have "header_shape (h\<lparr>write_offset := x\<rparr>)" using shape by (simp add: header_shape_def)
  note B = header_image_fields [OF this b(1)]
  have len: "length b \<le> length d" "4096 \<le> length d" using d b(2) by (simp_all add: header_at_def)
  have same: "window ?d o' n = window d o' n" if "window b o' n = window d o' n" "o' + n \<le> 4096" for o' n
    by (rule window_overlay_head [OF that(1)]) (use that len b(2) in auto)
  have rest: "window ?d 0 7 = bytes ''PADLOCK''" "window ?d 8 4 = u32_bytes 1"
    "window ?d 24 8 = u64_bytes (total_size h)" "window ?d 40 16 = salt h" "window ?d 56 16 = iv h"
    "window ?d 72 4 = u32_bytes (encrypted_secret_size h)" "window ?d 76 128 = encrypted_secret h"
    using d B by (simp_all add: same header_at_def)
  have l: "4096 \<le> length ?d" using len b(2) by simp
  show "header_at ?d h" if "j \<le> 32"
    using rest l d that b(2) len by (simp add: header_at_def window_overlay_after)
  show "header_at ?d (h\<lparr>write_offset := x\<rparr>)" if "40 \<le> j"
    using rest l that j b(2) len B(5) by (simp add: header_at_def window_overlay_take)
qed

lemma opened_secret_write_offset [simp]: "opened_secret ssl pw (h\<lparr>write_offset := x\<rparr>) = opened_secret ssl pw h"
  by (simp add: opened_secret_def)

lemma appended_store:
  assumes laws: "xts_inverse ssl" and store: "header_of d = Some h" "opened_secret ssl (Some pw) h = Some xk"
    "unat (total_size h) = length d" "encrypted_secret_size h = 80" "length d < 2 ^ 63"
    "stored ssl xk d 4096 es (unat (write_offset h))"
    and kv: "valid_entry k v" and n: "unat n = rec_len (length k) (length v)"
    and fits: "unat (write_offset h) + unat n \<le> length d"
    and c: "xts_unit ssl True xk (write_offset h) (plain_record k v) = Some c" "length c = unat n"
    and b: "header_image (h\<lparr>write_offset := write_offset h + n\<rparr>) = Some b"
    and mj: "m \<le> length c" "j \<le> 4096" "j \<le> 32 \<or> 40 \<le> j \<and> m = length c"
  shows "store_ok ssl pw (appended d (unat (write_offset h)) c m b j) (if j \<le> 32 then es else es @ [(k, v)])"
proof -
  let ?o = "unat (write_offset h)"
  let ?d1 = "overlay d ?o (take m c)" and ?h = "h\<lparr>write_offset := write_offset h + n\<rparr>"
  let ?d = "appended d ?o c m b j"
  have h: "header_at d h" "header_bounds h" using store(1) by (simp_all add: header_of_iff)
  have shape: "header_shape h" using header_of_ok [OF store(1)] by (simp add: header_ok_def)
  have b4: "length b = 4096"
    using header_image_some [of ?h] shape b by (auto simp: header_shape_def)
  have len: "4096 \<le> ?o" "length ?d1 = length d" "length (take m c) = m"
    using h(2) fits mj(1) c(2) by (simp_all add: header_bounds_def)
  have h1: "header_at ?d1 h"
    using h(1) len fits mj(1) c(2) by (simp add: header_at_def window_overlay_before)
  have d4: "4096 \<le> length d" using h(1) by (simp add: header_at_def)
  have lenD: "length ?d = length d" using len b4 d4 by (simp add: appended_def)
  have win: "window ?d o' i = window d o' i" if "4096 \<le> o'" "o' + i \<le> ?o" for o' i
    using that len b4 d4 fits mj c(2) by (simp add: appended_def window_overlay_before window_overlay_after)
  have old: "stored ssl xk ?d 4096 es ?o"
    using store(6) by (rule stored_cong) (use fits lenD win in auto)
  have woff: "unat (write_offset h + n) = ?o + unat n"
    using fits store(5) by (intro unat_add_no_wrap) simp
  show ?thesis
  proof (cases "j \<le> 32")
    case True
    then have "header_of ?d = Some h"
      using header_prefix(1) [OF h1 b b4 shape mj(2)] h(2) by (simp add: header_of_iff appended_def)
    with True store old lenD show ?thesis by (auto simp: store_ok_def)
  next
    case False
    then have j: "40 \<le> j" "m = length c" using mj(3) by auto
    have hb: "header_bounds ?h" using h(2) fits store(3) woff by (simp add: header_bounds_def)
    have H: "header_of ?d = Some ?h"
      using header_prefix(2) [OF h1 b b4 shape mj(2) j(1)] hb by (simp add: header_of_iff appended_def)
    have "window ?d ?o (unat n) = c"
      using j len b4 d4 fits c(2) by (simp add: appended_def window_overlay_after window_overlay_same)
    moreover have "xts_unit ssl False xk (write_offset h) c = Some (plain_record k v)"
      using laws c(1) rec_len_16 [of "length k" "length v"] unfolding xts_inverse_def by auto
    ultimately have "stored ssl xk ?d 4096 (es @ [(k, v)]) (?o + unat n)"
      using old kv n fits lenD by (auto simp: stored_append)
    then show ?thesis
      using False H store lenD woff unfolding store_ok_def by (auto intro!: exI [of _ ?h] exI [of _ xk])
  qed
qed

section \<open>The whole call\<close>

lemma padlock_set_done_eq:
  assumes "length xts_key = 64" "\<And>p. plain = Some p \<Longrightarrow> length p = unat n"
  shows "padlock_set_done ok file plain n cipher xts_key w =
    Some (ok, leave ''xts_key'' (replicate 64 0) (free ''cipher'' cipher
      (free ''plain'' (map_option (\<lambda>_. replicate (unat n) 0) plain)
        (case file of None \<Rightarrow> w | Some f \<Rightarrow> snd (fclose f w)))))"
  using assms by (cases plain) (auto simp: padlock_set_done_def)

lemma unat_set_length:
  assumes "valid_entry key (take (unat vl) val)" "unat vl \<le> length val"
  shows "unat (align16 (1 + of_nat (length key) + 4 + ucast (vl :: u32))) = rec_len (length key) (unat vl)"
proof -
  have "unat (ucast vl :: u64) = unat vl" by (simp add: unat_ucast_up)
  moreover define x :: u64 where "x = 1 + of_nat (length key) + 4 + ucast vl"
  ultimately have "unat x = 5 + length key + unat vl"
    using assms by (simp add: unat_word_ariths valid_entry_def min_absorb2 unsigned_of_nat take_bit_nat_eq_self)
  with assms show ?thesis
    unfolding x_def [symmetric] by (simp add: unat_align16_small rec_len_def valid_entry_def min_absorb2)
qed

text \<open>A store takes an entry when there is room behind the log and the cipher accepts the record.\<close>

definition accepts :: "'c openssl \<Rightarrow> string \<Rightarrow> byte list \<Rightarrow> string \<Rightarrow> byte list \<Rightarrow> bool" where
  "accepts ssl pw d k v =
     (case header_of d of
        None \<Rightarrow> False
      | Some h \<Rightarrow>
          (case opened_secret ssl (Some pw) h of
             None \<Rightarrow> False
           | Some xts_key \<Rightarrow>
               unat (write_offset h) + rec_len (length k) (length v) \<le> unat (total_size h) \<and>
               xts_unit ssl True xts_key (write_offset h) (plain_record k v) \<noteq> None))"

text \<open>The result of a call, with the log before it and the entry it was given.\<close>

definition set_outcome ::
  "'c openssl \<Rightarrow> string \<Rightarrow> string \<Rightarrow> entry list \<Rightarrow> string \<Rightarrow> byte list \<Rightarrow> world \<Rightarrow> int \<Rightarrow> world \<Rightarrow> bool" where
  "set_outcome ssl path pw es k v w rc w' \<longleftrightarrow>
     edits path w w' \<and> (rc = 0 \<or> rc = -1) \<and>
     (store_ok ssl pw (file_data w' path) es \<or> store_ok ssl pw (file_data w' path) (es @ [(k, v)])) \<and>
     (rc = -1 \<longrightarrow> (\<forall>j. Short j \<notin> set (w_faults w)) \<longrightarrow> store_ok ssl pw (file_data w' path) es) \<and>
     (w_faults w = [] \<longrightarrow>
        (if accepts ssl pw (file_data w path) k v then rc = 0 \<and> store_ok ssl pw (file_data w' path) (es @ [(k, v)])
         else rc = -1 \<and> file_data w' path = file_data w path))"

lemma set_outcome_unchanged:
  assumes "store_ok ssl pw (file_data w path) es" "file_frame w w'"
    and "w_faults w = [] \<Longrightarrow> \<not> accepts ssl pw (file_data w path) k v"
  shows "set_outcome ssl path pw es k v w (-1) w'"
  using assms file_frame_data [OF assms(2)] file_frame_edits [OF assms(2)]
  by (simp add: set_outcome_def)

text \<open>The plaintext is encrypted, and the record and the header are written.\<close>

lemma append_store:
  assumes laws: "xts_inverse ssl" and store: "header_of d = Some h" "opened_secret ssl (Some pw) h = Some xk"
    "unat (total_size h) = length d" "encrypted_secret_size h = 80" "length d < 2 ^ 63"
    "stored ssl xk d 4096 es (unat (write_offset h))"
    and kv: "valid_entry k v" and n: "unat n = rec_len (length k) (length v)"
    and fits: "unat (write_offset h) + unat n \<le> length d"
    and c: "xts_unit ssl True xk (write_offset h) (plain_record k v) = Some c" "length c = unat n"
    and f: "f_wbuf f = []" "f_write f" "f_path f = path" and w: "file_frame w0 w" "file_data w0 path = d"
    and torn: "\<forall>j. 32 < j \<and> j < 40 \<longrightarrow> Short j \<notin> set (w_faults w0)"
  obtains rc f' w' where "append_record f h c n w = Some (rc, f', w')"
    "set_outcome ssl path pw es k v w0 rc (snd (fclose f' w'))"
proof -
  have shape: "header_shape h" using header_of_ok [OF store(1)] by (simp add: header_ok_def)
  then obtain b where b: "header_image (h\<lparr>write_offset := write_offset h + n\<rparr>) = Some b"
    using header_image_some [of "h\<lparr>write_offset := write_offset h + n\<rparr>"] by (auto simp: header_shape_def)
  have d4: "4096 \<le> length d" using store(1) by (auto simp: header_of_def split: if_splits)
  have d: "file_data w path = d" "w_files w path \<noteq> None"
    using w d4 file_frame_data [OF w(1)] by (auto simp: file_frame_def file_data_def split: option.splits)
  obtain rc f' w' where run: "append_record f h c n w = Some (rc, f', w')"
    and out: "append_outcome path d (unat (write_offset h)) c b w rc f' w'"
    by (rule append_record_close [OF shape b f d store(5) d4 c(2) fits]) (rule that)
  let ?w = "snd (fclose f' w')"
  obtain m j where mj: "file_data ?w path = appended d (unat (write_offset h)) c m b j" "m \<le> length c"
    "j \<noteq> 0 \<longrightarrow> m = length c" "j = 0 \<or> j = 4096 \<or> j < 4096 \<and> Short j \<in> set (w_faults w)"
    "w_faults w = [] \<longrightarrow> j = 4096" "rc = -1 \<longrightarrow> j = 0 \<or> Short j \<in> set (w_faults w)"
    "edits path w ?w" "rc = 0 \<or> rc = -1" "w_faults w = [] \<longrightarrow> rc = 0"
    using out unfolding append_outcome_def by blast
  have sub: "set (w_faults w) \<subseteq> set (w_faults w0)" using w(1) by (simp add: file_frame_def)
  have "\<not> (32 < j \<and> j < 40)" using mj(4) torn sub by auto
  then have j: "j \<le> 4096" "j \<le> 32 \<or> 40 \<le> j \<and> m = length c"
    using mj(3,4) by auto
  have S: "store_ok ssl pw (file_data ?w path) (if j \<le> 32 then es else es @ [(k, v)])"
    unfolding mj(1) by (rule appended_store [OF laws store kv n fits c b mj(2) j])
  have acc: "accepts ssl pw d k v"
    using store(1-3) fits n c(1) by (simp add: accepts_def)
  have "set_outcome ssl path pw es k v w0 rc ?w"
    unfolding set_outcome_def w(2)
    using S acc edits_trans [OF file_frame_edits [OF w(1)] mj(7)] mj(5,6,8,9) file_frame_no_faults [OF w(1)] sub
    by (auto split: if_splits)
  with run show thesis by (rule that)
qed

lemma set_finish:
  assumes "run = padlock_set_done rc f plain n cipher xk w'" "length xk = 64"
    and "\<forall>p. plain = Some p \<longrightarrow> length p = unat n"
    and "set_outcome ssl path pw es k v w rc (case f of None \<Rightarrow> w' | Some f \<Rightarrow> snd (fclose f w'))"
  shows "\<exists>rc w'. run = Some (rc, w') \<and> set_outcome ssl path pw es k v w rc w'"
  using assms by (simp add: padlock_set_done_eq set_outcome_def)

lemma set_finish_unchanged:
  assumes "run = padlock_set_done (-1) f plain n cipher xk w'" "length xk = 64"
    and "\<forall>p. plain = Some p \<longrightarrow> length p = unat n"
    and "store_ok ssl pw (file_data w path) es" "file_frame w w'" "\<forall>f'. f = Some f' \<longrightarrow> f_wbuf f' = []"
    and "w_faults w = [] \<Longrightarrow> \<not> accepts ssl pw (file_data w path) k v"
  shows "\<exists>rc w'. run = Some (rc, w') \<and> set_outcome ssl path pw es k v w rc w'"
proof (rule set_finish [OF assms(1-3)])
  have "file_frame w (case f of None \<Rightarrow> w' | Some f \<Rightarrow> snd (fclose f w'))"
    using assms(5,6) fclose_clean by (auto split: option.splits intro: file_frame_trans)
  with assms(4,7) show "set_outcome ssl path pw es k v w (-1) (case f of None \<Rightarrow> w' | Some f \<Rightarrow> snd (fclose f w'))"
    by (intro set_outcome_unchanged)
qed

text \<open>The call on an opened store, from the length computation on.\<close>

lemma set_opened:
  assumes laws: "ssl_laws ssl" and store: "store_ok ssl pw (file_data w path) es"
    and d: "header_of (file_data w path) = Some h" "opened_secret ssl (Some pw) h = Some xk"
    "length xk = 64" "unat (total_size h) = length (file_data w path)"
    "encrypted_secret_size h = 80" "length (file_data w path) < 2 ^ 63"
    "stored ssl xk (file_data w path) 4096 es (unat (write_offset h))"
    and kv: "valid_entry key v" and v: "unat vl \<le> length val" "v = take (unat vl) val"
    and torn: "\<forall>j. 32 < j \<and> j < 40 \<longrightarrow> Short j \<notin> set (w_faults w)"
    and op: "open_store ssl path ''rb+'' pw w = Some ((Some f, Some (h, xk)), w1)" "file_frame w w1"
    and f: "f_wbuf f = []" "f_write f" "f_path f = path"
  shows "\<exists>rc w'. padlock_set ssl (Some path) (Some pw) (Some key) (Some val) vl w = Some (rc, w') \<and>
    set_outcome ssl path pw es key v w rc w'" (is "\<exists>rc w'. ?run = Some (rc, w') \<and> _")
proof -
  let ?d = "file_data w path"
  have key: "length key \<le> 255" "\<not> 255 < length key" "key \<noteq> ''''" using kv by (auto simp: valid_entry_def)
  define n where "n = align16 (5 + of_nat (length key) + ucast vl)"
  have vl: "length v = unat vl" using v by simp
  have n: "unat n = rec_len (length key) (length v)"
    using unat_set_length [of key vl val] kv v by (simp add: n_def)
  have n16: "\<not> n < 16" and n31: "unat n < 2 ^ 31"
    using n rec_len_16 [of "length key" "length v"] rec_len_le [of "length key" "length v"] kv
    by (simp_all add: word_less_nat_alt valid_entry_def)
  have wrap: "unat (write_offset h + n) = unat (write_offset h) + unat n"
    using n31 stored_bounds [OF d(7)] header_of_ok [OF d(1)] d(4,6)
    by (intro unat_add_no_wrap) (simp add: header_ok_def header_bounds_def)
  show ?thesis
  proof (cases "write_offset h + n > total_size h")
    case True
    then have "\<not> accepts ssl pw ?d key v"
      using d(1,2) n wrap by (simp add: accepts_def word_less_nat_alt)
    moreover have "?run = padlock_set_done (-1) (Some f) None 0 None xk w1"
      using True op(1) key by (simp add: padlock_set_def Let_def n_def)
    ultimately show ?thesis
      by (intro set_finish_unchanged [OF _ d(3) _ store op(2)]) (use f in auto)
  next
    case False
    then have fits: "unat (write_offset h) + unat n \<le> length ?d"
      using wrap d(4) by (simp add: word_less_nat_alt)
    obtain p0 w2 where a1: "calloc (unat n) w1 = (p0, w2)" by (metis prod.exhaust)
    obtain c0 w3 where a2: "malloc (unat n) w2 = (c0, w3)" by (metis prod.exhaust)
    note a1' = calloc_spec [OF a1] and a2' = malloc_spec [OF a2]
    have w3: "file_frame w w3" using op(2) a1'(1) a2'(1) by (blast intro: file_frame_trans)
    show ?thesis
    proof (cases "\<exists>p c. p0 = Some p \<and> c0 = Some c")
      case unallocated: False
      have "w_faults w \<noteq> []"
        using unallocated a1'(1,3) a2'(3) file_frame_no_faults [OF op(2)] file_frame_no_faults by blast
      moreover have "?run = padlock_set_done (-1) (Some f) p0 n c0 xk w3"
        using unallocated False op(1) key n16 a1 a2
        by (auto simp: padlock_set_def Let_def n_def [symmetric] split: option.splits)
      ultimately show ?thesis
        by (intro set_finish_unchanged [OF _ d(3) _ store w3]) (use f a1'(2) in auto)
    next
      case True
      then obtain c where pc: "p0 = Some (replicate (unat n) 0)" "c0 = Some c" "length c = unat n"
        using a1'(2) a2'(2) by auto
      have fp: "fill_plain (replicate (unat n) 0) key val vl = Some (plain_record key v)"
        using fill_plain_record [OF key(1) v(1)] n vl v(2) by simp
      have pl: "length (plain_record key v) = unat n" using n by simp
      have sizes: "xts_sizes ssl" using laws by (simp add: ssl_laws_def)
      obtain rc out w4 where x: "crypt_xts ssl True xk (write_offset h) (plain_record key v) c n w3 = Some ((rc, out), w4)"
        "io_frame w3 w4" "length out = unat n" "rc = 0 \<or> rc = -1"
        "rc = 0 \<longrightarrow> xts_unit ssl True xk (write_offset h) (plain_record key v) = Some out"
        "w_faults w3 = [] \<longrightarrow> xts_unit ssl True xk (write_offset h) (plain_record key v) \<noteq> None \<longrightarrow> rc = 0"
        by (rule crypt_xts_spec [OF sizes pl pc(3) n31]) (rule that)
      have w4: "file_frame w w4" using w3 io_frame_file_frame [OF x(2)] by (rule file_frame_trans)
      show ?thesis
      proof (cases "rc = 0")
        case failed: False
        then have "\<not> accepts ssl pw ?d key v" if "w_faults w = []"
          using that d(1,2) x(6) file_frame_no_faults [OF w3] by (simp add: accepts_def)
        moreover have "?run = padlock_set_done (-1) (Some f) (Some (plain_record key v)) n (Some out) xk w4"
          using failed False op(1) key n16 a1 a2 pc fp x(1)
          by (simp add: padlock_set_def Let_def n_def [symmetric])
        ultimately show ?thesis
          by (intro set_finish_unchanged [OF _ d(3) _ store w4]) (use f pl in auto)
      next
        case encrypted: True
        have inv: "xts_inverse ssl" using laws by (simp add: ssl_laws_def)
        obtain rc' f' w5 where ap: "append_record f h out n w4 = Some (rc', f', w5)"
          "set_outcome ssl path pw es key v w rc' (snd (fclose f' w5))"
          by (rule append_store [OF inv d(1,2,4,5,6,7) kv n fits _ x(3) f w4 refl torn])
            (use x(5) encrypted in \<open>auto intro: that\<close>)
        have "?run = padlock_set_done rc' (Some f') (Some (plain_record key v)) n (Some out) xk w5"
          using encrypted False op(1) key n16 a1 a2 pc fp x(1) ap(1)
          by (simp add: padlock_set_def Let_def n_def [symmetric])
        then show ?thesis
          by (rule set_finish [OF _ d(3)]) (use ap(2) pl in auto)
      qed
    qed
  qed
qed

lemma padlock_set_log:
  assumes laws: "ssl_laws ssl" and store: "store_ok ssl pw (file_data w path) es"
    and kv: "valid_entry key v" and v: "unat vl \<le> length val" "v = take (unat vl) val"
    and torn: "\<forall>j. 32 < j \<and> j < 40 \<longrightarrow> Short j \<notin> set (w_faults w)"
  shows "\<exists>rc w'. padlock_set ssl (Some path) (Some pw) (Some key) (Some val) vl w = Some (rc, w') \<and>
    set_outcome ssl path pw es key v w rc w'"
proof -
  obtain h xk where d: "header_of (file_data w path) = Some h" "opened_secret ssl (Some pw) h = Some xk"
    "length xk = 64" "unat (total_size h) = length (file_data w path)"
    "encrypted_secret_size h = 80" "length (file_data w path) < 2 ^ 63"
    "stored ssl xk (file_data w path) 4096 es (unat (write_offset h))"
    by (rule store_okE [OF store]) (rule that)
  obtain f r w1 where op: "open_store ssl path ''rb+'' pw w = Some ((f, r), w1)" "file_frame w w1"
    "f = None \<or> (\<exists>f'. f = Some f' \<and> f_wbuf f' = [] \<and> f_path f' = path \<and> f_write f')"
    "r = None \<or> r = Some (h, xk) \<and> f \<noteq> None" "w_faults w = [] \<longrightarrow> r = Some (h, xk)"
    by (rule open_store_spec [OF laws d(1,2,5), of "''rb+''"]) auto
  show ?thesis
  proof (cases r)
    case None
    have key: "\<not> 255 < length key" "key \<noteq> ''''" using kv by (auto simp: valid_entry_def)
    then have "padlock_set ssl (Some path) (Some pw) (Some key) (Some val) vl w =
        padlock_set_done (-1) f None 0 None (junk w1 64) w1"
      using None op(1) by (simp add: padlock_set_def split: option.splits)
    then show ?thesis
      by (rule set_finish_unchanged [OF _ length_junk _ store op(2)]) (use None op(3,5) in auto)
  next
    case (Some a)
    with op(3,4) obtain f' where "r = Some (h, xk)" "f = Some f'" "f_wbuf f' = []" "f_write f'" "f_path f' = path" by auto
    with op(1) show ?thesis
      by (intro set_opened [OF laws store d kv v torn _ op(2)]) simp_all
  qed
qed

end
