(* ===== verification/Padlock_Allocate.thy ===== *)
theory Padlock_Allocate
  imports Padlock_Log
begin

text \<open>
  \<open>padlock_allocate\<close>: the file is filled with random bytes under a temporary name, gets its
  header, and is renamed. Whatever call fails, the path holds either what it held before or a
  complete store with an empty log, and no other existing file is touched.
\<close>

section \<open>Filling the file with random bytes\<close>

text \<open>The next \<open>n\<close> bytes of the random source.\<close>

definition random_bytes :: "world \<Rightarrow> nat \<Rightarrow> byte list" where
  "random_bytes w n = map (\<lambda>i. w_rand w (w_rpos w + i)) [0..<n]"

lemma length_random_bytes [simp]: "length (random_bytes w n) = n"
  by (simp add: random_bytes_def)

text \<open>\<open>k\<close> random bytes have been used and no file has changed.\<close>

definition drew :: "nat \<Rightarrow> world \<Rightarrow> world \<Rightarrow> bool" where
  "drew k w w' \<longleftrightarrow> file_frame w w' \<and> w_rand w' = w_rand w \<and> w_rpos w' = w_rpos w + k"

lemma random_bytes_add:
  "drew k w w' \<Longrightarrow> random_bytes w (k + n) = random_bytes w k @ random_bytes w' n"
  by (rule nth_equalityI) (auto simp: random_bytes_def drew_def nth_append add.assoc)

lemma drew_trans: "drew k w w' \<Longrightarrow> drew n w' w'' \<Longrightarrow> drew (k + n) w w''"
  by (auto simp: drew_def intro: file_frame_trans)

lemma io_frame_drew: "io_frame w w' \<Longrightarrow> drew 0 w w'"
  by (simp add: drew_def io_frame_file_frame) (simp add: io_frame_def)

lemma drew_file_frame: "drew k w w' \<Longrightarrow> file_frame w w'"
  by (simp add: drew_def)

lemma draw_drew: "draw k w = (b, w') \<Longrightarrow> b = random_bytes w k \<and> drew k w w'"
  by (auto simp: draw_def random_bytes_def drew_def file_frame_def)

lemma drew_0_random: "drew 0 w w' \<Longrightarrow> random_bytes w' n = random_bytes w n"
  by (simp add: drew_def random_bytes_def)

lemma poll_draw:
  assumes "poll w = (q, w1)" "draw k w1 = (b, w')"
  shows "b = random_bytes w k" "drew k w w'"
  using draw_drew [OF assms(2)] io_frame_drew [OF poll_frame [OF assms(1)]] drew_trans [of 0 w w1 k w']
  by (simp_all add: drew_0_random)

lemma read_urandom_spec:
  assumes "read_urandom n w = (r, w')"
  shows "r = None \<Longrightarrow> drew 0 w w' \<and> w_faults w \<noteq> []"
    "r = Some b \<Longrightarrow> random_bytes w (length b) = b \<and> drew (length b) w w' \<and> length b \<le> n \<and> (w_faults w = [] \<longrightarrow> length b = n)"
proof -
  obtain q w1 where q: "poll w = (q, w1)" by (metis prod.exhaust)
  note fr = poll_frame [OF q]
  have nf: "w_faults w = [] \<Longrightarrow> q = Pass" using q by simp
  show "drew 0 w w' \<and> w_faults w \<noteq> []" if "r = None"
    using assms that q fr nf
    by (auto simp: read_urandom_def split: fault.splits prod.splits intro!: io_frame_drew intro: io_frame_trans)
  show "random_bytes w (length b) = b \<and> drew (length b) w w' \<and> length b \<le> n \<and> (w_faults w = [] \<longrightarrow> length b = n)"
    if "r = Some b"
  proof (cases q)
    case Pass
    with assms that q have "draw n w1 = (b, w')" by (auto simp: read_urandom_def split: prod.splits)
    note poll_draw [OF q this]
    then show ?thesis by simp
  next
    case (Short k)
    with assms that q have "draw (min k n) w1 = (b, w')" by (auto simp: read_urandom_def split: prod.splits)
    note poll_draw [OF q this]
    then show ?thesis using nf Short by auto
  qed (use assms that q in \<open>simp add: read_urandom_def\<close>)
qed

lemma read_loop_spec:
  assumes "rt \<le> amount" "amount \<le> length buffer"
  shows "\<exists>ok b w'. read_loop buffer rt amount w = Some (ok, b, w') \<and> length b = length buffer \<and>
     file_frame w w' \<and> (w_faults w = [] \<longrightarrow> ok) \<and>
     (ok \<longrightarrow> drew (amount - rt) w w' \<and> take amount b = take rt buffer @ random_bytes w (amount - rt))"
  using assms
proof (induction buffer rt amount w rule: read_loop.induct)
  case (1 buffer rt amount w)
  show ?case
  proof (cases "rt < amount")
    case False
    with "1.prems" show ?thesis
      by (auto simp: read_loop.simps [of buffer] drew_def random_bytes_def)
  next
    case True
    obtain r w1 where r: "read_urandom (amount - rt) w = (r, w1)" by (metis prod.exhaust)
    note r' = read_urandom_spec [OF r]
    show ?thesis
    proof (cases r)
      case None
      note d = r'(1) [OF None]
      show ?thesis
      proof (cases "w_errno w1 = EINTR")
        case True
        obtain ok b w' where ih: "read_loop buffer rt amount w1 = Some (ok, b, w')" "length b = length buffer"
          "file_frame w1 w'" "ok \<longrightarrow> drew (amount - rt) w1 w' \<and> take amount b = take rt buffer @ random_bytes w1 (amount - rt)"
          using "1.IH"(1) [OF \<open>rt < amount\<close> r [symmetric] None True "1.prems"] by auto
        then show ?thesis
          using True None r d \<open>rt < amount\<close> drew_trans [of 0 w w1 "amount - rt" w'] drew_0_random [of w w1]
          by (auto simp: read_loop.simps [of buffer] dest: drew_file_frame intro: file_frame_trans)
      next
        case False
        then show ?thesis
          using None r d True by (auto simp: read_loop.simps [of buffer] dest: drew_file_frame)
      qed
    next
      case (Some c)
      note d = r'(2) [OF Some]
      show ?thesis
      proof (cases "c = []")
        case empty: True
        then show ?thesis
          using Some r d True by (auto simp: read_loop.simps [of buffer] drew_def file_frame_def)
      next
        case False
        have le: "rt + length c \<le> amount" using d True by linarith
        then have bw: "buf_write buffer rt c = Some (overlay buffer rt c)" and len: "length (overlay buffer rt c) = length buffer"
          using "1.prems" by simp_all
        obtain ok b w' where ih: "read_loop (overlay buffer rt c) (rt + length c) amount w1 = Some (ok, b, w')"
          "length b = length buffer" "file_frame w1 w'" "w_faults w1 = [] \<longrightarrow> ok"
          "ok \<longrightarrow> drew (amount - (rt + length c)) w1 w' \<and>
             take amount b = take (rt + length c) (overlay buffer rt c) @ random_bytes w1 (amount - (rt + length c))"
          using "1.IH"(2) [OF True r [symmetric] Some False bw le] "1.prems"(2) unfolding len by blast
        have "take (rt + length c) (overlay buffer rt c) = take rt buffer @ c"
          using le "1.prems" by (simp add: overlay_def)
        moreover have "random_bytes w (amount - rt) = c @ random_bytes w1 (amount - (rt + length c))"
          using random_bytes_add [of "length c" w w1 "amount - (rt + length c)"] d le by simp
        moreover have "drew (amount - rt) w w'" if "drew (amount - (rt + length c)) w1 w'"
          using drew_trans [of "length c" w w1 "amount - (rt + length c)" w'] d that le by simp
        moreover have "read_loop buffer rt amount w = Some (ok, b, w')"
          using True r Some False bw ih(1) by (simp add: read_loop.simps [of buffer])
        ultimately show ?thesis
          using ih(2-5) d file_frame_no_faults [of w w1]
          by (auto dest!: drew_file_frame intro: file_frame_trans)
      qed
    qed
  qed
qed

text \<open>A stream on a new file, with \<open>s\<close> written and still in the stream's buffer.\<close>

definition pending :: "string \<Rightarrow> byte list \<Rightarrow> FILE \<Rightarrow> bool" where
  "pending path s f \<longleftrightarrow>
     f_path f = path \<and> f_write f \<and> f_wbuf f = s \<and> f_pos f = length s \<and> (s \<noteq> [] \<longrightarrow> f_wpos f = 0)"

lemma fwrite_pending:
  assumes "fwrite c f w = (k, f', w')" "pending path s f"
  shows "moved w (length c) k" "io_frame w w'" "pending path (s @ take k c) f'"
  using assms transfer_le [of "length c" w k w']
  by (auto simp: fwrite_def pending_def split: prod.splits dest: transfer_moved transfer_frame)

lemma write_loop_spec:
  assumes "wt \<le> amount" "amount \<le> length buffer" "pending path s f"
  shows "\<exists>ok f' w'. write_loop buffer wt amount f w = Some (ok, f', w') \<and> io_frame w w' \<and>
     (w_faults w = [] \<longrightarrow> ok) \<and> (\<exists>s'. pending path s' f') \<and>
     (ok \<longrightarrow> pending path (s @ window buffer wt (amount - wt)) f')"
  using assms
proof (induction buffer wt amount f w arbitrary: s rule: write_loop.induct)
  case (1 buffer wt amount f w)
  show ?case
  proof (cases "wt < amount")
    case False
    with "1.prems" show ?thesis by (auto simp: write_loop.simps [of buffer])
  next
    case True
    let ?c = "window buffer wt (amount - wt)"
    have rd: "buf_read buffer wt (amount - wt) = Some ?c" and len: "length ?c = amount - wt"
      using True "1.prems" by simp_all
    obtain k f1 w1 where wr: "fwrite ?c f w = (k, f1, w1)" by (metis prod_cases3)
    note wr' = fwrite_pending [OF wr "1.prems"(3)]
    show ?thesis
    proof (cases "k = 0")
      case stuck: True
      then show ?thesis
        using True rd wr wr' len by (auto simp: write_loop.simps [of buffer] moved_def)
    next
      case False
      have k: "k \<le> amount - wt" using wr'(1) len by (simp add: moved_def)
      then have le: "wt + k \<le> amount" using True by simp
      have app: "s @ take k ?c @ window buffer (wt + k) (amount - (wt + k)) = s @ ?c"
        using window_split [OF k, of buffer wt] by simp
      have "\<exists>ok f' w'. write_loop buffer (wt + k) amount f1 w1 = Some (ok, f', w') \<and> io_frame w1 w' \<and>
         (w_faults w1 = [] \<longrightarrow> ok) \<and> (\<exists>s'. pending path s' f') \<and>
         (ok \<longrightarrow> pending path ((s @ take k ?c) @ window buffer (wt + k) (amount - (wt + k))) f')"
        by (rule "1.IH" [OF True rd wr [symmetric] refl False le "1.prems"(2) wr'(3)])
      moreover have "write_loop buffer wt amount f w = write_loop buffer (wt + k) amount f1 w1"
        using True rd wr False by (simp add: write_loop.simps [of buffer wt])
      ultimately show ?thesis
        using wr'(2) io_frame_no_faults [OF wr'(2)] by (auto simp: app intro: io_frame_trans)
    qed
  qed
qed

lemma urandom_loop_spec:
  assumes "length buffer = BUFFER_SIZE" "pending path s f"
  shows "\<exists>ok b f' w'. urandom_loop buffer r f w = Some (ok, b, f', w') \<and> length b = BUFFER_SIZE \<and>
     file_frame w w' \<and> (w_faults w = [] \<longrightarrow> ok) \<and> (\<exists>s'. pending path s' f') \<and>
     (ok \<longrightarrow> drew (unat r) w w' \<and> pending path (s @ random_bytes w (unat r)) f')"
  using assms
proof (induction buffer r f w arbitrary: s rule: urandom_loop.induct)
  case (1 buffer r f w)
  show ?case
  proof (cases "r > 0")
    case False
    then have run: "urandom_loop buffer r f w = Some (True, buffer, f, w)"
      by (subst urandom_loop.simps) simp
    have r: "unat r = 0" using False by (simp add: word_less_nat_alt)
    have "drew 0 w w" "random_bytes w 0 = []" by (simp_all add: drew_def random_bytes_def)
    with "1.prems" show ?thesis
      unfolding run r by (intro exI [of _ True] exI [of _ buffer] exI [of _ f] exI [of _ w]) auto
  next
    case True
    define a :: u64 where "a = (if r > of_nat BUFFER_SIZE then of_nat BUFFER_SIZE else r)"
    have a: "unat a \<le> BUFFER_SIZE" "unat a \<le> unat r" "unat (r - a) = unat r - unat a"
      by (auto simp: a_def word_less_nat_alt not_less unat_sub word_le_nat_alt)
    obtain ok b w1 where rd: "read_loop buffer 0 (unat a) w = Some (ok, b, w1)" "length b = BUFFER_SIZE"
      "file_frame w w1" "w_faults w = [] \<longrightarrow> ok"
      "ok \<longrightarrow> drew (unat a) w w1 \<and> take (unat a) b = random_bytes w (unat a)"
      using read_loop_spec [of 0 "unat a" buffer w] a(1) "1.prems"(1) by auto
    obtain ok' f1 w2 where wr: "write_loop b 0 (unat a) f w1 = Some (ok', f1, w2)" "io_frame w1 w2"
      "w_faults w1 = [] \<longrightarrow> ok'" "\<exists>s'. pending path s' f1"
      "ok' \<longrightarrow> pending path (s @ take (unat a) b) f1"
      using write_loop_spec [of 0 "unat a" b path s f w1] a(1) rd(2) "1.prems"(2) by (auto simp: window_def)
    have w2: "file_frame w w2" using rd(3) io_frame_file_frame [OF wr(2)] by (rule file_frame_trans)
    note unfold = urandom_loop.simps [of buffer r f w, folded a_def, unfolded Let_def]
    show ?thesis
    proof (cases "ok \<and> ok'")
      case failed: False
      then show ?thesis
        using True rd wr w2 "1.prems" file_frame_no_faults [OF rd(3)] by (auto simp: unfold)
    next
      case oks: True
      then have p: "pending path (s @ random_bytes w (unat a)) f1" and d: "drew (unat a) w w2"
        using rd(5) wr(5) drew_trans [of "unat a" w w1 0 w2] io_frame_drew [OF wr(2)] by auto
      obtain ok2 b' f' w' where ih: "urandom_loop b (r - a) f1 w2 = Some (ok2, b', f', w')" "length b' = BUFFER_SIZE"
        "file_frame w2 w'" "w_faults w2 = [] \<longrightarrow> ok2" "\<exists>s'. pending path s' f'"
        "ok2 \<longrightarrow> drew (unat (r - a)) w2 w' \<and>
           pending path ((s @ random_bytes w (unat a)) @ random_bytes w2 (unat (r - a))) f'"
        using "1.IH" [OF True a_def rd(1) refl refl _ wr(1) refl refl _ rd(2) p] oks by blast
      have "random_bytes w (unat r) = random_bytes w (unat a) @ random_bytes w2 (unat (r - a))"
        using random_bytes_add [OF d, of "unat (r - a)"] a by simp
      moreover have "drew (unat r) w w'" if "drew (unat (r - a)) w2 w'"
        using drew_trans [OF d that] a by simp
      moreover have "urandom_loop buffer r f w = Some (ok2, b', f', w')"
        using True rd(1) wr(1) oks ih(1) by (simp add: unfold)
      ultimately show ?thesis
        using ih(2-6) file_frame_trans [OF w2 ih(3)] file_frame_no_faults [OF w2]
        by (intro exI [of _ ok2] exI [of _ b'] exI [of _ f'] exI [of _ w']) auto
    qed
  qed
qed

lemma open_urandom_spec:
  assumes "open_urandom w = (ok, w')"
  shows "drew 0 w w'" "w_faults w = [] \<Longrightarrow> ok"
  using assms
  by (auto simp: open_urandom_def drew_def file_frame_def io_frame_def split: prod.splits bool.splits dest!: attempt_frame)

lemma drew_malloc: "malloc n w = (r, w') \<Longrightarrow> drew 0 w w'"
  by (auto simp: malloc_def drew_def file_frame_def io_frame_def split: prod.splits bool.splits dest!: attempt_frame)

lemma drew_free [simp]: "drew k w (free n p w') \<longleftrightarrow> drew k w w'"
  by (simp add: drew_def) (simp add: free_def split: option.splits)

lemma drew_close [simp]: "drew k w (close w') \<longleftrightarrow> drew k w w'"
  by (simp add: drew_def close_def file_frame_def)

lemma file_frame_close [simp]: "file_frame w (close w') \<longleftrightarrow> file_frame w w'"
  by (simp add: close_def file_frame_def)

text \<open>The stream receives exactly the next \<open>n\<close> bytes of the random source, or the call fails.\<close>

lemma write_urandom_bytes_spec:
  assumes "pending path [] f"
  obtains rc f' w' s where "write_urandom_bytes f n w = Some (rc, f', w')" "file_frame w w'"
    "rc = 0 \<or> rc = -1" "w_faults w = [] \<longrightarrow> rc = 0" "pending path s f'"
    "rc = 0 \<longrightarrow> s = random_bytes w (unat n) \<and> drew (unat n) w w'"
proof -
  obtain r w1 where m: "malloc BUFFER_SIZE w = (r, w1)" by (metis prod.exhaust)
  note m' = malloc_spec [OF m] drew_malloc [OF m]
  show thesis
  proof (cases r)
    case None
    show thesis
      by (rule that [of "-1" f w1 "[]"]) (use None m m' assms in \<open>auto simp: write_urandom_bytes_def\<close>)
  next
    case (Some buf)
    obtain fd w2 where o: "open_urandom w1 = (fd, w2)" by (metis prod.exhaust)
    note o' = open_urandom_spec [OF o]
    have d2: "drew 0 w w2" using drew_trans [OF m'(5) o'(1)] by simp
    obtain ok b f' w3 where l: "urandom_loop buf n f w2 = Some (ok, b, f', w3)" "length b = BUFFER_SIZE"
      "file_frame w2 w3" "w_faults w2 = [] \<longrightarrow> ok" "\<exists>s'. pending path s' f'"
      "ok \<longrightarrow> drew (unat n) w2 w3 \<and> pending path (random_bytes w2 (unat n)) f'"
      using urandom_loop_spec [OF m'(2) [OF Some] assms, of n w2, unfolded append_Nil] by blast
    show thesis
    proof (cases "fd \<and> ok")
      case True
      show thesis
        by (rule that [of 0 f' "free ''buffer'' (Some (replicate BUFFER_SIZE 0)) (close w3)" "random_bytes w (unat n)"])
          (use True Some m o l d2 drew_trans [OF d2, of "unat n" w3] drew_0_random [OF d2] in
            \<open>auto simp: write_urandom_bytes_def Let_def dest: drew_file_frame\<close>)
    next
      case False
      have "\<exists>f' w' s. write_urandom_bytes f n w = Some (-1, f', w') \<and> file_frame w w' \<and> pending path s f'"
        using False Some m o l m'(2) [OF Some] assms drew_file_frame [OF d2]
        by (cases fd) (auto simp: write_urandom_bytes_def Let_def intro: file_frame_trans)
      moreover have "w_faults w \<noteq> []"
        using False l(4) o'(2) file_frame_no_faults [OF drew_file_frame [OF d2]] file_frame_no_faults [OF m'(1)] by auto
      ultimately show thesis using that [of "-1"] by auto
    qed
  qed
qed

section \<open>Publishing the file\<close>

text \<open>Only the file \<open>temp\<close> differs.\<close>

definition off_temp :: "string \<Rightarrow> world \<Rightarrow> world \<Rightarrow> bool" where
  "off_temp temp w w' \<longleftrightarrow>
     (\<forall>p. p \<noteq> temp \<longrightarrow> w_files w' p = w_files w p) \<and> w_dirs w' = w_dirs w \<and> w_env w' = w_env w \<and>
     set (w_faults w') \<subseteq> set (w_faults w)"

lemma off_temp_trans: "off_temp temp w w' \<Longrightarrow> off_temp temp w' w'' \<Longrightarrow> off_temp temp w w''"
  by (auto simp: off_temp_def)

lemma edits_off_temp: "edits temp w w' \<Longrightarrow> off_temp temp w w'"
  by (simp add: edits_def off_temp_def)

lemma file_frame_off_temp: "file_frame w w' \<Longrightarrow> off_temp temp w w'"
  by (simp add: file_frame_def off_temp_def)

lemma off_temp_no_faults: "off_temp temp w w' \<Longrightarrow> w_faults w = [] \<Longrightarrow> w_faults w' = []"
  by (simp add: off_temp_def)

lemma unlink_spec:
  assumes "unlink path w = (rc, w')"
  shows "off_temp path w w'" "w_faults w = [] \<Longrightarrow> w_files w' path = None"
proof -
  obtain ok w1 where a: "attempt w = (ok, w1)" by (metis prod.exhaust)
  then show "off_temp path w w'"
    using assms attempt_frame [OF a]
    by (auto simp: unlink_def off_temp_def io_frame_def split: bool.splits option.splits)
  show "w_files w' path = None" if "w_faults w = []"
    using assms that by (auto simp: unlink_def split: option.splits)
qed

text \<open>
  The result of \<open>padlock_allocate\<close> from the creation of the temporary file on: the complete store
  under its name, or nothing under any other name. \<open>good\<close> says when the call must succeed.
\<close>

definition published ::
  "'c openssl \<Rightarrow> string \<Rightarrow> string \<Rightarrow> u64 \<Rightarrow> string \<Rightarrow> bool \<Rightarrow> world \<Rightarrow> (int \<times> world) option \<Rightarrow> bool" where
  "published ssl path pw sz temp good w r \<longleftrightarrow>
     (case r of
        None \<Rightarrow> False
      | Some (rc, w') \<Rightarrow>
          set (w_faults w') \<subseteq> set (w_faults w) \<and> w_dirs w' = w_dirs w \<and> w_env w' = w_env w \<and>
          (if rc = 0 then
             (\<exists>n. w_files w' = ((w_files w)(temp := None))(path \<mapsto> n) \<and> fn_mode n = mode_0600 \<and>
                length (fn_data n) = unat sz \<and> store_ok ssl pw (fn_data n) [])
           else rc = -1 \<and> (\<forall>p. p \<noteq> temp \<longrightarrow> w_files w' p = w_files w p) \<and>
             (w_faults w = [] \<longrightarrow> w_files w' temp = None \<and> \<not> good)))"

lemma published_fail:
  assumes run: "r = padlock_allocate_done (-1) file fd temp xk w'" and w: "off_temp temp w w'"
    and temp: "w_files w' temp \<noteq> None" "temp \<noteq> ''''" and xk: "length xk = 64"
    and f: "\<forall>f. file = Some f \<longrightarrow> f_path f = temp" and bad: "w_faults w = [] \<Longrightarrow> \<not> good"
  shows "published ssl path pw sz temp good w r"
proof -
  define w1 where "w1 = (case file of None \<Rightarrow> w' | Some f \<Rightarrow> snd (fclose f w'))"
  have e1: "edits temp w' w1"
  proof (cases "file")
    case (Some g)
    then have g: "f_path g = temp" using f by simp
    show ?thesis
      by (rule fclose_spec [of w' g]) (use g temp Some in \<open>auto simp: w1_def\<close>)
  qed (simp add: w1_def file_frame_edits)
  define w2 where "w2 = (if fd then close w1 else w1)"
  have o2: "off_temp temp w w2" and t2: "w_files w2 temp \<noteq> None"
    using off_temp_trans [OF w edits_off_temp [OF e1]] edits_exists [OF e1 temp(1)]
    by (simp_all add: w2_def close_def off_temp_def)
  obtain rc w3 where u: "unlink temp w2 = (rc, w3)" by (metis prod.exhaust)
  have o3: "off_temp temp w w3" "w_faults w = [] \<longrightarrow> w_files w3 temp = None"
    using off_temp_trans [OF o2 unlink_spec(1) [OF u]] unlink_spec(2) [OF u] off_temp_no_faults [OF o2] by auto
  have "r = Some (-1, leave ''xts_key'' (replicate 64 0) w3)"
    using u temp(2) xk by (simp add: run padlock_allocate_done_def Let_def w1_def [symmetric] w2_def [symmetric])
  then show ?thesis
    using o3 bad by (simp add: published_def off_temp_def leave_def)
qed

lemma RAND_bytes_spec:
  assumes "RAND_bytes n w = (r, w')"
  shows "file_frame w w'" "\<And>b. r = Some b \<Longrightarrow> length b = n" "w_faults w = [] \<Longrightarrow> r \<noteq> None"
  using assms
  by (auto simp: RAND_bytes_def draw_def file_frame_def io_frame_def split: prod.splits bool.splits dest!: attempt_frame)

lemma rename_spec:
  assumes "rename old new w = (rc, w')" "w_files w old = Some n"
  shows "rc = 0 \<or> rc = -1" "set (w_faults w') \<subseteq> set (w_faults w)" "w_dirs w' = w_dirs w"
    "rc = 0 \<Longrightarrow> w_files w' = ((w_files w)(old := None))(new \<mapsto> n)"
    "rc \<noteq> 0 \<Longrightarrow> w_files w' = w_files w"
    "w_faults w = [] \<Longrightarrow> w_dirs w new = None \<Longrightarrow> rc = 0"
proof -
  obtain ok w1 where a: "attempt w = (ok, w1)" by (metis prod.exhaust)
  note a' = attempt_frame [OF a]
  show "rc = 0 \<or> rc = -1" "set (w_faults w') \<subseteq> set (w_faults w)" "w_dirs w' = w_dirs w"
    "rc = 0 \<Longrightarrow> w_files w' = ((w_files w)(old := None))(new \<mapsto> n)"
    "rc \<noteq> 0 \<Longrightarrow> w_files w' = w_files w"
    using assms a a' by (auto simp: rename_def io_frame_def split: bool.splits option.splits if_splits)
  show "rc = 0" if "w_faults w = []" "w_dirs w new = None"
    using assms that by (simp add: rename_def)
qed

text \<open>The whole file is on disk and the stream is clean: close and rename.\<close>

lemma allocate_rename:
  assumes store: "store_ok ssl pw d []" "length d = unat sz"
    and f: "f_wbuf f = []" "f_path f = temp"
    and w: "off_temp temp w0 w" "w_files w temp = Some n" "fn_data n = d" "fn_mode n = mode_0600"
    and temp: "temp \<noteq> ''''" "temp \<noteq> path" and xk: "length xk = 64"
    and good: "good \<Longrightarrow> w_dirs w0 path = None"
  shows "published ssl path pw sz temp good w0
    (do {
       let (rc, w) = fclose f w;
       if rc \<noteq> 0 then padlock_allocate_done (-1) None False temp xk w
       else do {
         let (rc, w) = rename temp path w;
         padlock_allocate_done (if rc \<noteq> 0 then -1 else 0) None False temp xk w
       }
     })" (is "published _ _ _ _ _ _ _ ?r")
proof -
  obtain rc5 w5 where s5: "fclose f w = (rc5, w5)" by (metis prod.exhaust)
  have w5: "file_frame w w5" using fclose_clean [OF f(1), of w] s5 by simp
  note o5 = off_temp_trans [OF w(1) file_frame_off_temp [OF w5]]
  have t5: "w_files w5 temp = Some n" using w5 w(2) by (simp add: file_frame_def)
  obtain rc6 w6 where s6: "rename temp path w5 = (rc6, w6)" by (metis prod.exhaust)
  note s6' = rename_spec [OF s6 t5]
  show ?thesis
  proof (cases "rc5 = 0")
    case False
    then have "w_faults w0 \<noteq> []"
      using s5 f(1) off_temp_no_faults [OF w(1)] by (auto simp: fclose_def fflush_def)
    moreover have "?r = padlock_allocate_done (-1) None False temp xk w5"
      using False s5 by simp
    ultimately show ?thesis
      by (intro published_fail [OF _ o5 _ temp(1) xk]) (use t5 in auto)
  next
    case closed: True
    show ?thesis
    proof (cases "rc6 = 0")
      case False
      have "off_temp temp w0 w6" using o5 s6'(2,3,5) names_env(3) [OF s6] False by (auto simp: off_temp_def)
      moreover have "?r = padlock_allocate_done (-1) None False temp xk w6"
        using False closed s5 s6 by simp
      moreover have "\<not> good" if "w_faults w0 = []"
        using that good False s6'(6) off_temp_no_faults [OF o5] o5 by (auto simp: off_temp_def)
      ultimately show ?thesis
        by (intro published_fail [OF _ _ _ temp(1) xk]) (use t5 s6'(5) False in auto)
    next
      case True
      have "?r = Some (0, leave ''xts_key'' (replicate 64 0) w6)"
        using True closed s5 s6 xk by (simp add: padlock_allocate_done_def)
      moreover have "w_files w6 = ((w_files w0)(temp := None))(path \<mapsto> n)"
        using s6'(4) [OF True] o5 by (auto simp: off_temp_def fun_eq_iff)
      ultimately show ?thesis
        using store w(3,4) s6'(2,3) names_env(3) [OF s6] o5 by (auto simp: published_def leave_def off_temp_def)
    qed
  qed
qed

lemma allocate_publish_spec:
  assumes h: "header_ok h" "header_image h = Some b"
    and store: "\<And>d. length d = unat sz \<Longrightarrow> header_of d = Some h \<Longrightarrow> store_ok ssl pw d []"
    and f: "pending temp s f" "length s = unat sz" "4096 \<le> length s"
    and w: "off_temp temp w0 w" "w_files w temp = Some n" "fn_data n = []" "fn_mode n = mode_0600"
    and temp: "temp \<noteq> ''''" "temp \<noteq> path" and xk: "length xk = 64"
    and good: "good \<Longrightarrow> w_dirs w0 path = None"
  shows "published ssl path pw sz temp good w0 (allocate_publish path temp f h xk w)" (is "published _ _ _ _ _ _ _ ?r")
proof -
  have b: "length b = 4096" using header_image_some [of h] h by (auto simp: header_ok_def)
  have f': "f_path f = temp" "f_write f" "f_wbuf f = s" "f_wpos f = 0"
    using f by (auto simp: pending_def)
  have ex: "w_files w (f_path f) \<noteq> None" using w(2) f' by simp
  have d0: "file_data w temp = []" using w by (simp add: file_data_def)
  obtain rc1 f1 w1 where s1: "fseeko f 0 w = (rc1, f1, w1)" by (metis prod_cases3)
  obtain k where k: "moved w (length s) k" "edits temp w w1" "file_data w1 temp = take k s"
    "f_path f1 = temp" "f_write f1" "f_wbuf f1 = drop k s" "rc1 = 0 \<or> rc1 = -1"
    "rc1 = 0 \<longrightarrow> k = length s \<and> f_pos f1 = 0" "w_faults w = [] \<longrightarrow> rc1 = 0"
    by (rule fseeko_spec [OF s1 ex order_refl]) (use f' d0 in \<open>auto simp: write_at_def intro!: that split: if_splits\<close>)
  note o1 = off_temp_trans [OF w(1) edits_off_temp [OF k(2)]]
  have t1: "w_files w1 temp \<noteq> None" using edits_exists [OF k(2)] w(2) by simp
  note nf = off_temp_no_faults
  show ?thesis
  proof (cases "rc1 = 0")
    case False
    have "?r = padlock_allocate_done (-1) (Some f1) False temp xk w1"
      using False s1 h(2) by (simp add: allocate_publish_def write_header_def)
    then show ?thesis
      by (rule published_fail [OF _ o1 t1 temp(1) xk]) (use False k(4,9) nf [OF w(1)] in auto)
  next
    case True
    then have s': "file_data w1 temp = s" "f_wbuf f1 = []" "f_pos f1 = 0" using k(3,6,8) by auto
    obtain k2 f2 w2 where s2: "fwrite b f1 w1 = (k2, f2, w2)" by (metis prod_cases3)
    note s2' = fwrite_spec [OF s2 k(5) s'(2)]
    note e2 = file_frame_edits [OF io_frame_file_frame [OF s2'(2)], of temp]
    note o2 = off_temp_trans [OF o1 edits_off_temp [OF e2]]
    have t2: "w_files w2 temp \<noteq> None" "file_data w2 temp = s"
      using t1 s' edits_exists [OF e2] io_frame_file_data [OF s2'(2)] by simp_all
    have f2: "f_path f2 = temp" "f_wbuf f2 = take k2 b" "f_wpos f2 = 0" using s2'(3) k(4) s' by simp_all
    obtain rc3 f3 w3 where s3: "fflush f2 w2 = (rc3, f3, w3)" by (metis prod_cases3)
    have ex2: "w_files w2 (f_path f2) \<noteq> None" using t2 f2 by simp
    obtain j where j: "moved w2 (length (take k2 b)) j" "rc3 = (if j = length (take k2 b) then 0 else -1)"
      "f_path f3 = temp" "f_wbuf f3 = drop j (take k2 b)" "edits temp w2 w3"
      "file_data w3 temp = write_at s 0 (take j (take k2 b))"
      by (rule fflush_spec [OF s3 ex2]) (use f2 t2 in \<open>auto intro: that\<close>)
    note o3 = off_temp_trans [OF o2 edits_off_temp [OF j(5)]]
    have t3: "w_files w3 temp \<noteq> None" using edits_exists [OF j(5)] t2 by simp
    obtain rc4 w4 where s4: "fsync w3 = (rc4, w4)" by (metis prod.exhaust)
    have io4: "io_frame w3 w4" and nf4: "w_faults w3 = [] \<Longrightarrow> rc4 = 0"
      using s4 by (auto simp: fsync_def split: prod.splits dest: attempt_frame)
    note e4 = file_frame_edits [OF io_frame_file_frame [OF io4], of temp]
    note o4 = off_temp_trans [OF o3 edits_off_temp [OF e4]] and t4 = edits_exists [OF e4 t3]
    show ?thesis
    proof (cases "k2 = 4096 \<and> rc3 = 0 \<and> rc4 = 0")
      case False
      have nf0: "w_faults w0 \<noteq> []"
        using False s2'(1) j(1,2) nf4 b nf [OF o1] nf [OF o2] nf [OF o3] by (auto simp: moved_def)
      have "?r = padlock_allocate_done (-1) (Some f2) False temp xk w2 \<or>
          ?r = padlock_allocate_done (-1) (Some f3) False temp xk w3 \<or>
          ?r = padlock_allocate_done (-1) (Some f3) False temp xk w4"
        using False True s1 h(2) s2 s3 s4 by (auto simp: allocate_publish_def write_header_def)
      then consider "?r = padlock_allocate_done (-1) (Some f2) False temp xk w2"
        | "?r = padlock_allocate_done (-1) (Some f3) False temp xk w3"
        | "?r = padlock_allocate_done (-1) (Some f3) False temp xk w4" by fast
      then show ?thesis
      proof cases
        case 1
        then show ?thesis by (rule published_fail [OF _ o2 t2(1) temp(1) xk]) (use f2(1) nf0 in simp_all)
      next
        case 2
        then show ?thesis by (rule published_fail [OF _ o3 t3 temp(1) xk]) (use j(3) nf0 in simp_all)
      next
        case 3
        then show ?thesis by (rule published_fail [OF _ o4 t4 temp(1) xk]) (use j(3) nf0 in simp_all)
      qed
    next
      case whole: True
      then have "take k2 b = b" "j = 4096" using j(2) b by (simp_all split: if_splits)
      then have data: "file_data w4 temp = write_at s 0 b" "f_wbuf f3 = []"
        using j(4,6) b io_frame_file_data [OF io4] by simp_all
      obtain n4 where n4: "w_files w4 temp = Some n4" using t4 by auto
      have "edits temp w w4"
        using k(2) e2 j(5) e4 by (blast intro: edits_trans)
      then have "fn_mode n4 = mode_0600" "fn_data n4 = write_at s 0 b"
        using n4 w(2,4) data(1) by (auto simp: edits_def file_data_def)
      moreover have len: "length (write_at s 0 b) = unat sz" using f(2,3) b by simp
      moreover have "store_ok ssl pw (write_at s 0 b) []"
        using store [OF len] header_of_write_at [OF h] by simp
      ultimately have "published ssl path pw sz temp good w0
        (do {
           let (rc, w) = fclose f3 w4;
           if rc \<noteq> 0 then padlock_allocate_done (-1) None False temp xk w
           else do {
             let (rc, w) = rename temp path w;
             padlock_allocate_done (if rc \<noteq> 0 then -1 else 0) None False temp xk w
           }
         })"
        by (intro allocate_rename [OF _ len data(2) j(3) o4 n4 _ _ temp xk good]) auto
      then show ?thesis
        using whole True s1 h(2) s2 s3 s4 by (simp add: allocate_publish_def write_header_def)
    qed
  qed
qed

text \<open>The password can seal any store key: no call into OpenSSL refuses it.\<close>

definition seals :: "'c openssl \<Rightarrow> string \<Rightarrow> bool" where
  "seals ssl pw \<longleftrightarrow> (\<forall>h k. header_shape h \<longrightarrow> length k = 64 \<longrightarrow> sealed_secret ssl (Some pw) h k \<noteq> None)"

lemma sealsD: "seals ssl pw \<Longrightarrow> header_shape h \<Longrightarrow> length k = 64 \<Longrightarrow> sealed_secret ssl (Some pw) h k \<noteq> None"
  unfolding seals_def by blast

lemma fresh_store:
  assumes laws: "ssl_laws ssl" and sz: "8192 \<le> unat sz" "unat sz < 2 ^ 63" and k: "length xk = 64"
    and len: "length slt = 16" "length v = 16"
    and seal: "sealed_secret ssl (Some pw) (fresh_header sz slt v) xk = Some e" "length e = 80"
  defines "h \<equiv> (fresh_header sz slt v)\<lparr>encrypted_secret := overlay (replicate 128 0) 0 e, encrypted_secret_size := 80\<rparr>"
  shows "header_ok h" "\<And>d. length d = unat sz \<Longrightarrow> header_of d = Some h \<Longrightarrow> store_ok ssl pw d []"
proof -
  show "header_ok h"
    using len seal(2) sz by (simp add: h_def header_ok_def header_shape_def header_bounds_def fresh_header_def)
  have "opened_secret ssl (Some pw) h = Some xk"
    using opened_sealed_secret [OF _ seal(1) k] laws by (simp add: h_def fresh_header_def ssl_laws_def)
  then show "store_ok ssl pw d []" if "length d = unat sz" "header_of d = Some h" for d
    using that sz by (auto simp: store_ok_def h_def fresh_header_def)
qed

lemma allocate_seal_spec:
  assumes laws: "ssl_laws ssl" and sz: "8192 \<le> unat sz" "unat sz < 2 ^ 63"
    and f: "pending temp s f" "length s = unat sz"
    and w: "off_temp temp w0 w" "w_files w temp = Some n" "fn_data n = []" "fn_mode n = mode_0600"
    and temp: "temp \<noteq> ''''" "temp \<noteq> path"
    and good: "good \<Longrightarrow> w_dirs w0 path = None \<and> seals ssl pw"
  shows "published ssl path pw sz temp good w0 (allocate_seal ssl path sz pw temp f w)" (is "published _ _ _ _ _ _ _ ?r")
proof -
  obtain r1 w1 where s1: "RAND_bytes 16 w = (r1, w1)" by (metis prod.exhaust)
  obtain r2 w2 where s2: "RAND_bytes 16 w1 = (r2, w2)" by (metis prod.exhaust)
  obtain r3 w3 where s3: "RAND_bytes 64 w2 = (r3, w3)" by (metis prod.exhaust)
  note s1' = RAND_bytes_spec [OF s1] and s2' = RAND_bytes_spec [OF s2] and s3' = RAND_bytes_spec [OF s3]
  note w2 = file_frame_trans [OF s1'(1) s2'(1)]
  note w3 = file_frame_trans [OF w2 s3'(1)]
  have fp: "f_path f = temp" using f by (simp add: pending_def)
  have fail: "published ssl path pw sz temp good w0 ?r"
    if "file_frame w w'" "?r = padlock_allocate_done (-1) (Some f) False temp xk w'" "length xk = 64"
      "w_faults w0 = [] \<Longrightarrow> \<not> good" for w' xk
    by (rule published_fail [OF that(2) off_temp_trans [OF w(1) file_frame_off_temp [OF that(1)]] _ temp(1) that(3)])
      (use w(2) that(1,4) fp in \<open>auto simp: file_frame_def\<close>)
  note nf = off_temp_no_faults [OF w(1)]
  show ?thesis
  proof (cases "\<exists>slt v xk. r1 = Some slt \<and> r2 = Some v \<and> r3 = Some xk")
    case False
    have "w_faults w0 \<noteq> []"
      using False nf s1'(3) s2'(3) s3'(3) file_frame_no_faults [OF s1'(1)] file_frame_no_faults [OF w2] by auto
    moreover have "\<exists>w'. file_frame w w' \<and> ?r = padlock_allocate_done (-1) (Some f) False temp (junk w' 64) w'"
      using False s1 s2 s3 s1'(1) w2 w3 by (cases r1; cases r2; cases r3) (auto simp: allocate_seal_def)
    ultimately show ?thesis using fail length_junk by blast
  next
    case True
    then obtain slt v xk where rs: "r1 = Some slt" "r2 = Some v" "r3 = Some xk" by blast
    have len: "length slt = 16" "length v = 16" "length xk = 64"
      using s1'(2) s2'(2) s3'(2) rs by auto
    let ?h = "fresh_header sz slt v"
    have shape: "header_shape ?h" using len by (simp add: header_shape_def fresh_header_def)
    have kdf: "kdf_laws ssl" "cbc_laws ssl" using laws by (simp_all add: ssl_laws_def)
    obtain r w4 where en: "encrypt_secret ssl (Some pw) ?h xk w3 = Some (r, w4)" "io_frame (secret_frame 72 w3) w4"
      "r = None \<or> (\<exists>e. sealed_secret ssl (Some pw) ?h xk = Some e \<and> length e = 80 \<and>
         r = Some (?h\<lparr>encrypted_secret := overlay (encrypted_secret ?h) 0 e, encrypted_secret_size := 80\<rparr>))"
      "w_faults w3 = [] \<longrightarrow> sealed_secret ssl (Some pw) ?h xk \<noteq> None \<longrightarrow> r \<noteq> None"
      by (rule encrypt_secret_spec [OF kdf shape len(3)]) (rule that)
    have w4: "file_frame w w4" using w3 io_frame_file_frame [OF en(2)] by (auto intro: file_frame_trans)
    show ?thesis
    proof (cases r)
      case None
      have "?r = padlock_allocate_done (-1) (Some f) False temp xk w4"
        using None en(1) s1 s2 s3 rs by (simp add: allocate_seal_def)
      moreover have "\<not> good" if "w_faults w0 = []"
        using that None good sealsD [of ssl pw ?h xk] shape len(3) en(4) nf file_frame_no_faults [OF w3] by auto
      ultimately show ?thesis by (rule fail [OF w4 _ len(3)])
    next
      case (Some h)
      then obtain e where e: "sealed_secret ssl (Some pw) ?h xk = Some e" "length e = 80"
        "h = ?h\<lparr>encrypted_secret := overlay (replicate 128 0) 0 e, encrypted_secret_size := 80\<rparr>"
        using en(3) by (auto simp: fresh_header_def)
      note fs = fresh_store [OF laws sz len(3,1,2) e(1,2), folded e(3)]
      then obtain b where b: "header_image h = Some b"
        using header_image_some [of h] by (auto simp: header_ok_def)
      have "published ssl path pw sz temp good w0 (allocate_publish path temp f h xk w4)"
        by (rule allocate_publish_spec [OF fs(1) b fs(2) f _ off_temp_trans [OF w(1) file_frame_off_temp [OF w4]] _ w(3,4) temp len(3)])
          (use f sz w(2) w4 good in \<open>auto simp: file_frame_def\<close>)
      then show ?thesis using Some en(1) s1 s2 s3 rs by (simp add: allocate_seal_def)
    qed
  qed
qed

section \<open>The whole call\<close>

lemma before_last_slash_shorter: "before_last_slash path = Some p \<Longrightarrow> length p < length path"
proof -
  assume p: "before_last_slash path = Some p"
  let ?r = "dropWhile (\<lambda>c. c \<noteq> CHR ''/'') (rev path)"
  have "CHR ''/'' \<in> set (rev path)" and len: "length p = length ?r - 1"
    using p by (auto simp: before_last_slash_def split: if_splits)
  then have "?r \<noteq> []" unfolding dropWhile_eq_Nil_conv by auto
  moreover have "length ?r \<le> length path" using length_dropWhile_le [of _ "rev path"] by simp
  ultimately show "length p < length path" using len by (cases ?r) auto
qed

text \<open>When \<open>ensure_parent_directory\<close> succeeds if no call fails.\<close>

definition parent_usable :: "string \<Rightarrow> world \<Rightarrow> bool" where
  "parent_usable path w =
     (case before_last_slash path of
        None \<Rightarrow> True
      | Some p \<Rightarrow> p \<noteq> '''' \<and> (w_dirs w p \<noteq> None \<or> w_files w p = None \<and> parent_exists p w))"

lemma mkdir_spec:
  assumes "mkdir p m w = (rc, w')"
  shows "w_files w' = w_files w" "w_suffixes w' = w_suffixes w" "set (w_faults w') \<subseteq> set (w_faults w)"
    "\<And>q. q \<noteq> p \<Longrightarrow> w_dirs w' q = w_dirs w q"
    "w_faults w = [] \<Longrightarrow> p \<noteq> '''' \<Longrightarrow> w_dirs w p \<noteq> None \<or> w_files w p = None \<and> parent_exists p w \<Longrightarrow>
       (rc = 0 \<or> w_errno w' = EEXIST) \<and> w_dirs w' p \<noteq> None"
proof -
  obtain ok w1 where a: "attempt w = (ok, w1)" by (metis prod.exhaust)
  show "w_files w' = w_files w" "w_suffixes w' = w_suffixes w" "set (w_faults w') \<subseteq> set (w_faults w)"
    "\<And>q. q \<noteq> p \<Longrightarrow> w_dirs w' q = w_dirs w q"
    using assms a attempt_frame [OF a] by (auto simp: mkdir_def io_frame_def split: bool.splits if_splits)
  show "w_faults w = [] \<Longrightarrow> p \<noteq> '''' \<Longrightarrow> w_dirs w p \<noteq> None \<or> w_files w p = None \<and> parent_exists p w \<Longrightarrow>
       (rc = 0 \<or> w_errno w' = EEXIST) \<and> w_dirs w' p \<noteq> None"
    using assms by (auto simp: mkdir_def split: if_splits)
qed

lemma chmod_spec:
  assumes "chmod p m w = (rc, w')"
  shows "\<And>q. q \<noteq> p \<Longrightarrow> w_files w' q = w_files w q" "\<And>q. w_files w' q = None \<longleftrightarrow> w_files w q = None"
    "w_suffixes w' = w_suffixes w" "set (w_faults w') \<subseteq> set (w_faults w)"
    "\<And>q. q \<noteq> p \<Longrightarrow> w_dirs w' q = w_dirs w q" "w_dirs w' p = None \<longleftrightarrow> w_dirs w p = None"
proof -
  obtain ok w1 where a: "attempt w = (ok, w1)" by (metis prod.exhaust)
  show "\<And>q. q \<noteq> p \<Longrightarrow> w_files w' q = w_files w q" "\<And>q. w_files w' q = None \<longleftrightarrow> w_files w q = None"
    "w_suffixes w' = w_suffixes w" "set (w_faults w') \<subseteq> set (w_faults w)"
    "\<And>q. q \<noteq> p \<Longrightarrow> w_dirs w' q = w_dirs w q" "w_dirs w' p = None \<longleftrightarrow> w_dirs w p = None"
    using assms a attempt_frame [OF a] by (auto simp: chmod_def io_frame_def split: bool.splits if_splits)
qed

text \<open>Only the parent's mode can change, and only the parent can be created.\<close>

definition parent_only :: "string \<Rightarrow> world \<Rightarrow> world \<Rightarrow> bool" where
  "parent_only path w w' \<longleftrightarrow>
     (\<forall>q. before_last_slash path \<noteq> Some q \<longrightarrow> w_files w' q = w_files w q \<and> w_dirs w' q = w_dirs w q) \<and>
     (\<forall>q. w_files w' q = None \<longleftrightarrow> w_files w q = None) \<and>
     w_suffixes w' = w_suffixes w \<and> w_env w' = w_env w \<and> set (w_faults w') \<subseteq> set (w_faults w)"

lemma ensure_parent_directory_spec:
  assumes run: "ensure_parent_directory path w = (rc, w')"
  shows "parent_only path w w' \<and> (rc = 0 \<or> rc = -1) \<and>
    (w_faults w = [] \<longrightarrow> length path < 4096 \<longrightarrow> parent_usable path w \<longrightarrow> rc = 0 \<and> parent_exists path w')"
proof (cases "before_last_slash path")
  case None
  with run show ?thesis
    by (auto simp: ensure_parent_directory_def parent_only_def parent_exists_def split: if_splits)
next
  case (Some p)
  obtain rc1 w1 where m: "mkdir p mode_0700 w = (rc1, w1)" by (metis prod.exhaust)
  obtain rc2 w2 where c: "chmod p mode_0700 w1 = (rc2, w2)" by (metis prod.exhaust)
  have w1: "parent_only path w w1" using mkdir_spec [OF m] names_env(1) [OF m] Some by (auto simp: parent_only_def)
  have w2: "parent_only path w w2"
    using w1 chmod_spec [OF c] names_env(2) [OF c] Some by (auto simp: parent_only_def)
  have "(rc1 = 0 \<or> w_errno w1 = EEXIST) \<and> w_dirs w1 p \<noteq> None \<and> w_dirs w2 p \<noteq> None" if "w_faults w = []" "parent_usable path w"
    using mkdir_spec(5) [OF m] chmod_spec(6) [OF c] that Some by (auto simp: parent_usable_def)
  with run Some m c w1 w2 show ?thesis
    by (auto simp: ensure_parent_directory_def parent_only_def parent_exists_def split: if_splits)
qed

lemma before_last_slash_suffix: "CHR ''/'' \<notin> set b \<Longrightarrow> before_last_slash (a @ b) = before_last_slash a"
proof -
  assume "CHR ''/'' \<notin> set b"
  moreover from this have "dropWhile (\<lambda>c. c \<noteq> CHR ''/'') (rev b @ rev a) = dropWhile (\<lambda>c. c \<noteq> CHR ''/'') (rev a)"
    by (intro dropWhile_append2) auto
  ultimately show ?thesis by (simp add: before_last_slash_def)
qed

lemma mkstemp_spec:
  assumes "mkstemp prefix w = (r, w')"
  shows "w_dirs w' = w_dirs w" "set (w_faults w') \<subseteq> set (w_faults w)"
    "r = None \<Longrightarrow> w_files w' = w_files w"
    "r = Some t \<Longrightarrow> (\<exists>s. t = prefix @ s) \<and> w_files w t = None \<and>
       w_files w' = (w_files w)(t \<mapsto> \<lparr>fn_data = [], fn_mode = mode_0600\<rparr>)"
    "w_faults w = [] \<Longrightarrow> parent_exists prefix w \<Longrightarrow>
       \<exists>s\<in>set (w_suffixes w). w_files w (prefix @ s) = None \<and> w_dirs w (prefix @ s) = None \<Longrightarrow> r \<noteq> None"
proof -
  obtain ok w1 where a: "attempt w = (ok, w1)" by (metis prod.exhaust)
  note a' = attempt_frame [OF a]
  show "w_dirs w' = w_dirs w" "set (w_faults w') \<subseteq> set (w_faults w)" "r = None \<Longrightarrow> w_files w' = w_files w"
    using assms a a' by (auto simp: mkstemp_def io_frame_def split: bool.splits option.splits if_splits)
  show "(\<exists>s. t = prefix @ s) \<and> w_files w t = None \<and>
       w_files w' = (w_files w)(t \<mapsto> \<lparr>fn_data = [], fn_mode = mode_0600\<rparr>)" if "r = Some t"
    using assms a a' that
    by (auto simp: mkstemp_def io_frame_def find_Some_iff split: bool.splits option.splits if_splits)
  show "r \<noteq> None" if "w_faults w = []" "parent_exists prefix w"
    "\<exists>s\<in>set (w_suffixes w). w_files w (prefix @ s) = None \<and> w_dirs w (prefix @ s) = None"
    using assms that by (auto simp: mkstemp_def find_None_iff split: option.splits)
qed

text \<open>The rest of the call, once the temporary file exists.\<close>

lemma allocate_filled:
  assumes laws: "ssl_laws ssl" and sz: "8192 \<le> unat sz" "unat sz < 2 ^ 63"
    and w: "w_files w temp = Some \<lparr>fn_data = [], fn_mode = mode_0600\<rparr>"
    and temp: "temp \<noteq> ''''" "temp \<noteq> path"
    and good: "good \<Longrightarrow> w_dirs w path = None \<and> seals ssl pw"
  shows "published ssl path pw sz temp good w
    (do {
       let (rc, w) = chmod_file temp mode_0600 w;
       if rc \<noteq> 0 then padlock_allocate_done (-1) None True temp (junk w 64) w
       else case fdopen temp w of
         (None, w) \<Rightarrow> padlock_allocate_done (-1) None True temp (junk w 64) w
       | (Some file, w) \<Rightarrow>
           do {
             (rc, file, w) \<leftarrow> write_urandom_bytes file sz w;
             if rc \<noteq> 0 then padlock_allocate_done (-1) (Some file) False temp (junk w 64) w
             else allocate_seal ssl path sz pw temp file w
           }
     })" (is "published _ _ _ _ _ _ _ ?r")
proof -
  obtain rc1 w1 where s1: "chmod_file temp mode_0600 w = (rc1, w1)" by (metis prod.exhaust)
  have w1: "file_frame w w1"
    using s1 w by (auto simp: chmod_file_def file_frame_def io_frame_def fun_eq_iff
        split: prod.splits bool.splits dest!: attempt_frame)
  have nf1: "w_faults w = [] \<longrightarrow> rc1 = 0" using s1 by (auto simp: chmod_file_def)
  obtain r w2 where s2: "fdopen temp w1 = (r, w2)" by (metis prod.exhaust)
  have w12: "file_frame w1 w2" and r: "\<And>f. r = Some f \<Longrightarrow> pending temp [] f"
    using s2 by (auto simp: fdopen_def pending_def io_frame_file_frame split: prod.splits bool.splits dest: attempt_frame)
  have nf2: "w_faults w1 = [] \<longrightarrow> r \<noteq> None" using s2 by (auto simp: fdopen_def)
  note w2 = file_frame_trans [OF w1 w12]
  have fail: "published ssl path pw sz temp good w ?r"
    if "file_frame w w'" "?r = padlock_allocate_done (-1) f fd temp (junk w' 64) w'" "w_faults w \<noteq> []"
      "\<forall>g. f = Some g \<longrightarrow> f_path g = temp" for w' f fd
    by (rule published_fail [OF that(2) file_frame_off_temp [OF that(1)] _ temp(1)])
      (use w that(1,3,4) in \<open>auto simp: file_frame_def\<close>)
  show ?thesis
  proof (cases "rc1 = 0")
    case False
    then show ?thesis using fail [OF w1, of None True] nf1 s1 by auto
  next
    case chmodded: True
    show ?thesis
    proof (cases r)
      case None
      then show ?thesis
        using fail [OF w2, of None True] nf2 chmodded s1 s2 file_frame_no_faults [OF w1] by auto
    next
      case (Some f)
      obtain rc f' w3 s where u: "write_urandom_bytes f sz w2 = Some (rc, f', w3)" "file_frame w2 w3"
        "rc = 0 \<or> rc = -1" "w_faults w2 = [] \<longrightarrow> rc = 0" "pending temp s f'"
        "rc = 0 \<longrightarrow> s = random_bytes w2 (unat sz) \<and> drew (unat sz) w2 w3"
        by (rule write_urandom_bytes_spec [OF r [OF Some]]) (rule that)
      note w3 = file_frame_trans [OF w2 u(2)]
      show ?thesis
      proof (cases "rc = 0")
        case False
        then show ?thesis
          using fail [OF w3, of "Some f'" False] u chmodded Some s1 s2 file_frame_no_faults [OF w2]
          by (auto simp: pending_def)
      next
        case True
        have "published ssl path pw sz temp good w (allocate_seal ssl path sz pw temp f' w3)"
          by (rule allocate_seal_spec [OF laws sz u(5) _ file_frame_off_temp [OF w3] _ _ _ temp good])
            (use True u(6) w w3 in \<open>auto simp: file_frame_def\<close>)
        then show ?thesis using True chmodded Some s1 s2 u(1) by simp
      qed
    qed
  qed
qed

text \<open>The result of \<open>padlock_allocate\<close>, for every sequence of failures.\<close>

definition allocated :: "'c openssl \<Rightarrow> string \<Rightarrow> string \<Rightarrow> u64 \<Rightarrow> world \<Rightarrow> int \<Rightarrow> world \<Rightarrow> bool" where
  "allocated ssl path pw sz w rc w' \<longleftrightarrow>
     (rc = 0 \<or> rc = -1) \<and>
     (\<forall>p. p \<noteq> path \<longrightarrow> before_last_slash path \<noteq> Some p \<longrightarrow> w_files w p \<noteq> None \<longrightarrow> w_files w' p = w_files w p) \<and>
     (rc = 0 \<longrightarrow> (\<exists>n. w_files w' path = Some n \<and> fn_mode n = mode_0600 \<and>
        length (fn_data n) = unat sz \<and> store_ok ssl pw (fn_data n) [])) \<and>
     (rc = -1 \<longrightarrow> w_files w' path = w_files w path) \<and>
     (w_faults w = [] \<longrightarrow> (\<forall>p. p \<noteq> path \<longrightarrow> w_files w p = None \<longrightarrow> w_files w' p = None)) \<and>
     w_env w' = w_env w \<and> (\<forall>p. before_last_slash path \<noteq> Some p \<longrightarrow> w_dirs w' p = w_dirs w p) \<and>
     set (w_faults w') \<subseteq> set (w_faults w)"

text \<open>The conditions under which a call without failures succeeds.\<close>

definition allocatable :: "'c openssl \<Rightarrow> string \<Rightarrow> string \<Rightarrow> u64 \<Rightarrow> world \<Rightarrow> bool" where
  "allocatable ssl path pw sz w \<longleftrightarrow>
     8192 \<le> unat sz \<and> length path + 11 < 4096 \<and> parent_usable path w \<and> w_dirs w path = None \<and> seals ssl pw \<and>
     (\<exists>s\<in>set (w_suffixes w). w_files w (path @ ''.tmp.'' @ s) = None \<and> w_dirs w (path @ ''.tmp.'' @ s) = None)"

lemma parent_shorter: "before_last_slash path \<noteq> Some (path @ s)"
  using before_last_slash_shorter [of path "path @ s"] by auto

lemma padlock_allocate_log:
  assumes laws: "ssl_laws ssl" and sz: "unat sz < 2 ^ 63"
  shows "\<exists>rc w'. padlock_allocate ssl (Some path) sz (Some pw) w = Some (rc, w') \<and> allocated ssl path pw sz w rc w' \<and>
    (w_faults w = [] \<longrightarrow> allocatable ssl path pw sz w \<longrightarrow> rc = 0)"
proof -
  obtain rc1 w1 where s1: "ensure_parent_directory path w = (rc1, w1)" by (metis prod.exhaust)
  note s1' = ensure_parent_directory_spec [OF s1]
  have p1: "w_files w1 (path @ s) = w_files w (path @ s)" "w_dirs w1 (path @ s) = w_dirs w (path @ s)" for s
    using s1' parent_shorter [of path s] by (auto simp: parent_only_def)
  have early: "allocated ssl path pw sz w (-1) w1"
    using s1' p1 [of "[]"] by (auto simp: allocated_def parent_only_def)
  obtain r w2 where s2: "mkstemp (path @ ''.tmp.'') w1 = (r, w2)" by (metis prod.exhaust)
  note s2' = mkstemp_spec [OF s2]
  show ?thesis
  proof (cases "sz < of_nat PADLOCK_MIN_SIZE \<or> rc1 \<noteq> 0 \<or> length path + 11 \<ge> 4096")
    case True
    have "padlock_allocate ssl (Some path) sz (Some pw) w = Some (-1, if sz < of_nat PADLOCK_MIN_SIZE then w else w1)"
      using True s1 by (auto simp: padlock_allocate_def)
    moreover have "\<not> allocatable ssl path pw sz w" if "w_faults w = []"
      using True s1' that by (auto simp: allocatable_def word_less_nat_alt)
    moreover have "allocated ssl path pw sz w (-1) w" by (simp add: allocated_def)
    ultimately show ?thesis using early by simp
  next
    case False
    have min: "8192 \<le> unat sz" using False by (simp add: word_less_nat_alt)
    show ?thesis
    proof (cases r)
      case None
      have "padlock_allocate ssl (Some path) sz (Some pw) w = Some (-1, w2)"
        using None False s1 s2 by (simp add: padlock_allocate_def)
      moreover have "\<not> allocatable ssl path pw sz w" if nf: "w_faults w = []"
      proof
        assume "allocatable ssl path pw sz w"
        then have "\<exists>s\<in>set (w_suffixes w1). w_files w1 ((path @ ''.tmp.'') @ s) = None \<and> w_dirs w1 ((path @ ''.tmp.'') @ s) = None"
          using s1' p1 by (simp add: allocatable_def parent_only_def)
        moreover have "parent_exists (path @ ''.tmp.'') w1"
          using s1' nf \<open>allocatable ssl path pw sz w\<close> by (simp add: allocatable_def parent_exists_def before_last_slash_suffix)
        ultimately show False using s2'(5) None s1' nf by (auto simp: parent_only_def)
      qed
      moreover have "allocated ssl path pw sz w (-1) w2"
        using early s2'(1,2) s2'(3) [OF None] names_env(4) [OF s2] by (auto simp: allocated_def)
      ultimately show ?thesis by simp
    next
      case (Some temp)
      then obtain s where t: "temp = path @ ''.tmp.'' @ s" "w_files w1 temp = None"
        "w_files w2 = (w_files w1)(temp \<mapsto> \<lparr>fn_data = [], fn_mode = mode_0600\<rparr>)"
        using s2'(4) [OF Some] by auto
      have t2: "w_files w2 temp = Some \<lparr>fn_data = [], fn_mode = mode_0600\<rparr>" "temp \<noteq> ''''" "temp \<noteq> path"
        using t by simp_all
      have good: "w_dirs w2 path = None \<and> seals ssl pw" if "allocatable ssl path pw sz w"
        using that s2'(1) p1 [of "[]"] by (simp add: allocatable_def)
      have "published ssl path pw sz temp (allocatable ssl path pw sz w) w2
          (padlock_allocate ssl (Some path) sz (Some pw) w)"
        using allocate_filled [OF laws min sz t2 good] False s1 s2 Some by (simp add: padlock_allocate_def)
      then obtain rc w' where run: "padlock_allocate ssl (Some path) sz (Some pw) w = Some (rc, w')"
        and pub: "published ssl path pw sz temp (allocatable ssl path pw sz w) w2 (Some (rc, w'))"
        by (auto simp: published_def split: option.splits)
      have nf: "w_faults w = [] \<Longrightarrow> w_faults w2 = []" using s1' s2'(2) by (auto simp: parent_only_def)
      have old: "w_files w temp = None" "temp \<noteq> path" using t(2) t2(3) s1' by (auto simp: parent_only_def)
      have faults: "set (w_faults w') \<subseteq> set (w_faults w)" "w_env w' = w_env w"
        "\<And>p. before_last_slash path \<noteq> Some p \<Longrightarrow> w_dirs w' p = w_dirs w p"
        using pub s1' s2'(1,2) names_env(4) [OF s2] by (auto simp: published_def parent_only_def)
      have "allocated ssl path pw sz w rc w'"
      proof (cases "rc = 0")
        case True
        then obtain n where n: "w_files w' = ((w_files w2)(temp := None))(path \<mapsto> n)" "fn_mode n = mode_0600"
          "length (fn_data n) = unat sz" "store_ok ssl pw (fn_data n) []"
          using pub by (auto simp: published_def)
        have "w_files w' = (w_files w1)(path \<mapsto> n)" using n(1) t(2,3) old(2) by (auto simp: fun_eq_iff)
        then show ?thesis using True n(2-4) s1' faults by (auto simp: allocated_def parent_only_def)
      next
        case False
        then have rc: "rc = -1" and p: "\<And>p. p \<noteq> temp \<Longrightarrow> w_files w' p = w_files w1 p" and
          nodebris: "w_faults w = [] \<Longrightarrow> w_files w' temp = None"
          using pub nf t(3) by (auto simp: published_def)
        have "w_files w' q = w_files w q" if "before_last_slash path \<noteq> Some q" "w_files w q \<noteq> None" for q
          using that old p [of q] s1' by (cases "q = temp") (auto simp: parent_only_def)
        moreover have "w_files w' q = None" if "w_faults w = []" "w_files w q = None" for q
          using that nodebris p [of q] s1' by (cases "q = temp") (auto simp: parent_only_def)
        moreover have "w_files w' path = w_files w path" using p [of path] old(2) p1 [of "[]"] by simp
        ultimately show ?thesis using rc faults by (simp add: allocated_def)
      qed
      moreover have "w_faults w = [] \<longrightarrow> allocatable ssl path pw sz w \<longrightarrow> rc = 0"
        using pub nf by (auto simp: published_def split: if_splits)
      ultimately show ?thesis using run by blast
    qed
  qed
qed

end
