(* ===== verification/Padlock_Sample.thy ===== *)
theory Padlock_Sample
  imports Padlock_Get Padlock_Set Padlock_Allocate
begin

text \<open>
  A small concrete instance of the OpenSSL interface and of the world, on which the hypotheses of
  the theorems hold. \<open>sample_ssl\<close> masks every byte with a byte of the key and of the IV; its CBC
  mode collects the message and pads it at the end, as the library does, its XTS mode works in
  place. It is no cipher, but it satisfies \<open>ssl_laws\<close>.
\<close>

unbundle bit_operations_syntax

section \<open>A concrete instance of the OpenSSL interface\<close>

type_synonym sample_ctx = "evp_cipher \<times> byte \<times> byte list"

definition mask_byte :: "byte list \<Rightarrow> byte list \<Rightarrow> byte" where
  "mask_byte key v = foldr (+) key 0 + foldr (+) v 1"

abbreviation masked :: "byte \<Rightarrow> byte list \<Rightarrow> byte list" where
  "masked m p \<equiv> map (\<lambda>b. b XOR m) p"

definition sample_pad :: "byte list \<Rightarrow> byte list" where
  "sample_pad p = (let n = 16 - length p mod 16 in p @ replicate n (of_nat n))"

definition sample_unpad :: "byte list \<Rightarrow> byte list option" where
  "sample_unpad p =
     (if p = [] \<or> length p mod 16 \<noteq> 0 \<or> unat (last p) = 0 \<or> unat (last p) > 16 then None
      else Some (take (length p - unat (last p)) p))"

definition sample_init :: "evp_cipher \<Rightarrow> byte list \<Rightarrow> byte list \<Rightarrow> sample_ctx option" where
  "sample_init cipher key v = Some (cipher, mask_byte key v, [])"

definition sample_update :: "sample_ctx \<Rightarrow> byte list \<Rightarrow> int \<Rightarrow> (sample_ctx \<times> byte list) option" where
  "sample_update ctx p inl =
     (case ctx of
        (EVP_aes_256_cbc, m, _) \<Rightarrow> Some ((EVP_aes_256_cbc, m, p), [])
      | (EVP_aes_256_xts, m, _) \<Rightarrow>
          if length p < 16 then None else Some ((EVP_aes_256_xts, m, []), masked m p))"

definition sample_encrypt_final :: "sample_ctx \<Rightarrow> byte list option" where
  "sample_encrypt_final ctx =
     (case ctx of
        (EVP_aes_256_cbc, m, p) \<Rightarrow> Some (masked m (sample_pad p))
      | (EVP_aes_256_xts, _) \<Rightarrow> Some [])"

definition sample_decrypt_final :: "sample_ctx \<Rightarrow> byte list option" where
  "sample_decrypt_final ctx =
     (case ctx of
        (EVP_aes_256_cbc, m, p) \<Rightarrow> sample_unpad (masked m p)
      | (EVP_aes_256_xts, _) \<Rightarrow> Some [])"

definition sample_ssl :: "sample_ctx openssl" where
  "sample_ssl =
     \<lparr>PKCS5_PBKDF2_HMAC_sha256 = (\<lambda>pass len slt iter n. Some (replicate n (mask_byte pass slt))),
      HMAC_sha256 = (\<lambda>k m. Some (replicate 32 (mask_byte k m))),
      EVP_EncryptInit_ex = sample_init,
      EVP_EncryptUpdate = sample_update,
      EVP_EncryptFinal_ex = sample_encrypt_final,
      EVP_DecryptInit_ex = sample_init,
      EVP_DecryptUpdate = sample_update,
      EVP_DecryptFinal_ex = sample_decrypt_final,
      EVP_CIPHER_CTX_set_padding = (\<lambda>c _. c)\<rparr>"

lemma length_sample_pad: "length (sample_pad p) = 16 * (length p div 16 + 1)"
proof -
  have "length p = 16 * (length p div 16) + length p mod 16" by simp
  moreover have "length p mod 16 < 16" by simp
  ultimately have "length p + (16 - length p mod 16) = 16 * (length p div 16) + 16" by linarith
  then show ?thesis by (simp add: sample_pad_def Let_def)
qed

lemma sample_unpad_pad: "sample_unpad (sample_pad p) = Some p"
proof -
  define n where "n = 16 - length p mod 16"
  have n: "0 < n" "n \<le> 16" by (simp_all add: n_def)
  then have u: "unat (of_nat n :: byte) = n" by (simp add: unsigned_of_nat take_bit_nat_eq_self)
  have pad: "sample_pad p = p @ replicate n (of_nat n)" by (simp add: sample_pad_def n_def Let_def)
  have "length (sample_pad p) mod 16 = 0" by (simp add: length_sample_pad)
  with n u pad show ?thesis by (simp add: sample_unpad_def)
qed

lemma sample_whole:
  "evp_whole sample_ssl True EVP_aes_256_cbc k v p = Some (masked (mask_byte k v) (sample_pad p))"
  "evp_whole sample_ssl False EVP_aes_256_cbc k v p = sample_unpad (masked (mask_byte k v) p)"
  "evp_whole sample_ssl enc EVP_aes_256_xts k v p = (if length p < 16 then None else Some (masked (mask_byte k v) p))"
  by (auto simp: evp_whole_def cipher_init_def cipher_update_def cipher_final_def set_padding_def sample_ssl_def
      sample_init_def sample_update_def sample_encrypt_final_def sample_decrypt_final_def split: option.splits)

lemma sample_unpad_length: "sample_unpad p = Some q \<Longrightarrow> length q \<le> length p"
  by (auto simp: sample_unpad_def split: if_splits)

lemma masked_twice [simp]: "map ((\<lambda>b. b XOR m) \<circ> (\<lambda>b. b XOR m)) p = (p :: byte list)"
  by (simp add: comp_def xor.assoc)

lemma sample_laws: "ssl_laws sample_ssl"
proof -
  note defs = cipher_init_def cipher_update_def cipher_final_def set_padding_def sample_ssl_def
    sample_init_def sample_update_def sample_encrypt_final_def sample_decrypt_final_def
  have "kdf_laws sample_ssl" by (auto simp: kdf_laws_def sample_ssl_def)
  moreover have "evp_bound sample_ssl True EVP_aes_256_cbc (\<lambda>n. 16 * (n div 16 + 1))"
    by (auto simp: evp_bound_def defs length_sample_pad)
  moreover have "evp_bound sample_ssl False EVP_aes_256_cbc (\<lambda>n. n)"
    by (auto simp: evp_bound_def defs dest: sample_unpad_length)
  ultimately have "kdf_laws sample_ssl" "cbc_laws sample_ssl"
    by (auto simp: cbc_laws_def sample_whole length_sample_pad sample_unpad_pad)
  moreover have "evp_bound sample_ssl enc EVP_aes_256_xts (\<lambda>n. n)" for enc
    by (auto simp: evp_bound_def defs split: if_splits)
  then have "xts_sizes sample_ssl" by (auto simp: xts_sizes_def sample_whole split: if_splits)
  moreover have "xts_inverse sample_ssl" "xts_blockwise sample_ssl"
    by (auto simp: xts_inverse_def xts_blockwise_def sample_whole take_map split: if_splits)
  ultimately show ?thesis by (simp add: ssl_laws_def)
qed

lemma sample_seals: "pw \<noteq> '''' \<Longrightarrow> seals sample_ssl pw"
  by (auto simp: seals_def sealed_secret_def derive_header_key_def sample_whole) (simp add: sample_ssl_def)


section \<open>A concrete store\<close>

definition sample_key :: "byte list" where
  "sample_key = map of_nat [0..<64]"

definition sample_header_for :: "string \<Rightarrow> padlock_header" where
  "sample_header_for pw =
     (fresh_header 8192 (replicate 16 1) (replicate 16 2))
       \<lparr>encrypted_secret :=
           overlay (replicate 128 0) 0
             (the (sealed_secret sample_ssl (Some pw) (fresh_header 8192 (replicate 16 1) (replicate 16 2)) sample_key)),
         encrypted_secret_size := 80\<rparr>"

definition sample_image_for :: "string \<Rightarrow> byte list" where
  "sample_image_for pw = write_at (replicate 8192 0) 0 (the (header_image (sample_header_for pw)))"

abbreviation sample_header :: padlock_header where "sample_header \<equiv> sample_header_for ''pw''"
abbreviation sample_image :: "byte list" where "sample_image \<equiv> sample_image_for ''pw''"

text \<open>The store is the file \<open>/s/p\<close>; no call fails.\<close>

definition sample_world :: world where
  "sample_world =
     \<lparr>w_files = [''/s/p'' \<mapsto> \<lparr>fn_data = sample_image, fn_mode = mode_0600\<rparr>], w_dirs = [''/s'' \<mapsto> mode_0700],
      w_env = Map.empty, w_suffixes = [''aaaaaa''], w_errno = 0, w_faults = [], w_rand = of_nat, w_rpos = 0,
      w_junk = (\<lambda>_. 0xAA), w_open = 0, w_live = 0, w_residue = []\<rparr>"

lemma sample_sealed:
  assumes "pw \<noteq> ''''"
  obtains e where "sealed_secret sample_ssl (Some pw) (fresh_header 8192 (replicate 16 1) (replicate 16 2)) sample_key = Some e"
    "length e = 80"
proof -
  let ?h = "fresh_header 8192 (replicate 16 1) (replicate 16 2)"
  have k: "length sample_key = 64" by (simp add: sample_key_def)
  have "sealed_secret sample_ssl (Some pw) ?h sample_key \<noteq> None"
    using k by (intro sealsD [OF sample_seals [OF assms]]) (simp_all add: header_shape_def fresh_header_def)
  then obtain e where e: "sealed_secret sample_ssl (Some pw) ?h sample_key = Some e" by auto
  have "length e = 80"
    using e k sample_laws by (auto simp: sealed_secret_def ssl_laws_def cbc_laws_def store_secret_def bind_eq_Some_conv)
  with e show thesis by (rule that)
qed

lemma sample_store_for:
  assumes "pw \<noteq> ''''"
  shows "header_of (sample_image_for pw) = Some (sample_header_for pw)"
    "opened_secret sample_ssl (Some pw) (sample_header_for pw) = Some sample_key"
    "store_ok sample_ssl pw (sample_image_for pw) []" "length (sample_image_for pw) = 8192"
proof -
  let ?h = "fresh_header 8192 (replicate 16 1) (replicate 16 2)"
  obtain e where e: "sealed_secret sample_ssl (Some pw) ?h sample_key = Some e" "length e = 80"
    by (rule sample_sealed [OF assms])
  have k: "length sample_key = 64" by (simp add: sample_key_def)
  have h: "(sample_header_for pw) = ?h\<lparr>encrypted_secret := overlay (replicate 128 0) 0 e, encrypted_secret_size := 80\<rparr>"
    using e by (simp add: sample_header_for_def)
  have fs: "header_ok (sample_header_for pw)" "\<And>d. length d = 8192 \<Longrightarrow> header_of d = Some (sample_header_for pw) \<Longrightarrow> store_ok sample_ssl pw d []"
    using fresh_store [OF sample_laws _ _ k _ _ e, folded h] by simp_all
  obtain b where b: "header_image (sample_header_for pw) = Some b" "length b = 4096"
    using header_image_some [of "sample_header_for pw"] fs(1) by (auto simp: header_ok_def)
  show ho: "header_of (sample_image_for pw) = Some (sample_header_for pw)"
    using header_of_write_at [OF fs(1) b(1)] b by (simp add: sample_image_for_def)
  show len: "length (sample_image_for pw) = 8192" using b by (simp add: sample_image_for_def)
  show "store_ok sample_ssl pw (sample_image_for pw) []" using fs(2) [OF len ho] .
  show "opened_secret sample_ssl (Some pw) (sample_header_for pw) = Some sample_key"
    using opened_sealed_secret [OF _ e(1) k] sample_laws by (simp add: h ssl_laws_def fresh_header_def)
qed

lemmas sample_store = sample_store_for [of "''pw''", simplified]

lemma sample_file: "file_data sample_world ''/s/p'' = sample_image" "w_faults sample_world = []"
  by (simp_all add: sample_world_def file_data_def)

text \<open>The world after one successful \<open>padlock_set\<close>.\<close>

definition sample_full :: world where
  "sample_full = snd (the (padlock_set sample_ssl (Some ''/s/p'') (Some ''pw'') (Some ''k'') (Some [7, 8]) 2 sample_world))"

lemma sample_valid: "valid_entry ''k'' [7, 8]"
  by (simp add: valid_entry_def)

lemma sample_accepts_for: "pw \<noteq> '''' \<Longrightarrow> accepts sample_ssl pw (sample_image_for pw) ''k'' [7, 8]"
proof -
  assume pw: "pw \<noteq> ''''"
  have w: "unat (write_offset (sample_header_for pw)) = 4096" "unat (total_size (sample_header_for pw)) = 8192"
    by (simp_all add: sample_header_for_def fresh_header_def)
  show ?thesis
    using sample_store_for(1,2) [OF pw] w by (simp add: accepts_def sample_whole rec_len_def)
qed

lemmas sample_accepts = sample_accepts_for [of "''pw''", simplified]

lemma sample_set:
  "padlock_set sample_ssl (Some ''/s/p'') (Some ''pw'') (Some ''k'') (Some [7, 8]) 2 sample_world = Some (0, sample_full)"
  "store_ok sample_ssl ''pw'' (file_data sample_full ''/s/p'') [(''k'', [7, 8])]" "w_faults sample_full = []"
proof -
  obtain rc w' where run: "padlock_set sample_ssl (Some ''/s/p'') (Some ''pw'') (Some ''k'') (Some [7, 8]) 2 sample_world = Some (rc, w')"
    and out: "set_outcome sample_ssl ''/s/p'' ''pw'' [] ''k'' [7, 8] sample_world rc w'"
    using padlock_set_log [OF sample_laws, of "''pw''" sample_world "''/s/p''" "[]" "''k''" "[7, 8]" 2 "[7, 8]"]
      sample_store(3) sample_valid by (auto simp: sample_file)
  have "rc = 0" "store_ok sample_ssl ''pw'' (file_data w' ''/s/p'') [(''k'', [7, 8])]" "w_faults w' = []"
    using out sample_accepts by (auto simp: set_outcome_def sample_file edits_def)
  with run show "padlock_set sample_ssl (Some ''/s/p'') (Some ''pw'') (Some ''k'') (Some [7, 8]) 2 sample_world = Some (0, sample_full)"
    "store_ok sample_ssl ''pw'' (file_data sample_full ''/s/p'') [(''k'', [7, 8])]" "w_faults sample_full = []"
    by (simp_all add: sample_full_def)
qed

end
