(* ===== verification/Padlock_Keystore.thy ===== *)
theory Padlock_Keystore
  imports Padlock_Sample
begin

text \<open>
  The store operations as a keystore: a file is a store for at most one log, so the log is a
  function of the file, and \<open>padlock_set\<close> and \<open>padlock_get\<close> satisfy the laws of the interface
  \<open>keystore\<close>. The interpretation gives the behaviour of any sequence of calls.
\<close>

section \<open>The log of a file is unique\<close>

lemma plain_record_prefix:
  assumes kv: "valid_entry k v" "valid_entry k' v'"
    and le: "rec_len (length k) (length v) \<le> rec_len (length k') (length v')"
    and eq: "take (rec_len (length k) (length v)) (plain_record k' v') = plain_record k v"
  shows "k = k' \<and> v = v'"
proof -
  let ?n = "rec_len (length k) (length v)"
  have same: "window (plain_record k v) o' i = window (plain_record k' v') o' i" if "o' + i \<le> ?n" for o' i
    using that window_take [of o' i ?n "plain_record k' v'"] eq le by simp
  note ge = rec_len_ge [of "length k" "length v"]
  have "plain_record k v ! 0 = plain_record k' v' ! 0"
    using nth_take [of 0 ?n "plain_record k' v'"] eq ge by simp
  then have "(of_nat (length k) :: byte) = of_nat (length k')"
    by (simp only: plain_record_fields(1))
  then have kl: "length k = length k'"
    using kv unat_key_length by metis
  have "window (plain_record k v) (1 + length k) 4 = window (plain_record k' v') (1 + length k) 4"
    using same ge by simp
  then have "u32_bytes (of_nat (length v)) = u32_bytes (of_nat (length v'))"
    by (metis kl plain_record_fields(3))
  then have vl: "length v = length v'"
    using kv unat_value_length by (metis u32_of_u32_bytes)
  have "plain_record k v = plain_record k' v'" using eq kl vl by simp
  then show ?thesis by (rule plain_record_inject [OF kv])
qed

lemma stored_record_unique:
  assumes block: "xts_blockwise ssl" and kv: "valid_entry k v" "valid_entry k' v'"
    and le: "rec_len (length k) (length v) \<le> rec_len (length k') (length v')"
    and d: "xts_unit ssl False xk off (window d o' (rec_len (length k) (length v))) = Some (plain_record k v)"
      "xts_unit ssl False xk off (window d o' (rec_len (length k') (length v'))) = Some (plain_record k' v')"
    and fits: "o' + rec_len (length k') (length v') \<le> length d"
  shows "k = k' \<and> v = v'"
proof (rule plain_record_prefix [OF kv le])
  let ?n = "rec_len (length k) (length v)" and ?m = "rec_len (length k') (length v')"
  have "xts_unit ssl False xk off (take ?n (window d o' ?m)) = Some (take ?n (plain_record k' v'))"
    using block d(2) le fits rec_len_16 [of "length k" "length v"] unfolding xts_blockwise_def by simp
  then show "take ?n (plain_record k' v') = plain_record k v"
    using d(1) le by (simp add: take_window)
qed

lemma stored_unique:
  assumes block: "xts_blockwise ssl"
  shows "stored ssl xk d off es e \<Longrightarrow> stored ssl xk d off es' e \<Longrightarrow> es = es'"
proof (induction es arbitrary: off es')
  case Nil
  then show ?case
  proof (cases es')
    case (Cons b bs)
    then obtain k v where "b = (k, v)" by (cases b)
    with Nil Cons show ?thesis
      using rec_len_16 [of "length k" "length v"] stored_bounds [of ssl xk d "off + rec_len (length k) (length v)" bs e] by simp
  qed simp
next
  case (Cons a as)
  obtain k v where a: "a = (k, v)" by (cases a)
  show ?case
  proof (cases es')
    case Nil
    with Cons.prems a show ?thesis
      using rec_len_16 [of "length k" "length v"] stored_bounds [of ssl xk d "off + rec_len (length k) (length v)" as e] by simp
  next
    case (Cons b bs)
    obtain k' v' where b: "b = (k', v')" by (cases b)
    have "k = k' \<and> v = v'"
    proof (cases "rec_len (length k) (length v) \<le> rec_len (length k') (length v')")
      case True
      then show ?thesis
        using Cons.prems Cons a b by (intro stored_record_unique [OF block, of k v k' v' xk "of_nat off" d off]) auto
    next
      case False
      then have "k' = k \<and> v' = v"
        using Cons.prems Cons a b by (intro stored_record_unique [OF block, of k' v' k v xk "of_nat off" d off]) auto
      then show ?thesis by simp
    qed
    then show ?thesis
      using Cons.IH [of "off + rec_len (length k) (length v)" bs] Cons.prems Cons a b by auto
  qed
qed

lemma store_ok_unique:
  assumes "ssl_laws ssl" "store_ok ssl pw d es" "store_ok ssl pw d es'"
  shows "es = es'"
  using assms stored_unique [of ssl] by (auto simp: store_ok_def ssl_laws_def)

section \<open>The store as a keystore\<close>

definition store_inv :: "'c openssl \<Rightarrow> string \<Rightarrow> string \<Rightarrow> world \<Rightarrow> bool" where
  "store_inv ssl path pw w \<longleftrightarrow>
     ssl_laws ssl \<and> w_faults w = [] \<and> (\<exists>es. store_ok ssl pw (file_data w path) es)"

definition store_log :: "'c openssl \<Rightarrow> string \<Rightarrow> string \<Rightarrow> world \<Rightarrow> entry list" where
  "store_log ssl path pw w = (THE es. store_ok ssl pw (file_data w path) es)"

text \<open>
  A client's calls, with \<open>None\<close> where they have undefined behaviour; \<open>get\<close> copies the value out of the buffer.
\<close>

definition store_put :: "'c openssl \<Rightarrow> string \<Rightarrow> string \<Rightarrow> string \<Rightarrow> byte list \<Rightarrow> world \<Rightarrow> (bool \<times> world) option" where
  "store_put ssl path pw k v w =
     map_option (\<lambda>(rc, w'). (rc = 0, w')) (padlock_set ssl (Some path) (Some pw) (Some k) (Some v) (of_nat (length v)) w)"

definition store_get :: "'c openssl \<Rightarrow> string \<Rightarrow> string \<Rightarrow> string \<Rightarrow> world \<Rightarrow> byte list option option" where
  "store_get ssl path pw k w =
     map_option (\<lambda>(rc, (b, n), w'). if rc = 0 then map_option (take (unat n)) b else None)
       (padlock_get ssl (Some path) (Some pw) (Some k) True w)"

text \<open>What a store takes: a key of 1 to 255 bytes, with its value, where there is room.\<close>

definition store_takes :: "'c openssl \<Rightarrow> string \<Rightarrow> string \<Rightarrow> world \<Rightarrow> string \<Rightarrow> byte list \<Rightarrow> bool" where
  "store_takes ssl path pw w k v \<longleftrightarrow> valid_entry k v \<and> accepts ssl pw (file_data w path) k v"

lemma store_log_eq: "ssl_laws ssl \<Longrightarrow> store_ok ssl pw (file_data w path) es \<Longrightarrow> store_log ssl path pw w = es"
  unfolding store_log_def by (rule the_equality) (auto intro: store_ok_unique)

lemma store_inv_log: "store_inv ssl path pw w \<Longrightarrow> store_ok ssl pw (file_data w path) (store_log ssl path pw w)"
  by (auto simp: store_inv_def store_log_eq)

lemma stored_valid: "stored ssl xk d off es e \<Longrightarrow> (k, v) \<in> set es \<Longrightarrow> valid_entry k v"
  by (induction es arbitrary: off) auto

lemma lookup_valid: "store_ok ssl pw d es \<Longrightarrow> lookup es k = Some v \<Longrightarrow> valid_entry k v"
  unfolding store_ok_def lookup_def by (blast dest: map_of_SomeD stored_valid [where k = k and v = v] set_rev [THEN equalityD1, THEN subsetD])

lemma store_get_lookup:
  assumes "store_inv ssl path pw w"
  shows "store_get ssl path pw k w = Some (lookup (store_log ssl path pw w) k)"
proof -
  have laws: "ssl_laws ssl" and nf: "w_faults w = []" using assms by (simp_all add: store_inv_def)
  note log = store_inv_log [OF assms]
  obtain rc res w' where run: "padlock_get ssl (Some path) (Some pw) (Some k) True w = Some (rc, res, w')"
    and ans: "get_answer (store_log ssl path pw w) k rc res"
    by (rule padlock_get_log [OF laws log, of k]) (use nf that in auto)
  then show ?thesis
  proof (cases "lookup (store_log ssl path pw w) k")
    case (Some v)
    have "unat (of_nat (length v) :: u32) = length v"
      by (rule unat_value_length [OF lookup_valid [OF log Some]])
    with Some run ans show ?thesis by (simp add: store_get_def get_answer_def)
  qed (simp add: store_get_def get_answer_def)
qed

lemma padlock_set_step:
  assumes laws: "ssl_laws ssl" and store: "store_ok ssl pw (file_data w path) es" and nf: "w_faults w = []" and r: "in_range k v"
  obtains rc w' where "padlock_set ssl (Some path) (Some pw) (Some k) (Some v) (of_nat (length v)) w = Some (rc, w')" "edits path w w'"
    "if store_takes ssl path pw w k v then rc = 0 \<and> store_ok ssl pw (file_data w' path) (es @ [(k, v)])
     else rc = -1 \<and> file_data w' path = file_data w path"
proof (cases "valid_entry k v")
  case True
  have "\<exists>rc w'. padlock_set ssl (Some path) (Some pw) (Some k) (Some v) (of_nat (length v)) w = Some (rc, w') \<and>
      set_outcome ssl path pw es k v w rc w'"
    using padlock_set_log [OF laws store True, of "of_nat (length v)" v] nf unat_value_length [OF True] by simp
  then show ?thesis using that nf True by (auto simp: set_outcome_def store_takes_def)
next
  case False
  then have "length k = 0 \<or> 255 < length k" using r by (auto simp: valid_entry_def in_range_def)
  then show ?thesis
    by (rule_tac that [of "-1" w]) (use False in \<open>auto simp: padlock_set_def store_takes_def edits_def\<close>)
qed

lemma store_put_step:
  assumes inv: "store_inv ssl path pw w" and r: "in_range k v"
  shows "\<exists>w'. store_put ssl path pw k v w = Some (store_takes ssl path pw w k v, w') \<and> store_inv ssl path pw w' \<and>
    store_log ssl path pw w' = store_log ssl path pw w @ (if store_takes ssl path pw w k v then [(k, v)] else [])"
proof -
  have laws: "ssl_laws ssl" and nf: "w_faults w = []" using inv by (simp_all add: store_inv_def)
  note log = store_inv_log [OF inv]
  obtain rc w' where run: "padlock_set ssl (Some path) (Some pw) (Some k) (Some v) (of_nat (length v)) w = Some (rc, w')"
    and e: "edits path w w'" and out: "if store_takes ssl path pw w k v
      then rc = 0 \<and> store_ok ssl pw (file_data w' path) (store_log ssl path pw w @ [(k, v)])
      else rc = -1 \<and> file_data w' path = file_data w path"
    by (rule padlock_set_step [OF laws log nf r])
  have ok: "store_ok ssl pw (file_data w' path) (store_log ssl path pw w @ (if store_takes ssl path pw w k v then [(k, v)] else []))"
    using out log by (auto split: if_splits)
  moreover have "w_faults w' = []" using e nf by (simp add: edits_def)
  ultimately have "store_inv ssl path pw w'" using laws by (auto simp: store_inv_def)
  with run out store_log_eq [OF laws ok] show ?thesis by (auto simp: store_put_def split: if_splits)
qed

interpretation store: keystore "store_inv ssl path pw" "store_log ssl path pw" in_range "store_takes ssl path pw"
    "store_put ssl path pw" "store_get ssl path pw"
  for ssl path pw
  by unfold_locales (rule store_put_step, assumption+, rule store_get_lookup)

end
