(* ===== verification/Padlock_Theorems.thy ===== *)
theory Padlock_Theorems
  imports Padlock_Keystore
begin

text \<open>
  The properties of the store operations, each with an application to the concrete store of
  \<^verbatim>\<open>Padlock_Sample\<close> where it has hypotheses. The proofs are in the theories of the components.
\<close>

section \<open>Reading\<close>

text \<open>
  C1: \<open>padlock_get\<close> on a store with log \<open>es\<close>, for every sequence of failing calls: it returns
  without undefined behaviour, leaves all files unchanged, and either fails with cleared results or
  returns the value last set for the key, followed by a zero byte, with its length. If no call
  fails it returns the value exactly when the key is in the log.
\<close>

theorem get_returns_last_value:
  assumes "ssl_laws ssl" "store_ok ssl pw (file_data w path) es"
  shows "\<exists>rc result w'. padlock_get ssl (Some path) (Some pw) (Some key) True w = Some (rc, result, w') \<and>
    w_files w' = w_files w \<and> (rc = -1 \<and> result = (None, 0) \<or> get_answer es key rc result) \<and>
    (w_faults w = [] \<longrightarrow> get_answer es key rc result)"
proof -
  obtain rc result w' where
    "padlock_get ssl (Some path) (Some pw) (Some key) True w = Some (rc, result, w')" "file_frame w w'"
    "rc = -1 \<and> result = (None, 0) \<or> get_answer es key rc result" "w_faults w = [] \<longrightarrow> get_answer es key rc result"
    by (rule padlock_get_log [OF assms]) (rule that)
  then show ?thesis by (auto simp: file_frame_def)
qed

theorem get_returns_last_value_witness:
  "\<exists>w'. padlock_get sample_ssl (Some ''/s/p'') (Some ''pw'') (Some ''k'') True sample_full = Some (0, (Some [7, 8, 0], 2), w')"
  using get_returns_last_value [OF sample_laws sample_set(2), of "''k''"] sample_set(3)
  by (auto simp: get_answer_def lookup_def)

section \<open>Writing\<close>

text \<open>
  C2: \<open>padlock_set\<close> on a store, for every sequence of failing and short calls except a header write
  that stops inside the eight bytes of the write offset: it returns without undefined behaviour, only
  the contents of the store's file change, and the file is then a store with the old log or with
  the new entry appended. When the call fails and no transfer was short the log is the old one.
\<close>

theorem set_is_atomic:
  assumes "ssl_laws ssl" "store_ok ssl pw (file_data w path) es"
    and "valid_entry key (take (unat vl) val)" "unat vl \<le> length val"
    and "\<forall>j. 32 < j \<and> j < 40 \<longrightarrow> Short j \<notin> set (w_faults w)"
  shows "\<exists>rc w'. padlock_set ssl (Some path) (Some pw) (Some key) (Some val) vl w = Some (rc, w') \<and>
    edits path w w' \<and> (rc = 0 \<or> rc = -1) \<and>
    (store_ok ssl pw (file_data w' path) es \<or> store_ok ssl pw (file_data w' path) (es @ [(key, take (unat vl) val)])) \<and>
    (rc = -1 \<longrightarrow> (\<forall>j. Short j \<notin> set (w_faults w)) \<longrightarrow> store_ok ssl pw (file_data w' path) es)"
  using padlock_set_log [OF assms(1-4) refl assms(5)] unfolding set_outcome_def by blast

theorem set_is_atomic_witness:
  "\<exists>rc w'. padlock_set sample_ssl (Some ''/s/p'') (Some ''pw'') (Some ''k'') (Some [7, 8]) 2
      (sample_world\<lparr>w_faults := replicate 9 Pass @ [Fail EIO]\<rparr>) = Some (rc, w') \<and>
    (store_ok sample_ssl ''pw'' (file_data w' ''/s/p'') [] \<or>
     store_ok sample_ssl ''pw'' (file_data w' ''/s/p'') [(''k'', [7, 8])])"
proof -
  have "file_data (sample_world\<lparr>w_faults := replicate 9 Pass @ [Fail EIO]\<rparr>) ''/s/p'' = sample_image"
    using sample_file(1) by (simp add: file_data_def)
  then show ?thesis
    using set_is_atomic [OF sample_laws, of "''pw''" "sample_world\<lparr>w_faults := replicate 9 Pass @ [Fail EIO]\<rparr>"
        "''/s/p''" "[]" "''k''" 2 "[7, 8]"] sample_store(3) sample_valid by auto
qed

text \<open>
  C3: without failing calls \<open>padlock_set\<close> appends the entry exactly when the record fits behind the
  write offset and the cipher accepts it, and otherwise returns -1 and leaves the file as it was.
\<close>

theorem set_appends:
  assumes "ssl_laws ssl" "store_ok ssl pw (file_data w path) es" "w_faults w = []"
    and "valid_entry key (take (unat vl) val)" "unat vl \<le> length val"
  shows "\<exists>rc w'. padlock_set ssl (Some path) (Some pw) (Some key) (Some val) vl w = Some (rc, w') \<and>
    (if accepts ssl pw (file_data w path) key (take (unat vl) val)
     then rc = 0 \<and> store_ok ssl pw (file_data w' path) (es @ [(key, take (unat vl) val)])
     else rc = -1 \<and> file_data w' path = file_data w path)"
proof -
  have "\<forall>j. 32 < j \<and> j < 40 \<longrightarrow> Short j \<notin> set (w_faults w)" using assms(3) by simp
  from padlock_set_log [OF assms(1,2,4,5) refl this] show ?thesis
    using assms(3) unfolding set_outcome_def by blast
qed

theorem set_appends_witness:
  "\<exists>w'. padlock_set sample_ssl (Some ''/s/p'') (Some ''pw'') (Some ''k'') (Some [7, 8, 9]) 2 sample_world = Some (0, w') \<and>
    store_ok sample_ssl ''pw'' (file_data w' ''/s/p'') [(''k'', [7, 8])]"
  using set_appends [OF sample_laws _ sample_file(2), of "''pw''" "''/s/p''" "[]" "''k''" 2 "[7, 8, 9]"]
    sample_store(3) sample_valid sample_accepts by (simp add: sample_file)

section \<open>Sequences of calls\<close>

text \<open>
  C5: any sequence of sets on a store, of entries whose record is below \<open>2 ^ 31\<close> bytes and whatever the
  length of their keys, without failing calls: no call has undefined behaviour, each succeeds exactly when
  its key has 1 to 255 bytes, the record fits and the cipher accepts it, the store stays a store, and a get
  then returns the value of the last set of that key that succeeded, or what the store held before.
\<close>

theorem get_after_sets:
  assumes "store_inv ssl path pw w" "\<forall>(k, v)\<in>set es. in_range k v"
  shows "(\<exists>oks w'. puts (store_put ssl path pw) es w = Some (oks, w') \<and> length oks = length es \<and> store_inv ssl path pw w' \<and>
      (\<forall>k. store_get ssl path pw k w' = Some (lookup (store_log ssl path pw w @ accepted oks es) k))) \<and>
    (\<forall>(k, v)\<in>set es. \<exists>w'. store_put ssl path pw k v w = Some (valid_entry k v \<and> accepts ssl pw (file_data w path) k v, w'))"
proof
  show "\<exists>oks w'. puts (store_put ssl path pw) es w = Some (oks, w') \<and> length oks = length es \<and> store_inv ssl path pw w' \<and>
      (\<forall>k. store_get ssl path pw k w' = Some (lookup (store_log ssl path pw w @ accepted oks es) k))"
    using store.get_puts [OF assms] by blast
  show "\<forall>(k, v)\<in>set es. \<exists>w'. store_put ssl path pw k v w = Some (valid_entry k v \<and> accepts ssl pw (file_data w path) k v, w')"
    using store.put_step [OF assms(1)] assms(2) by (fastforce simp: store_takes_def)
qed

lemma sample_inv: "store_inv sample_ssl ''/s/p'' ''pw'' sample_full" "store_log sample_ssl ''/s/p'' ''pw'' sample_full = [(''k'', [7, 8])]"
  "store_inv sample_ssl ''/s/p'' ''pw'' sample_world" "store_log sample_ssl ''/s/p'' ''pw'' sample_world = []"
  using sample_laws sample_set sample_store(3) by (auto simp: store_inv_def store_log_eq sample_file)

theorem get_after_sets_witness:
  "\<exists>oks w'. puts (store_put sample_ssl ''/s/p'' ''pw'') [(''k'', [7, 8]), (replicate 256 CHR ''x'', [1])] sample_world = Some (oks, w') \<and>
     store_get sample_ssl ''/s/p'' ''pw'' ''k'' w' = Some (Some [7, 8]) \<and> length oks = 2"
proof -
  let ?es = "[(''k'', [7, 8]), (replicate 256 CHR ''x'', [1])] :: entry list"
  note s = get_after_sets [OF sample_inv(3), of ?es]
  have r: "\<forall>(k, v)\<in>set ?es. in_range k v" by (simp add: in_range_def)
  have "store_put sample_ssl ''/s/p'' ''pw'' ''k'' [7, 8] sample_world = Some (True, sample_full)"
    using sample_set(1) by (simp add: store_put_def)
  moreover have "store_put sample_ssl ''/s/p'' ''pw'' (replicate 256 CHR ''x'') [1] sample_full = Some (False, sample_full)"
    by (simp add: store_put_def padlock_set_def)
  ultimately show ?thesis using s [OF r] sample_inv(4) by (auto simp: lookup_def)
qed

text \<open>
  A set that succeeds is seen by the next get of its key, and no set, successful or not,
  changes what a get of another key returns.
\<close>

theorem get_after_set:
  assumes "store_inv ssl path pw w" "in_range k v" "store_put ssl path pw k v w = Some (ok, w')"
  shows "(ok \<longrightarrow> store_get ssl path pw k w' = Some (Some v)) \<and>
    (k' \<noteq> k \<longrightarrow> store_get ssl path pw k' w' = store_get ssl path pw k' w)"
  using store.get_put_same [OF assms(1,2)] store.get_put_other [OF assms] assms(3) by simp

section \<open>Creating\<close>

text \<open>
  C4: \<open>padlock_allocate\<close>, for every sequence of failing and short calls: it returns without undefined
  behaviour; no existing file but the path (and the mode of its parent) is touched; on success the
  path is a file of the requested size and mode 0600 that is a store with the empty log under the
  password; on failure the path is as it was, and if no call failed nothing is left behind.
\<close>

theorem allocate_is_atomic:
  assumes "ssl_laws ssl" "unat sz < 2 ^ 63"
  shows "\<exists>rc w'. padlock_allocate ssl (Some path) sz (Some pw) w = Some (rc, w') \<and> allocated ssl path pw sz w rc w'"
  using padlock_allocate_log [OF assms] by blast

theorem allocate_is_atomic_witness:
  "\<exists>rc w'. padlock_allocate sample_ssl (Some ''/s/q'') 8192 (Some ''pw'') (sample_world\<lparr>w_faults := [Pass, Fail EIO, Short 7]\<rparr>) = Some (rc, w') \<and>
    w_files w' ''/s/p'' = w_files sample_world ''/s/p''"
proof -
  have slash: "before_last_slash ''/s/q'' = Some ''/s''" by (simp add: before_last_slash_def)
  obtain rc w' where "padlock_allocate sample_ssl (Some ''/s/q'') 8192 (Some ''pw'') (sample_world\<lparr>w_faults := [Pass, Fail EIO, Short 7]\<rparr>) = Some (rc, w')"
    and "allocated sample_ssl ''/s/q'' ''pw'' 8192 (sample_world\<lparr>w_faults := [Pass, Fail EIO, Short 7]\<rparr>) rc w'"
    using allocate_is_atomic [OF sample_laws, of 8192 "''/s/q''" "''pw''" "sample_world\<lparr>w_faults := [Pass, Fail EIO, Short 7]\<rparr>"] by auto
  then show ?thesis using slash by (auto simp: allocated_def sample_world_def)
qed

text \<open>
  C6: creating a store and using it: without failing calls, on a path whose parent is a directory or can be
  made, and with a password that can seal, \<open>padlock_allocate\<close> succeeds, every get on the new store fails with
  cleared results, and a set of an entry below \<open>2 ^ 31\<close> bytes succeeds exactly when its key has 1 to 255 bytes,
  it fits and the cipher accepts it, and is then returned by get.
\<close>

theorem allocate_set_get:
  assumes "ssl_laws ssl" "unat sz < 2 ^ 63" "w_faults w = []" "allocatable ssl path pw sz w"
  shows "\<exists>w'. padlock_allocate ssl (Some path) sz (Some pw) w = Some (0, w') \<and>
    store_inv ssl path pw w' \<and> (\<forall>k. store_get ssl path pw k w' = Some None) \<and>
    (\<forall>k v. in_range k v \<longrightarrow> (\<exists>w''. store_put ssl path pw k v w' = Some (valid_entry k v \<and> accepts ssl pw (file_data w' path) k v, w'') \<and>
       store_get ssl path pw k w'' = Some (if valid_entry k v \<and> accepts ssl pw (file_data w' path) k v then Some v else None)))"
proof -
  obtain w' where run: "padlock_allocate ssl (Some path) sz (Some pw) w = Some (0, w')"
    and a: "allocated ssl path pw sz w 0 w'"
    using padlock_allocate_log [OF assms(1,2), of path pw w] assms(3,4) by auto
  have s: "store_ok ssl pw (file_data w' path) []" using a by (auto simp: allocated_def file_data_def)
  have inv: "store_inv ssl path pw w'" using assms(1,3) a s by (auto simp: store_inv_def allocated_def)
  have log: "store_log ssl path pw w' = []" using store_log_eq [OF assms(1) s] .
  have "\<exists>w''. store_put ssl path pw k v w' = Some (valid_entry k v \<and> accepts ssl pw (file_data w' path) k v, w'') \<and>
       store_get ssl path pw k w'' = Some (if valid_entry k v \<and> accepts ssl pw (file_data w' path) k v then Some v else None)"
    if "in_range k v" for k v
    using store.put_step [OF inv that] store.get_lookup by (fastforce simp: store_takes_def log lookup_def)
  then show ?thesis using run inv store.get_lookup [OF inv] log by (auto simp: lookup_def)
qed

theorem allocate_set_get_witness:
  "\<exists>w'. padlock_allocate sample_ssl (Some ''/s/q'') 16384 (Some ''pw'') sample_world = Some (0, w') \<and>
     store_inv sample_ssl ''/s/q'' ''pw'' w' \<and> store_get sample_ssl ''/s/q'' ''pw'' ''k'' w' = Some None"
proof -
  have slash: "before_last_slash ''/s/q'' = Some ''/s''" by (simp add: before_last_slash_def)
  have "allocatable sample_ssl ''/s/q'' ''pw'' 16384 sample_world"
    using sample_seals [of "''pw''"] slash by (simp add: allocatable_def parent_usable_def sample_world_def)
  then show ?thesis
    using allocate_set_get [OF sample_laws _ sample_file(2), of 16384 "''/s/q''" "''pw''"] by auto
qed

section \<open>Values of four gigabytes\<close>

lemma fill_plain_overflow:
  assumes "length p < unat vl"
  shows "fill_plain p key val vl = None"
proof (rule ccontr)
  assume "fill_plain p key val vl \<noteq> None"
  then obtain p1 p2 p3 v p4 where f: "buf_write p 0 [of_nat (length key)] = Some p1" "buf_write p1 1 (bytes key) = Some p2"
    "put_u32 p2 (1 + length key) vl = Some p3" "buf_read val 0 (unat vl) = Some v" "buf_write p3 (1 + length key + 4) v = Some p4"
    by (auto simp: fill_plain_def bind_eq_Some_conv)
  have "length p3 = length p" using buf_write_length [OF f(1)] buf_write_length [OF f(2)] f(3) by (auto simp: put_u32_def dest: buf_write_length)
  moreover have "length v = unat vl" using f(4) by (auto dest: buf_readD)
  ultimately show False using f(5) assms by (auto dest: buf_writeD)
qed

lemma set_length_wrapped:
  assumes "0 < length key" "length key \<le> 255" "2 ^ 32 < 5 + length key + unat vl"
  shows "16 \<le> unat (align16 (1 + of_nat (length key) + 4 + ucast (vl :: u32)))"
    "unat (align16 (1 + of_nat (length key) + 4 + ucast vl)) \<le> 272"
proof -
  have vl: "unat vl < 2 ^ 32" using unsigned_less [of vl, where 'a = nat] by simp
  have u: "unat (1 + of_nat (length key) + 4 + ucast vl :: u64) = 5 + length key + unat vl"
    using assms(2) vl by (simp add: unat_word_ariths unsigned_of_nat unsigned_ucast_eq take_bit_nat_eq_self)
  define r where "r = 5 + length key + unat vl - 2 ^ 32"
  have r: "5 + length key + unat vl = 2 ^ 32 + r" "0 < r" "r < 260" using assms vl by (auto simp: r_def)
  have "(2 ^ 32 + r + 15) mod 2 ^ 64 = 2 ^ 32 + (r + 15)" using r(3) by simp
  then have "(2 ^ 32 + r + 15) mod 2 ^ 64 mod 2 ^ 32 = r + 15" using r(3) by (simp only: mod_add_self1) simp
  then have "unat (align16 (1 + of_nat (length key) + 4 + ucast vl)) = 16 * ((r + 15) div 16)"
    unfolding unat_align16 u r(1) by (rule arg_cong [of _ _ "\<lambda>m. 16 * (m div 16)"])
  moreover have "1 \<le> (r + 15) div 16" "(r + 15) div 16 \<le> 17" using r(2,3) by simp_all
  ultimately show "16 \<le> unat (align16 (1 + of_nat (length key) + 4 + ucast vl))"
    "unat (align16 (1 + of_nat (length key) + 4 + ucast vl)) \<le> 272" by simp_all
qed

text \<open>
  C24: the 32-bit mask of \<open>align16\<close> reaches \<open>padlock_set\<close>: when key and value need more than 4 GB, the buffer is
  allocated with the length that is left modulo \<open>2 ^ 32\<close>, the store takes it whenever 272 bytes are free, and
  the value is copied past the end of the buffer: the call has undefined behaviour.
\<close>

theorem set_overflows_buffer:
  assumes "ssl_laws ssl" "store_ok ssl pw (file_data w path) es" "w_faults w = []" "header_of (file_data w path) = Some h"
    and "0 < length key" "length key \<le> 255" "2 ^ 32 < 5 + length key + unat vl"
    and "unat (write_offset h) + 272 \<le> unat (total_size h)"
  shows "padlock_set ssl (Some path) (Some pw) (Some key) (Some val) vl w = None"
proof -
  obtain xk where d: "opened_secret ssl (Some pw) h = Some xk" "encrypted_secret_size h = 80"
    using assms(2,4) by (auto simp: store_ok_def)
  obtain f w1 where op: "open_store ssl path ''rb+'' pw w = Some ((Some f, Some (h, xk)), w1)" "file_frame w w1"
    by (rule open_store_spec [OF assms(1,4) d, of "''rb+''"]) (use assms(3) in auto)
  have nf: "w_faults w1 = []" using file_frame_no_faults [OF op(2) assms(3)] .
  define n where "n = align16 (1 + of_nat (length key) + 4 + ucast vl)"
  have n: "16 \<le> unat n" "unat n \<le> 272" unfolding n_def using set_length_wrapped [OF assms(5-7)] .
  have "unat (write_offset h + n) = unat (write_offset h) + unat n"
    by (rule unat_add_no_wrap) (use n assms(8) unsigned_less [of "total_size h", where 'a = nat] in simp)
  then have "\<not> n < 16" "\<not> write_offset h + n > total_size h" using n assms(8) by (simp_all add: word_less_nat_alt not_less)
  moreover have "fill_plain (replicate (unat n) 0) key val vl = None"
    by (rule fill_plain_overflow) (use n assms(6,7) in simp)
  ultimately show ?thesis
    using op(1) nf assms(5,6) by (auto simp: padlock_set_def Let_def n_def [simplified, symmetric] calloc_def malloc_def)
qed

theorem set_overflows_buffer_witness:
  "padlock_set sample_ssl (Some ''/s/p'') (Some ''pw'') (Some ''k'') (Some (replicate 4294967295 0)) 0xFFFFFFFF sample_world = None"
  using set_overflows_buffer [OF sample_laws, where pw = "''pw''" and w = sample_world and path = "''/s/p''" and es = "[]" and h = sample_header
      and key = "''k''" and vl = "0xFFFFFFFF" and val = "replicate 4294967295 0"]
    sample_store by (simp add: sample_file) (simp add: sample_header_for_def fresh_header_def)

section \<open>The cryptographic layer\<close>

text \<open>
  C22: what \<open>encrypt_secret\<close> sealed, \<open>decrypt_secret\<close> opens under the same password: whenever sealing
  returns a header, opening that header without failing calls returns the store key.
\<close>

theorem secret_round_trip:
  assumes "ssl_laws ssl" "header_shape h" "length xts_key = 64"
    and "encrypt_secret ssl pw h xts_key w = Some (Some h', w1)" "w_faults w2 = []"
  shows "\<exists>w3. decrypt_secret ssl pw h' w2 = Some (Some xts_key, w3)"
proof -
  have laws: "kdf_laws ssl" "cbc_laws ssl" using assms(1) by (simp_all add: ssl_laws_def)
  obtain e where e: "sealed_secret ssl pw h xts_key = Some e" "length e = 80"
    "h' = h\<lparr>encrypted_secret := overlay (encrypted_secret h) 0 e, encrypted_secret_size := 80\<rparr>"
    by (rule encrypt_secret_spec [OF laws assms(2,3), of pw w]) (use assms(4) in auto)
  have len: "length (encrypted_secret h) = 128" using assms(2) by (simp add: header_shape_def)
  have "header_shape h'" using assms(2) e by (simp add: header_shape_def)
  moreover have "unat (encrypted_secret_size h') \<le> 88" using e by simp
  ultimately show ?thesis
    using decrypt_secret_spec [OF laws, of h' pw w2] opened_sealed_secret [OF laws(2) e(1) assms(3) len] assms(5) e(3)
    by metis
qed

theorem secret_round_trip_witness:
  "\<exists>h' w1 w3. encrypt_secret sample_ssl (Some ''pw'') sample_fields sample_key sample_world = Some (Some h', w1) \<and>
     decrypt_secret sample_ssl (Some ''pw'') h' sample_full = Some (Some sample_key, w3)"
proof -
  have shape: "header_shape sample_fields" by (simp add: header_shape_def sample_fields_def)
  have k: "length sample_key = 64" by (simp add: sample_key_def)
  have laws: "kdf_laws sample_ssl" "cbc_laws sample_ssl" using sample_laws by (simp_all add: ssl_laws_def)
  have "sealed_secret sample_ssl (Some ''pw'') sample_fields sample_key \<noteq> None"
    by (rule sealsD [OF sample_seals shape k]) simp
  then obtain h' w1 where "encrypt_secret sample_ssl (Some ''pw'') sample_fields sample_key sample_world = Some (Some h', w1)"
    by (rule_tac encrypt_secret_spec [OF laws shape k, of "Some ''pw''" sample_world]) (use sample_file(2) in auto)
  then show ?thesis using secret_round_trip [OF sample_laws shape k _ sample_set(3)] by blast
qed

text \<open>
  C23: \<open>encrypt_secret\<close> and \<open>decrypt_secret\<close> leave nothing behind, whatever fails, on every path on which they
  return: the frame they leave holds only zeros in the derived key and in the plaintext, the cipher context is
  freed, and no file, descriptor or random byte is touched. \<open>encrypt_secret\<close> always returns;
  \<open>decrypt_secret\<close> rejects a sealed secret above 128 bytes before it touches anything, and returns on those of
  up to 88 bytes; between the two sizes it returns unless its buffer overflows.
\<close>

theorem secrets_are_scrubbed:
  assumes "ssl_laws ssl" "header_shape h"
  shows "(length xts_key = 64 \<longrightarrow> (\<exists>r w'. encrypt_secret ssl pw h xts_key w = Some (r, w') \<and> io_frame (secret_frame 72 w) w')) \<and>
    (unat (encrypted_secret_size h) > 128 \<longrightarrow> decrypt_secret ssl pw h w = Some (None, w)) \<and>
    (\<forall>r w'. unat (encrypted_secret_size h) \<le> 128 \<longrightarrow> decrypt_secret ssl pw h w = Some (r, w') \<longrightarrow> io_frame (secret_frame 88 w) w') \<and>
    (unat (encrypted_secret_size h) \<le> 88 \<longrightarrow> (\<exists>r w'. decrypt_secret ssl pw h w = Some (r, w') \<and> io_frame (secret_frame 88 w) w'))"
proof -
  have laws: "kdf_laws ssl" "cbc_laws ssl" using assms(1) by (simp_all add: ssl_laws_def)
  have "\<exists>r w'. encrypt_secret ssl pw h xts_key w = Some (r, w') \<and> io_frame (secret_frame 72 w) w'" if "length xts_key = 64"
    by (rule encrypt_secret_spec [OF laws assms(2) that]) blast
  moreover have "decrypt_secret ssl pw h w = Some (None, w)" if "unat (encrypted_secret_size h) > 128"
    using that by (simp add: decrypt_secret_def word_less_nat_alt)
  moreover have "\<exists>r w'. decrypt_secret ssl pw h w = Some (r, w') \<and> io_frame (secret_frame 88 w) w'"
    if "unat (encrypted_secret_size h) \<le> 88"
    by (rule decrypt_secret_spec [OF laws assms(2) that]) blast
  ultimately show ?thesis using decrypt_secret_scrubs [OF laws(1)] by blast
qed

theorem secrets_are_scrubbed_witness:
  "\<exists>r w'. decrypt_secret sample_ssl (Some ''wrong'') sample_fields sample_world = Some (r, w') \<and>
     w_residue w' = [(''secret'', replicate 88 0), (''key'', replicate 32 0)]"
  using secrets_are_scrubbed [OF sample_laws, of sample_fields sample_key "Some ''wrong''" sample_world]
  by (auto simp: header_shape_def sample_fields_def io_frame_def leave_def sample_world_def)

text \<open>
  C25: \<open>decrypt_secret\<close> has a plaintext buffer of 88 bytes but accepts sealed secrets of up to 128:
  on a header for which the cipher returns more than 88 bytes it writes past the end of the buffer.
\<close>

theorem decrypt_secret_overflow:
  assumes "header_shape h" "unat (encrypted_secret_size h) \<le> 128" "w_faults w = []"
    and "derive_header_key ssl pw (salt h) = Some kd"
    and "evp_whole ssl False EVP_aes_256_cbc kd (iv h) (window (encrypted_secret h) 0 (unat (encrypted_secret_size h))) = Some p"
    and "88 < length p"
  shows "decrypt_secret ssl pw h w = None"
proof -
  let ?i = "window (encrypted_secret h) 0 (unat (encrypted_secret_size h))"
  have i: "buf_read (encrypted_secret h) 0 (unat (encrypted_secret_size h)) = Some ?i"
    "sint (encrypted_secret_size h) = int (length ?i)" "\<not> encrypted_secret_size h > 128"
    using assms(1,2) by (simp_all add: header_shape_def sint_eq_unat_32 word_less_nat_alt not_less)
  have "evp_crypt ssl False EVP_aes_256_cbc kd (iv h) ?i (int (length ?i)) (replicate 88 0) = None"
    using assms(5,6)
    by (auto simp: evp_crypt_def evp_whole_def bind_eq_Some_conv buf_write_def split: option.splits if_splits)
  then show ?thesis
    using assms(3,4) i by (simp add: decrypt_secret_def Let_def EVP_CIPHER_CTX_new_def)
qed

definition overlong_header :: padlock_header where
  "overlong_header = sample_fields\<lparr>encrypted_secret := replicate 128 (1 XOR mask_byte (replicate 32 (mask_byte (bytes ''pw'') (replicate 16 1))) (replicate 16 2)),
     encrypted_secret_size := 128\<rparr>"

theorem decrypt_secret_overflow_witness:
  "header_ok overlong_header \<and> decrypt_secret sample_ssl (Some ''pw'') overlong_header sample_world = None"
proof -
  have h: "header_ok overlong_header"
    by (simp add: overlong_header_def sample_fields_def header_ok_def header_shape_def header_bounds_def)
  moreover have "derive_header_key sample_ssl (Some ''pw'') (salt overlong_header)
      = Some (replicate 32 (mask_byte (bytes ''pw'') (replicate 16 1)))"
    by (simp add: derive_header_key_def sample_ssl_def overlong_header_def sample_fields_def)
  moreover have "evp_whole sample_ssl False EVP_aes_256_cbc (replicate 32 (mask_byte (bytes ''pw'') (replicate 16 1))) (iv overlong_header)
      (window (encrypted_secret overlong_header) 0 (unat (encrypted_secret_size overlong_header))) = Some (replicate 127 1)"
    by (simp add: sample_whole overlong_header_def sample_fields_def xor.assoc sample_unpad_def)
  ultimately show ?thesis
    using decrypt_secret_overflow [of overlong_header sample_world sample_ssl "Some ''pw''"] sample_file(2)
    by (simp add: header_ok_def header_bounds_def)
qed

text \<open>
  C26: records at different block-aligned offsets of a file are encrypted under different tweaks, and
  what \<open>crypt_xts\<close> encrypted at an offset it decrypts at the same offset, without failing calls.
\<close>

theorem xts_per_offset:
  assumes "ssl_laws ssl" "length p = unat n" "length c0 = unat n" "length p0 = unat n" "16 \<le> unat n" "unat n < 2 ^ 31"
    and "crypt_xts ssl True key off p c0 n w = Some ((0, c), w1)" "w_faults w2 = []"
  shows "(\<exists>w3. crypt_xts ssl False key off c p0 n w2 = Some ((0, p), w3)) \<and>
    (\<forall>off'. 16 dvd unat off \<and> 16 dvd unat off' \<longrightarrow> xts_tweak off' = xts_tweak off \<longrightarrow> off' = off)"
proof (intro conjI allI impI)
  have sizes: "xts_sizes ssl" and inv: "xts_inverse ssl" using assms(1) by (simp_all add: ssl_laws_def)
  have c: "xts_unit ssl True key off p = Some c" "length c = unat n"
    by (rule crypt_xts_spec [OF sizes assms(2,3,6), of True key off w]; use assms(7) in auto)+
  have "xts_unit ssl False key off c = Some p"
    using inv c assms(2,5) unfolding xts_inverse_def by auto
  then show "\<exists>w3. crypt_xts ssl False key off c p0 n w2 = Some ((0, p), w3)"
    by (rule_tac crypt_xts_spec [OF sizes c(2) assms(4,6), of False key off w2]) (use assms(8) in auto)
next
  fix off' assume d: "16 dvd unat off \<and> 16 dvd unat off'" and "xts_tweak off' = xts_tweak off"
  then have "u64_bytes (off' div 16) = u64_bytes (off div 16)" by (simp add: tweak_of_def)
  then have "off' div 16 = off div 16" by (metis u64_of_u64_bytes)
  then have "unat (off' div 16) = unat (off div 16)" by simp
  then have "unat off' div 16 = unat off div 16" by (simp add: unat_div)
  with d show "off' = off" by (metis dvd_div_mult_self word_unat_eq_iff)
qed

theorem xts_per_offset_witness:
  "\<exists>c w1 w3. crypt_xts sample_ssl True sample_key 4096 (replicate 16 5) (replicate 16 0) 16 sample_world = Some ((0, c), w1) \<and>
     crypt_xts sample_ssl False sample_key 4096 c (replicate 16 0) 16 sample_full = Some ((0, replicate 16 5), w3)"
proof -
  have sizes: "xts_sizes sample_ssl" using sample_laws by (simp add: ssl_laws_def)
  have "xts_unit sample_ssl True sample_key 4096 (replicate 16 5) \<noteq> None" by (simp add: sample_whole)
  then have "\<exists>c w1. crypt_xts sample_ssl True sample_key 4096 (replicate 16 5) (replicate 16 0) 16 sample_world = Some ((0, c), w1)"
    by (rule_tac crypt_xts_spec [OF sizes, of "replicate 16 5" 16 "replicate 16 0" True sample_key 4096 sample_world])
      (use sample_file(2) in auto)
  then show ?thesis
    using xts_per_offset [OF sample_laws, of "replicate 16 5" 16 "replicate 16 0" "replicate 16 0" sample_key 4096 sample_world]
      sample_set(3) by fastforce
qed

end
