(* ===== verification/Padlock_Guard.thy ===== *)
theory Padlock_Guard
  imports Padlock_World
begin

text \<open>
  The kernel module of \<^verbatim>\<open>src/kernel/guard/hardcode_padlock_guard.c\<close>: the table of protected
  files, the requests of the control device (\<open>padlock_guard_ioctl\<close>) and the decision the probes
  take (\<open>padlock_guard_deny_file\<close>, \<open>padlock_guard_deny_dentry\<close>).

  An inode is its device and inode number. The kernel functions the module calls are parameters,
  the fields of \<open>guard_env\<close>: the bucket of a hash key, the resolution of a path, and the random
  source. Each request runs its critical section under one mutex, so a request is one step.
  A character array is a list; a path that is not terminated inside its array cannot be read as a
  string, which is the undefined outcome \<open>None\<close>.
\<close>

unbundle bit_operations_syntax

section \<open>State\<close>

type_synonym inode = "u32 \<times> u64"

record padlock_guard_entry =
  in_use :: bool
  dev :: u32
  ino :: u64
  e_path :: string
  start :: u64
  e_length :: u64
  token :: u64
  writer_tgid :: int
  locked :: bool
  session_active :: bool
  session_dirty :: bool

record padlock_guard_request =
  r_path :: string
  r_start :: u64
  r_length :: u64
  r_token :: u64
  r_flags :: u32
  r_reserved :: u32

record guard_env =
  hash_bucket :: "u64 \<Rightarrow> nat"
  kern_path :: "string \<Rightarrow> inode option option"
  random_u64 :: "nat \<Rightarrow> u64"

text \<open>The static array, the hash table as lists of slots, and how much randomness has been used.\<close>

record guard_state =
  entries :: "padlock_guard_entry list"
  table :: "nat \<Rightarrow> nat list"
  rpos :: nat

abbreviation PADLOCK_GUARD_PATH_MAX :: nat where "PADLOCK_GUARD_PATH_MAX \<equiv> 4096"
abbreviation PADLOCK_GUARD_MAX_ENTRIES :: nat where "PADLOCK_GUARD_MAX_ENTRIES \<equiv> 64"
abbreviation (input) PADLOCK_GUARD_FLAG_LOCKED :: u32 where "PADLOCK_GUARD_FLAG_LOCKED \<equiv> 1"
abbreviation (input) PADLOCK_GUARD_FLAG_SESSION :: u32 where "PADLOCK_GUARD_FLAG_SESSION \<equiv> 2"
abbreviation (input) MAY_WRITE :: u32 where "MAY_WRITE \<equiv> 2"

definition zero_entry :: padlock_guard_entry where
  "zero_entry =
     \<lparr>in_use = False, dev = 0, ino = 0, e_path = replicate PADLOCK_GUARD_PATH_MAX NUL, start = 0, e_length = 0,
      token = 0, writer_tgid = 0, locked = False, session_active = False, session_dirty = False\<rparr>"

definition guard_start :: guard_state where
  "guard_start = \<lparr>entries = replicate PADLOCK_GUARD_MAX_ENTRIES zero_entry, table = (\<lambda>_. []), rpos = 0\<rparr>"

section \<open>Helpers\<close>

definition padlock_guard_key :: "u32 \<Rightarrow> u64 \<Rightarrow> u64" where
  "padlock_guard_key d i = push_bit 32 (ucast d) XOR i"

text \<open>The first loop of \<open>padlock_guard_copy_path\<close>: the index it stops at.\<close>

function path_scan :: "string \<Rightarrow> nat \<Rightarrow> nat \<Rightarrow> nat option" where
  "path_scan src dst_len index =
     (if index + 1 < dst_len then
        do {
          c \<leftarrow> buf_read src index 1;
          if hd c = NUL then Some index else path_scan src dst_len (Suc index)
        }
      else Some index)"
  by pat_completeness auto
termination path_scan
  by (relation "measure (\<lambda>(src, dst_len, index). dst_len - index)") auto

declare path_scan.simps [simp del]

definition padlock_guard_copy_path :: "string option \<Rightarrow> nat \<Rightarrow> string option \<Rightarrow> string option option" where
  "padlock_guard_copy_path dst dst_len src =
     (case dst of
        None \<Rightarrow> Some None
      | Some d \<Rightarrow>
          if dst_len = 0 then Some (Some d)
          else case src of
            None \<Rightarrow> map_option Some (buf_write d 0 [NUL])
          | Some s \<Rightarrow>
              do {
                n \<leftarrow> path_scan s dst_len 0;
                c \<leftarrow> buf_read s 0 n;
                d \<leftarrow> buf_write d 0 c;
                map_option Some (buf_write d n [NUL])
              })"

definition padlock_guard_find_locked :: "guard_env \<Rightarrow> u32 \<Rightarrow> u64 \<Rightarrow> guard_state \<Rightarrow> nat option" where
  "padlock_guard_find_locked env d i s =
     find (\<lambda>n. dev (entries s ! n) = d \<and> ino (entries s ! n) = i)
       (table s (hash_bucket env (padlock_guard_key d i)))"

text \<open>\<open>kern_path\<close> on a path given as a pointer to a character array: \<open>None\<close> where it is undefined.\<close>

definition resolve :: "guard_env \<Rightarrow> string option \<Rightarrow> inode option option option" where
  "resolve env path = (case path of None \<Rightarrow> Some None | Some a \<Rightarrow> map_option (kern_path env) (c_string a))"

definition padlock_guard_find_inode_locked :: "guard_env \<Rightarrow> inode option \<Rightarrow> guard_state \<Rightarrow> nat option" where
  "padlock_guard_find_inode_locked env inode s =
     (case inode of None \<Rightarrow> None | Some (d, i) \<Rightarrow> padlock_guard_find_locked env d i s)"

definition padlock_guard_find_path_locked :: "guard_env \<Rightarrow> string option \<Rightarrow> guard_state \<Rightarrow> nat option option" where
  "padlock_guard_find_path_locked env path s =
     do {
       r \<leftarrow> resolve env path;
       case r of
         None \<Rightarrow> Some None
       | Some None \<Rightarrow> Some None
       | Some (Some (d, i)) \<Rightarrow> Some (padlock_guard_find_locked env d i s)
     }"

definition padlock_guard_is_authorized :: "int \<Rightarrow> padlock_guard_entry \<Rightarrow> bool" where
  "padlock_guard_is_authorized current e \<longleftrightarrow> session_active e \<and> writer_tgid e = current"

text \<open>The \<open>file\<close> and \<open>dentry\<close> arguments: a null pointer, no inode, or an inode.\<close>

definition padlock_guard_deny_file :: "guard_env \<Rightarrow> int \<Rightarrow> inode option option \<Rightarrow> guard_state \<Rightarrow> bool" where
  "padlock_guard_deny_file env current file s =
     (case file of
        None \<Rightarrow> False
      | Some None \<Rightarrow> False
      | Some inode \<Rightarrow>
          (case padlock_guard_find_inode_locked env inode s of
             None \<Rightarrow> False
           | Some n \<Rightarrow>
               if \<not> locked (entries s ! n) \<or> padlock_guard_is_authorized current (entries s ! n) then False
               else True))"

definition padlock_guard_deny_dentry :: "guard_env \<Rightarrow> int \<Rightarrow> inode option option \<Rightarrow> guard_state \<Rightarrow> bool" where
  "padlock_guard_deny_dentry env current dentry s =
     (case dentry of
        None \<Rightarrow> False
      | Some None \<Rightarrow> False
      | Some inode \<Rightarrow>
          (case padlock_guard_find_inode_locked env inode s of
             None \<Rightarrow> False
           | Some n \<Rightarrow>
               if \<not> locked (entries s ! n) \<or> padlock_guard_is_authorized current (entries s ! n) then False
               else True))"

section \<open>Requests\<close>

text \<open>
  The table operations of \<open>padlock_guard_register_entry\<close> and \<open>padlock_guard_unregister_entry\<close>: the
  first free slot is cleared, filled and put at the head of its bucket (\<open>hash_add\<close>); a slot is
  taken out of its bucket (\<open>hash_del\<close>) and marked free.
\<close>

definition claim_slot :: "guard_env \<Rightarrow> inode \<Rightarrow> guard_state \<Rightarrow> (nat \<times> guard_state) option" where
  "claim_slot env inode s =
     (case find (\<lambda>n. \<not> in_use (entries s ! n)) [0..<PADLOCK_GUARD_MAX_ENTRIES] of
        None \<Rightarrow> None
      | Some n \<Rightarrow>
          (case inode of (d, i) \<Rightarrow>
             let b = hash_bucket env (padlock_guard_key d i) in
             Some (n, s\<lparr>entries := (entries s)[n := zero_entry\<lparr>in_use := True, dev := d, ino := i\<rparr>],
                        table := (table s)(b := n # table s b)\<rparr>)))"

definition release_slot :: "guard_env \<Rightarrow> nat \<Rightarrow> guard_state \<Rightarrow> guard_state" where
  "release_slot env n s =
     (let e = entries s ! n; b = hash_bucket env (padlock_guard_key (dev e) (ino e)) in
      s\<lparr>entries := (entries s)[n := e\<lparr>in_use := False\<rparr>], table := (table s)(b := remove1 n (table s b))\<rparr>)"

definition padlock_guard_register_entry ::
  "guard_env \<Rightarrow> string option \<Rightarrow> u64 \<Rightarrow> u64 \<Rightarrow> guard_state \<Rightarrow> (int \<times> guard_state) option" where
  "padlock_guard_register_entry env path st len s =
     do {
       r \<leftarrow> resolve env path;
       case r of
         None \<Rightarrow> Some (- ENOENT, s)
       | Some None \<Rightarrow> Some (- ENOENT, s)
       | Some (Some inode) \<Rightarrow>
           (case (case padlock_guard_find_inode_locked env (Some inode) s of
                    None \<Rightarrow> claim_slot env inode s
                  | Some n \<Rightarrow> Some (n, s)) of
              None \<Rightarrow> Some (- ENOSPC, s)
            | Some (n, s) \<Rightarrow>
                do {
                  let e = entries s ! n;
                  p \<leftarrow> padlock_guard_copy_path (Some (e_path e)) PADLOCK_GUARD_PATH_MAX path;
                  Some (0, s\<lparr>entries := (entries s)[n := e\<lparr>e_path := the p, start := st, e_length := len,
                    locked := True, session_active := False, session_dirty := False, writer_tgid := 0, token := 0\<rparr>]\<rparr>)
                })
     }"

definition padlock_guard_unregister_entry :: "guard_env \<Rightarrow> string option \<Rightarrow> guard_state \<Rightarrow> guard_state option" where
  "padlock_guard_unregister_entry env path s =
     do {
       r \<leftarrow> resolve env path;
       case r of
         None \<Rightarrow> Some s
       | Some None \<Rightarrow> Some s
       | Some (Some inode) \<Rightarrow>
           (case padlock_guard_find_inode_locked env (Some inode) s of
              None \<Rightarrow> Some s
            | Some n \<Rightarrow> Some (release_slot env n s))
     }"

text \<open>\<open>do { get_random_bytes(&token, sizeof(token)); } while (token == 0);\<close>\<close>

partial_function (option) draw_token :: "(nat \<Rightarrow> u64) \<Rightarrow> nat \<Rightarrow> (u64 \<times> nat) option" where
  "draw_token rng pos = (if rng pos = 0 then draw_token rng (Suc pos) else Some (rng pos, Suc pos))"

definition padlock_guard_begin_session ::
  "guard_env \<Rightarrow> int \<Rightarrow> padlock_guard_request option \<Rightarrow> guard_state
     \<Rightarrow> (int \<times> padlock_guard_request option \<times> guard_state) option" where
  "padlock_guard_begin_session env current request s =
     (case request of
        None \<Rightarrow> Some (- EINVAL, None, s)
      | Some r \<Rightarrow>
          if r_path r ! 0 = NUL then Some (- EINVAL, Some r, s)
          else do {
            found \<leftarrow> padlock_guard_find_path_locked env (Some (r_path r)) s;
            case found of
              None \<Rightarrow> Some (- ENOENT, Some r, s)
            | Some n \<Rightarrow>
                if session_active (entries s ! n) \<and> writer_tgid (entries s ! n) \<noteq> current
                then Some (- EBUSY, Some r, s)
                else do {
                  (t, pos) \<leftarrow> draw_token (random_u64 env) (rpos s);
                  Some (0, Some (r\<lparr>r_token := t, r_flags := PADLOCK_GUARD_FLAG_LOCKED OR PADLOCK_GUARD_FLAG_SESSION\<rparr>),
                    s\<lparr>rpos := pos, entries := (entries s)[n := (entries s ! n)\<lparr>session_active := True,
                      writer_tgid := current, session_dirty := True, token := t\<rparr>]\<rparr>)
                }
          })"

definition padlock_guard_end_session ::
  "guard_env \<Rightarrow> int \<Rightarrow> padlock_guard_request option \<Rightarrow> guard_state
     \<Rightarrow> (int \<times> padlock_guard_request option \<times> guard_state) option" where
  "padlock_guard_end_session env current request s =
     (case request of
        None \<Rightarrow> Some (- EINVAL, None, s)
      | Some r \<Rightarrow>
          if r_path r ! 0 = NUL then Some (- EINVAL, Some r, s)
          else do {
            found \<leftarrow> padlock_guard_find_path_locked env (Some (r_path r)) s;
            case found of
              None \<Rightarrow> Some (- ENOENT, Some r, s)
            | Some n \<Rightarrow>
                if \<not> session_active (entries s ! n) \<or> writer_tgid (entries s ! n) \<noteq> current
                   \<or> token (entries s ! n) \<noteq> r_token r
                then Some (- EPERM, Some r, s)
                else Some (0, Some (r\<lparr>r_flags := PADLOCK_GUARD_FLAG_LOCKED\<rparr>),
                  s\<lparr>entries := (entries s)[n := (entries s ! n)\<lparr>session_active := False, writer_tgid := 0,
                    session_dirty := False, token := 0\<rparr>]\<rparr>)
          })"

definition padlock_guard_query ::
  "guard_env \<Rightarrow> padlock_guard_request option \<Rightarrow> guard_state
     \<Rightarrow> (int \<times> padlock_guard_request option \<times> guard_state) option" where
  "padlock_guard_query env request s =
     (case request of
        None \<Rightarrow> Some (- EINVAL, None, s)
      | Some r \<Rightarrow>
          if r_path r ! 0 = NUL then Some (- EINVAL, Some r, s)
          else do {
            found \<leftarrow> padlock_guard_find_path_locked env (Some (r_path r)) s;
            case found of
              None \<Rightarrow> Some (- ENOENT, Some r, s)
            | Some n \<Rightarrow>
                (let e = entries s ! n;
                     flags = (if locked e then PADLOCK_GUARD_FLAG_LOCKED else 0);
                     flags = (if session_active e then flags OR PADLOCK_GUARD_FLAG_SESSION else flags)
                 in Some (0, Some (r\<lparr>r_start := start e, r_length := e_length e, r_token := token e, r_flags := flags\<rparr>), s))
          })"

section \<open>The control device\<close>

text \<open>The encoding of command numbers, for a request of 4128 bytes.\<close>

abbreviation (input) PADLOCK_GUARD_IOCTL_REGISTER :: u32 where "PADLOCK_GUARD_IOCTL_REGISTER \<equiv> 0x50205001"
abbreviation (input) PADLOCK_GUARD_IOCTL_UNREGISTER :: u32 where "PADLOCK_GUARD_IOCTL_UNREGISTER \<equiv> 0x50205002"
abbreviation (input) PADLOCK_GUARD_IOCTL_BEGIN_WRITE :: u32 where "PADLOCK_GUARD_IOCTL_BEGIN_WRITE \<equiv> 0xD0205003"
abbreviation (input) PADLOCK_GUARD_IOCTL_END_WRITE :: u32 where "PADLOCK_GUARD_IOCTL_END_WRITE \<equiv> 0x50205004"
abbreviation (input) PADLOCK_GUARD_IOCTL_QUERY :: u32 where "PADLOCK_GUARD_IOCTL_QUERY \<equiv> 0xD0205005"

definition IOC_TYPE :: "u32 \<Rightarrow> u32" where "IOC_TYPE cmd = drop_bit 8 cmd AND 0xff"
definition IOC_DIR :: "u32 \<Rightarrow> u32" where "IOC_DIR cmd = drop_bit 30 cmd AND 3"

text \<open>
  The dispatch on the command: the result, the request and the state. The two immediate returns
  inside the switch have a nonzero code, on which the caller returns at once as well.
\<close>

definition ioctl_dispatch ::
  "guard_env \<Rightarrow> int \<Rightarrow> u32 \<Rightarrow> padlock_guard_request \<Rightarrow> guard_state
     \<Rightarrow> (int \<times> padlock_guard_request \<times> guard_state) option" where
  "ioctl_dispatch env current cmd request s =
     (if cmd = PADLOCK_GUARD_IOCTL_REGISTER then
        if r_path request ! (PADLOCK_GUARD_PATH_MAX - 1) \<noteq> NUL then Some (- ENAMETOOLONG, request, s)
        else do {
          (result, s) \<leftarrow> padlock_guard_register_entry env (Some (r_path request)) (r_start request) (r_length request) s;
          Some (result, request\<lparr>r_flags := (if result = 0 then PADLOCK_GUARD_FLAG_LOCKED else 0)\<rparr>, s)
        }
      else if cmd = PADLOCK_GUARD_IOCTL_UNREGISTER then
        do {
          s \<leftarrow> padlock_guard_unregister_entry env (Some (r_path request)) s;
          Some (0, request, s)
        }
      else if cmd = PADLOCK_GUARD_IOCTL_BEGIN_WRITE then
        do {
          (result, r, s) \<leftarrow> padlock_guard_begin_session env current (Some request) s;
          Some (result, the r, s)
        }
      else if cmd = PADLOCK_GUARD_IOCTL_END_WRITE then
        do {
          (result, r, s) \<leftarrow> padlock_guard_end_session env current (Some request) s;
          Some (result, the r, s)
        }
      else if cmd = PADLOCK_GUARD_IOCTL_QUERY then
        do {
          (result, r, s) \<leftarrow> padlock_guard_query env (Some request) s;
          Some (result, the r, s)
        }
      else Some (- ENOTTY, request, s))"

text \<open>
  \<open>user\<close> is the caller's buffer, \<open>None\<close> if it cannot be read, and \<open>writable\<close> says whether it can be
  written. The result is the return code, the request copied out if any, and the state.
\<close>

definition padlock_guard_ioctl ::
  "guard_env \<Rightarrow> int \<Rightarrow> u32 \<Rightarrow> padlock_guard_request option \<Rightarrow> bool \<Rightarrow> guard_state
     \<Rightarrow> (int \<times> padlock_guard_request option \<times> guard_state) option" where
  "padlock_guard_ioctl env current cmd user writable s =
     (if IOC_TYPE cmd \<noteq> 0x50 then Some (- ENOTTY, None, s)
      else case user of
        None \<Rightarrow> Some (- EFAULT, None, s)
      | Some request \<Rightarrow>
          do {
            (result, request, s) \<leftarrow> ioctl_dispatch env current cmd request s;
            if result \<noteq> 0 then Some (result, None, s)
            else if IOC_DIR cmd AND 2 \<noteq> 0 then
              (if writable then Some (0, Some request, s) else Some (- EFAULT, None, s))
            else Some (0, None, s)
          })"

section \<open>The table of inodes\<close>

text \<open>
  What the module relies on from its table: an inode has at most one slot; claiming a slot for a
  new inode makes exactly that inode found, releasing it makes exactly that inode lost.
\<close>

locale inode_table =
  fixes inv :: "'s \<Rightarrow> bool"
    and lookup_slot :: "inode \<Rightarrow> 's \<Rightarrow> nat option"
    and claim :: "inode \<Rightarrow> 's \<Rightarrow> (nat \<times> 's) option"
    and release :: "nat \<Rightarrow> 's \<Rightarrow> 's"
  assumes slot_unique: "inv s \<Longrightarrow> lookup_slot x s = Some n \<Longrightarrow> lookup_slot y s = Some n \<Longrightarrow> x = y"
    and claim_inv: "inv s \<Longrightarrow> lookup_slot x s = None \<Longrightarrow> claim x s = Some (n, s') \<Longrightarrow> inv s'"
    and claim_lookup: "inv s \<Longrightarrow> lookup_slot x s = None \<Longrightarrow> claim x s = Some (n, s') \<Longrightarrow>
      lookup_slot y s' = (if y = x then Some n else lookup_slot y s)"
    and release_inv: "inv s \<Longrightarrow> lookup_slot x s = Some n \<Longrightarrow> inv (release n s)"
    and release_lookup: "inv s \<Longrightarrow> lookup_slot x s = Some n \<Longrightarrow>
      lookup_slot y (release n s) = (if y = x then None else lookup_slot y s)"
begin

definition held :: "'s \<Rightarrow> inode set" where
  "held s = {x. lookup_slot x s \<noteq> None}"

lemma held_claim: "inv s \<Longrightarrow> lookup_slot x s = None \<Longrightarrow> claim x s = Some (n, s') \<Longrightarrow> held s' = insert x (held s)"
  by (auto simp: held_def claim_lookup split: if_splits)

lemma held_release: "inv s \<Longrightarrow> lookup_slot x s = Some n \<Longrightarrow> held (release n s) = held s - {x}"
  by (auto simp: held_def release_lookup split: if_splits)

lemma release_claim:
  "inv s \<Longrightarrow> lookup_slot x s = None \<Longrightarrow> claim x s = Some (n, s') \<Longrightarrow> lookup_slot y (release n s') = lookup_slot y s"
  using claim_inv [of s x n s'] claim_lookup [of s x n s'] release_lookup [of s' x n y] by auto

end

text \<open>
  The representation invariant: a bucket holds, without repetition, exactly the used slots whose
  key falls into it, and no two used slots have the same inode.
\<close>

definition slot_bucket :: "guard_env \<Rightarrow> padlock_guard_entry \<Rightarrow> nat" where
  "slot_bucket env e = hash_bucket env (padlock_guard_key (dev e) (ino e))"

definition table_inv :: "guard_env \<Rightarrow> guard_state \<Rightarrow> bool" where
  "table_inv env s \<longleftrightarrow>
     length (entries s) = 64 \<and> (\<forall>b. distinct (table s b)) \<and>
     (\<forall>b n. n \<in> set (table s b) \<longleftrightarrow> n < 64 \<and> in_use (entries s ! n) \<and> slot_bucket env (entries s ! n) = b) \<and>
     (\<forall>m n. m < 64 \<longrightarrow> n < 64 \<longrightarrow> in_use (entries s ! m) \<longrightarrow> in_use (entries s ! n) \<longrightarrow>
        dev (entries s ! m) = dev (entries s ! n) \<longrightarrow> ino (entries s ! m) = ino (entries s ! n) \<longrightarrow> m = n)"

abbreviation slot_of :: "guard_env \<Rightarrow> inode \<Rightarrow> guard_state \<Rightarrow> nat option" where
  "slot_of env x s \<equiv> padlock_guard_find_locked env (fst x) (snd x) s"

definition has_slot :: "inode \<Rightarrow> nat \<Rightarrow> guard_state \<Rightarrow> bool" where
  "has_slot x n s \<longleftrightarrow> n < 64 \<and> in_use (entries s ! n) \<and> dev (entries s ! n) = fst x \<and> ino (entries s ! n) = snd x"

text \<open>The four parts of the invariant, as rules.\<close>

lemma table_invD:
  assumes "table_inv env s"
  shows "length (entries s) = 64" "distinct (table s b)"
    "n \<in> set (table s b) \<longleftrightarrow> n < 64 \<and> in_use (entries s ! n) \<and> slot_bucket env (entries s ! n) = b"
    "has_slot x m s \<Longrightarrow> has_slot x n s \<Longrightarrow> m = n"
  using assms by (simp_all add: table_inv_def has_slot_def)

lemma table_invI:
  assumes "length (entries s) = 64" "\<And>b. distinct (table s b)"
    "\<And>b n. n \<in> set (table s b) \<longleftrightarrow> n < 64 \<and> in_use (entries s ! n) \<and> slot_bucket env (entries s ! n) = b"
    "\<And>x m n. has_slot x m s \<Longrightarrow> has_slot x n s \<Longrightarrow> m = n"
  shows "table_inv env s"
proof -
  have "m = n" if "m < 64" "n < 64" "in_use (entries s ! m)" "in_use (entries s ! n)"
    "dev (entries s ! m) = dev (entries s ! n)" "ino (entries s ! m) = ino (entries s ! n)" for m n
    using assms(4) [of "(dev (entries s ! n), ino (entries s ! n))" m n] that by (simp add: has_slot_def)
  then show ?thesis using assms(1-3) by (simp add: table_inv_def)
qed

lemma find_SomeD: "find P xs = Some x \<Longrightarrow> x \<in> set xs \<and> P x"
  by (induction xs) (auto split: if_splits)

lemma find_unique:
  assumes "x \<in> set xs" "P x" "\<And>y. y \<in> set xs \<Longrightarrow> P y \<Longrightarrow> y = x"
  shows "find P xs = Some x"
proof (cases "find P xs")
  case None
  with assms(1,2) show ?thesis by (auto simp: find_None_iff)
next
  case (Some y)
  from find_SomeD [OF this] assms(3) have "y = x" by blast
  with Some show ?thesis by simp
qed

lemma find_locked_iff:
  assumes "table_inv env s"
  shows "slot_of env x s = Some n \<longleftrightarrow> has_slot x n s"
proof -
  let ?b = "hash_bucket env (padlock_guard_key (fst x) (snd x))"
  let ?P = "\<lambda>n. dev (entries s ! n) = fst x \<and> ino (entries s ! n) = snd x"
  have mem: "n \<in> set (table s ?b) \<and> ?P n \<longleftrightarrow> has_slot x n s" for n
    unfolding table_invD(3) [OF assms] has_slot_def slot_bucket_def by auto
  show ?thesis
  proof
    assume "slot_of env x s = Some n"
    then have "n \<in> set (table s ?b) \<and> ?P n"
      unfolding padlock_guard_find_locked_def by (rule find_SomeD)
    then show "has_slot x n s" using mem by blast
  next
    assume h: "has_slot x n s"
    then have n: "n \<in> set (table s ?b) \<and> ?P n" using mem by blast
    have "m = n" if "m \<in> set (table s ?b)" "?P m" for m
      using mem that h table_invD(4) [OF assms] by blast
    with n show "slot_of env x s = Some n"
      unfolding padlock_guard_find_locked_def by (intro find_unique) auto
  qed
qed

lemma find_locked_None:
  assumes "table_inv env s"
  shows "slot_of env x s = None \<longleftrightarrow> (\<forall>n. \<not> has_slot x n s)"
  using find_locked_iff [OF assms, of x] by (cases "slot_of env x s") auto

lemma slot_of_eqI:
  assumes "table_inv env s" "table_inv env s'" "\<And>n. has_slot y n s' \<longleftrightarrow> has_slot x n s"
  shows "slot_of env y s' = slot_of env x s"
proof (cases "slot_of env x s")
  case None
  then show ?thesis using assms find_locked_None by metis
next
  case (Some n)
  then show ?thesis using assms find_locked_iff by metis
qed

lemma table_inv_start: "table_inv env guard_start"
  by (rule table_invI) (auto simp: guard_start_def zero_entry_def has_slot_def)


text \<open>Writing an entry: only the slot itself changes what is found, and not at all if its key stays.\<close>

lemma has_slot_write:
  assumes "length (entries s) = 64" "n < 64"
  shows "has_slot x m (s\<lparr>entries := (entries s)[n := e], table := t\<rparr>) \<longleftrightarrow>
    (if m = n then in_use e \<and> dev e = fst x \<and> ino e = snd x else has_slot x m s)"
  using assms by (auto simp: has_slot_def)

lemma has_slot_table [simp]: "has_slot x m (s\<lparr>table := t\<rparr>) \<longleftrightarrow> has_slot x m s"
  by (simp add: has_slot_def)

lemma table_inv_write:
  assumes inv: "table_inv env s" and n: "n < 64"
    and same: "in_use e = in_use (entries s ! n)" "dev e = dev (entries s ! n)" "ino e = ino (entries s ! n)"
  shows "table_inv env (s\<lparr>entries := (entries s)[n := e]\<rparr>)"
    and "has_slot x m (s\<lparr>entries := (entries s)[n := e]\<rparr>) \<longleftrightarrow> has_slot x m s"
    and "slot_of env x (s\<lparr>entries := (entries s)[n := e]\<rparr>) = slot_of env x s"
proof -
  let ?s = "s\<lparr>entries := (entries s)[n := e]\<rparr>"
  note len = table_invD(1) [OF inv]
  have h: "has_slot x m ?s \<longleftrightarrow> has_slot x m s" for x m
    using len n same by (auto simp: has_slot_def nth_list_update)
  show "has_slot x m ?s \<longleftrightarrow> has_slot x m s" by (rule h)
  show t: "table_inv env ?s"
  proof (rule table_invI)
    show "k \<in> set (table ?s b) \<longleftrightarrow> k < 64 \<and> in_use (entries ?s ! k) \<and> slot_bucket env (entries ?s ! k) = b" for b k
      using table_invD(3) [OF inv, of k b] len n same by (auto simp: nth_list_update slot_bucket_def)
  qed (use len table_invD(2) [OF inv] table_invD(4) [OF inv] h in auto)
  show "slot_of env x ?s = slot_of env x s" by (rule slot_of_eqI [OF inv t h])
qed

lemma table_inv_rpos:
  "table_inv env (s\<lparr>rpos := k\<rparr>) = table_inv env s" "slot_of env x (s\<lparr>rpos := k\<rparr>) = slot_of env x s"
  "has_slot x m (s\<lparr>rpos := k\<rparr>) = has_slot x m s"
  by (simp_all add: table_inv_def padlock_guard_find_locked_def has_slot_def)

lemma claim_slotE:
  assumes "claim_slot env x s = Some (n, s')"
  obtains "n < 64" "\<not> in_use (entries s ! n)"
    "s' = s\<lparr>entries := (entries s)[n := zero_entry\<lparr>in_use := True, dev := fst x, ino := snd x\<rparr>],
       table := (table s)(hash_bucket env (padlock_guard_key (fst x) (snd x)) :=
         n # table s (hash_bucket env (padlock_guard_key (fst x) (snd x))))\<rparr>"
proof -
  from assms have f: "find (\<lambda>n. \<not> in_use (entries s ! n)) [0..<64] = Some n"
    by (cases x) (auto simp: claim_slot_def Let_def split: option.splits simp del: upt_rec_numeral)
  then have "n < 64" "\<not> in_use (entries s ! n)" by (auto dest!: find_SomeD simp del: upt_rec_numeral)
  with that show ?thesis using assms f
    by (cases x) (auto simp: claim_slot_def Let_def simp del: upt_rec_numeral)
qed

lemma claim_slot_None:
  "claim_slot env x s = None \<longleftrightarrow> (\<forall>n<64. in_use (entries s ! n))"
  by (cases x) (auto simp: claim_slot_def Let_def find_None_iff dest!: find_SomeD
    split: option.splits simp del: upt_rec_numeral)

lemma claim_slot_laws:
  assumes inv: "table_inv env s" and new: "slot_of env x s = None" and c: "claim_slot env x s = Some (n, s')"
  shows "table_inv env s'" "slot_of env y s' = (if y = x then Some n else slot_of env y s)"
    "entries s' ! n = zero_entry\<lparr>in_use := True, dev := fst x, ino := snd x\<rparr>"
    "\<And>m. m \<noteq> n \<Longrightarrow> entries s' ! m = entries s ! m"
proof -
  note len = table_invD(1) [OF inv]
  let ?b = "hash_bucket env (padlock_guard_key (fst x) (snd x))"
  let ?e = "zero_entry\<lparr>in_use := True, dev := fst x, ino := snd x\<rparr>"
  from c obtain n: "n < 64" and free: "\<not> in_use (entries s ! n)"
    and s': "s' = s\<lparr>entries := (entries s)[n := ?e], table := (table s)(?b := n # table s ?b)\<rparr>"
    by (rule claim_slotE)
  have fresh: "n \<notin> set (table s b)" for b
    using free table_invD(3) [OF inv, of n b] by blast
  have h: "has_slot y m s' \<longleftrightarrow> (if m = n then y = x else has_slot y m s)" for y m
    unfolding s' has_slot_write [OF len n] by (auto simp: prod_eq_iff)
  have nx: "\<not> has_slot x m s" for m using new find_locked_None [OF inv] by blast
  show t: "table_inv env s'"
  proof (rule table_invI)
    show "distinct (table s' b)" for b using fresh table_invD(2) [OF inv] by (simp add: s')
    show "k \<in> set (table s' b) \<longleftrightarrow> k < 64 \<and> in_use (entries s' ! k) \<and> slot_bucket env (entries s' ! k) = b" for b k
      using table_invD(3) [OF inv, of k b] fresh [of b] n len
      by (auto simp: s' nth_list_update slot_bucket_def)
    show "m = k" if "has_slot z m s'" "has_slot z k s'" for z m k
      using that nx table_invD(4) [OF inv, of z m k] by (auto simp: h split: if_splits)
  qed (simp add: s' len)
  show "slot_of env y s' = (if y = x then Some n else slot_of env y s)"
  proof (cases "y = x")
    case True
    then show ?thesis using h [of x n] find_locked_iff [OF t, of x n] by simp
  next
    case False
    have nn: "\<not> has_slot y n s" using free by (simp add: has_slot_def)
    then have "has_slot y m s' \<longleftrightarrow> has_slot y m s" for m using False by (auto simp: h)
    then show ?thesis using False slot_of_eqI [OF inv t] by simp
  qed
  show "entries s' ! n = ?e" "\<And>m. m \<noteq> n \<Longrightarrow> entries s' ! m = entries s ! m" using n len by (simp_all add: s')
qed

lemma release_slot_laws:
  assumes inv: "table_inv env s" and old: "slot_of env x s = Some n"
  shows "table_inv env (release_slot env n s)"
    "slot_of env y (release_slot env n s) = (if y = x then None else slot_of env y s)"
proof -
  note len = table_invD(1) [OF inv]
  let ?e = "entries s ! n" and ?s = "release_slot env n s"
  let ?b = "slot_bucket env (entries s ! n)"
  have x: "has_slot x n s" using old find_locked_iff [OF inv] by blast
  then have n: "n < 64" by (simp add: has_slot_def)
  have s': "?s = s\<lparr>entries := (entries s)[n := ?e\<lparr>in_use := False\<rparr>], table := (table s)(?b := remove1 n (table s ?b))\<rparr>"
    by (simp add: release_slot_def Let_def slot_bucket_def)
  have h: "has_slot y m ?s \<longleftrightarrow> m \<noteq> n \<and> has_slot y m s" for y m
    unfolding s' has_slot_write [OF len n] by auto
  show t: "table_inv env ?s"
  proof (rule table_invI)
    show "distinct (table ?s b)" for b using table_invD(2) [OF inv] by (simp add: s')
    show "k \<in> set (table ?s b) \<longleftrightarrow> k < 64 \<and> in_use (entries ?s ! k) \<and> slot_bucket env (entries ?s ! k) = b" for b k
      using table_invD(2) [OF inv, of b] table_invD(3) [OF inv, of k b] n len
      by (auto simp: s' nth_list_update set_remove1_eq)
    show "m = k" if "has_slot z m ?s" "has_slot z k ?s" for z m k
      using that table_invD(4) [OF inv, of z m k] by (simp add: h)
  qed (simp add: s' len)
  show "slot_of env y ?s = (if y = x then None else slot_of env y s)"
  proof (cases "y = x")
    case True
    have "\<not> has_slot x m ?s" for m using x table_invD(4) [OF inv, of x m n] by (auto simp: h)
    then show ?thesis using True find_locked_None [OF t, of x] by simp
  next
    case False
    have "\<not> has_slot y n s" using x False by (auto simp: has_slot_def prod_eq_iff)
    then have "has_slot y m ?s \<longleftrightarrow> has_slot y m s" for m by (auto simp: h)
    then show ?thesis using False slot_of_eqI [OF inv t] by simp
  qed
qed

interpretation guard: inode_table "table_inv env" "slot_of env" "claim_slot env" "release_slot env" for env
proof
  show "x = y" if "table_inv env s" "slot_of env x s = Some n" "slot_of env y s = Some n" for s x y n
    using that find_locked_iff by (force simp: has_slot_def prod_eq_iff)
qed (rule claim_slot_laws release_slot_laws; assumption)+

end
