(* ===== verification/Padlock_Sessions.thy ===== *)
theory Padlock_Sessions
  imports Padlock_Guard
begin

text \<open>
  What the guard promises: an abstract specification of the control device as a map from inodes to
  protections, the invariant of the module's state, and the refinement of the one by the other.
\<close>

section \<open>Tokens and paths\<close>

lemma draw_token_spec:
  assumes "pos \<le> k" "rng k \<noteq> 0" "\<And>j. pos \<le> j \<Longrightarrow> j < k \<Longrightarrow> rng j = 0"
  shows "draw_token rng pos = Some (rng k, Suc k)"
  using assms
proof (induction "k - pos" arbitrary: pos)
  case 0
  then show ?case by (subst draw_token.simps) simp
next
  case (Suc d)
  then have "pos < k" by simp
  with Suc.prems have "rng pos = 0" by simp
  moreover have "draw_token rng (Suc pos) = Some (rng k, Suc k)"
    by (rule Suc.hyps(1)) (use Suc.hyps(2) Suc.prems \<open>pos < k\<close> in auto)
  ultimately show ?case by (subst draw_token.simps) simp
qed

lemma draw_token_SomeD:
  assumes "draw_token rng pos = Some y"
  shows "fst y \<noteq> 0 \<and> (\<exists>k\<ge>pos. rng k = fst y \<and> snd y = Suc k)"
proof (rule draw_token.raw_induct [OF _ assms])
  fix f rng pos y
  assume IH: "\<And>rng pos y. f rng pos = Some y \<Longrightarrow> fst y \<noteq> 0 \<and> (\<exists>k\<ge>pos. rng k = fst y \<and> snd y = Suc k)"
    and eq: "(if rng pos = 0 then f rng (Suc pos) else Some (rng pos, Suc pos)) = Some y"
  show "fst y \<noteq> 0 \<and> (\<exists>k\<ge>pos. rng k = fst y \<and> snd y = Suc k)"
  proof (cases "rng pos = 0")
    case True
    then show ?thesis using IH [of rng "Suc pos" y] eq Suc_leD by auto
  qed (use eq in auto)
qed

lemma draw_token_returns:
  assumes "pos \<le> k" "rng k \<noteq> 0"
  obtains t pos' where "draw_token rng pos = Some (t, pos')" "t \<noteq> 0"
proof -
  let ?P = "\<lambda>k. pos \<le> k \<and> rng k \<noteq> 0"
  have "?P (LEAST k. ?P k)" by (rule LeastI [of ?P k]) (use assms in simp)
  moreover have "rng j = 0" if "pos \<le> j" "j < (LEAST k. ?P k)" for j
    using not_less_Least [OF that(2)] that(1) by auto
  ultimately show ?thesis using that draw_token_spec [of pos "LEAST k. ?P k" rng] by blast
qed

text \<open>The name in a terminated array, and \<open>padlock_guard_copy_path\<close> on it.\<close>

abbreviation name_of :: "string \<Rightarrow> string" where
  "name_of a \<equiv> takeWhile (\<lambda>c. c \<noteq> NUL) a"

lemma c_string_terminated: "NUL \<in> set a \<Longrightarrow> c_string a = Some (name_of a)"
  by (simp add: c_string_def)

lemma length_name: "NUL \<in> set a \<Longrightarrow> length (name_of a) < length a"
  by (induction a) auto

lemma nth_name: "i < length a \<Longrightarrow> i \<le> length (name_of a) \<Longrightarrow> a ! i = NUL \<longleftrightarrow> i = length (name_of a)"
proof (induction a arbitrary: i)
  case (Cons c a)
  then show ?case by (cases i) auto
qed simp

lemma path_scan_spec:
  assumes "i < n" "i \<le> length (name_of s)" "NUL \<in> set s \<or> n \<le> Suc (length s)"
  shows "path_scan s n i = Some (min (n - 1) (length (name_of s)))"
  using assms(1,2)
proof (induction "n - i" arbitrary: i)
  case (Suc d)
  show ?case
  proof (cases "i + 1 < n")
    case True
    then have i: "i < length s"
      using assms(3) Suc.prems length_name [of s] by auto
    show ?thesis
    proof (cases "s ! i = NUL")
      case True
      then have "i = length (name_of s)" using nth_name [OF i Suc.prems(2)] by simp
      then show ?thesis using \<open>i + 1 < n\<close> i True
        by (subst path_scan.simps) (simp add: window_def hd_drop_conv_nth take_Suc)
    next
      case False
      then have "i < length (name_of s)" using nth_name [OF i Suc.prems(2)] Suc.prems(2) by simp
      then have "path_scan s n (Suc i) = Some (min (n - 1) (length (name_of s)))"
        using True Suc.hyps by (intro Suc.hyps(1)) auto
      then show ?thesis using \<open>i + 1 < n\<close> i False
        by (subst path_scan.simps) (simp add: window_def hd_drop_conv_nth take_Suc)
    qed
  next
    case False
    then show ?thesis using Suc.prems by (subst path_scan.simps) auto
  qed
qed simp

lemma take_name: "k \<le> length (name_of s) \<Longrightarrow> take k s = take k (name_of s)"
  by (metis append_take_drop_id take_append take_eq_Nil2 takeWhile_dropWhile_id diff_is_0_eq append.right_neutral take0)

lemma copy_path_spec:
  assumes "0 < length d" "NUL \<in> set s \<or> length d \<le> Suc (length s)"
  shows "padlock_guard_copy_path (Some d) (length d) (Some s) =
    Some (Some (take (length d - 1) (name_of s) @ NUL # drop (Suc (min (length d - 1) (length (name_of s)))) d))"
proof -
  let ?n = "min (length d - 1) (length (name_of s))"
  have n: "?n < length d" "?n \<le> length s" "?n \<le> length (name_of s)"
    using assms(1) length_takeWhile_le [of "\<lambda>c. c \<noteq> NUL" s] by linarith+
  have "take ?n (name_of s) = take (length d - 1) (name_of s)" by (simp add: min_def)
  moreover from this have "take ?n s = take (length d - 1) (name_of s)"
    using take_name [OF n(3)] by simp
  ultimately show ?thesis
    using path_scan_spec [of 0 "length d" s] assms n
    by (simp add: padlock_guard_copy_path_def window_def overlay_def drop_append)
qed


section \<open>The specification\<close>

text \<open>
  A protected file has a name, a range, and possibly a write session: the process that holds it
  and its token. The specification takes the token a new session would get as an argument.
\<close>

record protection =
  p_path :: string
  p_start :: u64
  p_length :: u64
  p_session :: "(int \<times> u64) option"

type_synonym protections = "inode \<Rightarrow> protection option"

text \<open>The inode a request names, if its path resolves to one.\<close>

definition target :: "guard_env \<Rightarrow> padlock_guard_request \<Rightarrow> inode option" where
  "target env r = (case kern_path env (name_of (r_path r)) of Some x \<Rightarrow> x | None \<Rightarrow> None)"

definition may_write :: "int \<Rightarrow> inode \<Rightarrow> protections \<Rightarrow> bool" where
  "may_write p x m = (case m x of None \<Rightarrow> True | Some a \<Rightarrow> (case p_session a of None \<Rightarrow> False | Some (q, t) \<Rightarrow> q = p))"

definition spec_register :: "inode option \<Rightarrow> padlock_guard_request \<Rightarrow> protections \<Rightarrow> int \<times> protections" where
  "spec_register xo r m =
     (if r_path r ! 4095 \<noteq> NUL then (- ENAMETOOLONG, m)
      else case xo of
        None \<Rightarrow> (- ENOENT, m)
      | Some x \<Rightarrow>
          if x \<in> dom m \<or> card (dom m) < 64
          then (0, m(x \<mapsto> \<lparr>p_path = name_of (r_path r), p_start = r_start r, p_length = r_length r, p_session = None\<rparr>))
          else (- ENOSPC, m))"

definition spec_begin :: "int \<Rightarrow> u64 \<Rightarrow> inode option \<Rightarrow> padlock_guard_request \<Rightarrow> protections \<Rightarrow> int \<times> protections" where
  "spec_begin p t xo r m =
     (if name_of (r_path r) = [] then (- EINVAL, m)
      else case xo of
        None \<Rightarrow> (- ENOENT, m)
      | Some x \<Rightarrow>
          (case m x of
             None \<Rightarrow> (- ENOENT, m)
           | Some a \<Rightarrow>
               if p_session a \<noteq> None \<and> \<not> may_write p x m then (- EBUSY, m)
               else (0, m(x \<mapsto> a\<lparr>p_session := Some (p, t)\<rparr>))))"

definition spec_end :: "int \<Rightarrow> inode option \<Rightarrow> padlock_guard_request \<Rightarrow> protections \<Rightarrow> int \<times> protections" where
  "spec_end p xo r m =
     (if name_of (r_path r) = [] then (- EINVAL, m)
      else case xo of
        None \<Rightarrow> (- ENOENT, m)
      | Some x \<Rightarrow>
          (case m x of
             None \<Rightarrow> (- ENOENT, m)
           | Some a \<Rightarrow>
               if p_session a = Some (p, r_token r) then (0, m(x \<mapsto> a\<lparr>p_session := None\<rparr>)) else (- EPERM, m)))"

definition spec_query :: "inode option \<Rightarrow> padlock_guard_request \<Rightarrow> protections \<Rightarrow> int \<times> padlock_guard_request" where
  "spec_query xo r m =
     (if name_of (r_path r) = [] then (- EINVAL, r)
      else case xo of
        None \<Rightarrow> (- ENOENT, r)
      | Some x \<Rightarrow>
          (case m x of
             None \<Rightarrow> (- ENOENT, r)
           | Some a \<Rightarrow> (0, r\<lparr>r_start := p_start a, r_length := p_length a,
               r_token := (case p_session a of None \<Rightarrow> 0 | Some (q, t) \<Rightarrow> t),
               r_flags := (case p_session a of None \<Rightarrow> 1 | Some _ \<Rightarrow> 3)\<rparr>)))"

text \<open>A request, with the request structure as the handler leaves it on success.\<close>

definition guard_spec ::
  "guard_env \<Rightarrow> int \<Rightarrow> u64 \<Rightarrow> u32 \<Rightarrow> padlock_guard_request \<Rightarrow> protections \<Rightarrow> int \<times> padlock_guard_request \<times> protections" where
  "guard_spec env p t cmd r m =
     (let xo = target env r in
      if cmd = PADLOCK_GUARD_IOCTL_REGISTER then (let (rc, m') = spec_register xo r m in (rc, r\<lparr>r_flags := 1\<rparr>, m'))
      else if cmd = PADLOCK_GUARD_IOCTL_UNREGISTER then (0, r, (case xo of None \<Rightarrow> m | Some x \<Rightarrow> m(x := None)))
      else if cmd = PADLOCK_GUARD_IOCTL_BEGIN_WRITE then
        (let (rc, m') = spec_begin p t xo r m in (rc, r\<lparr>r_token := t, r_flags := 3\<rparr>, m'))
      else if cmd = PADLOCK_GUARD_IOCTL_END_WRITE then (let (rc, m') = spec_end p xo r m in (rc, r\<lparr>r_flags := 1\<rparr>, m'))
      else if cmd = PADLOCK_GUARD_IOCTL_QUERY then (let (rc, r') = spec_query xo r m in (rc, r', m))
      else (- ENOTTY, r, m))"

section \<open>The invariant\<close>

definition entry_ok :: "padlock_guard_entry \<Rightarrow> bool" where
  "entry_ok e \<longleftrightarrow> length (e_path e) = 4096 \<and> NUL \<in> set (e_path e) \<and> locked e \<and>
     session_dirty e = session_active e \<and> (if session_active e then token e \<noteq> 0 else token e = 0 \<and> writer_tgid e = 0)"

definition guard_inv :: "guard_env \<Rightarrow> guard_state \<Rightarrow> bool" where
  "guard_inv env s \<longleftrightarrow> table_inv env s \<and> (\<forall>n<64. in_use (entries s ! n) \<longrightarrow> entry_ok (entries s ! n))"

definition protection_of :: "padlock_guard_entry \<Rightarrow> protection" where
  "protection_of e =
     \<lparr>p_path = name_of (e_path e), p_start = start e, p_length = e_length e,
      p_session = (if session_active e then Some (writer_tgid e, token e) else None)\<rparr>"

definition protected :: "guard_env \<Rightarrow> guard_state \<Rightarrow> protections" where
  "protected env s x = map_option (\<lambda>n. protection_of (entries s ! n)) (slot_of env x s)"

lemma guard_invD:
  assumes "guard_inv env s"
  shows "table_inv env s" "slot_of env x s = Some n \<Longrightarrow> entry_ok (entries s ! n)"
    "slot_of env x s = Some n \<Longrightarrow> n < 64 \<and> in_use (entries s ! n) \<and> dev (entries s ! n) = fst x \<and> ino (entries s ! n) = snd x"
  using assms find_locked_iff [of env s x n] by (auto simp: guard_inv_def has_slot_def)

lemma guard_inv_start: "guard_inv env guard_start" "protected env guard_start = (\<lambda>_. None)"
  using table_inv_start [of env] find_locked_None [OF table_inv_start, of env]
  by (auto simp: guard_inv_def guard_start_def zero_entry_def protected_def has_slot_def fun_eq_iff)

text \<open>Writing the entry of an inode is an update of the map; the other entries may be all that is well formed.\<close>

lemma guard_fill:
  assumes t: "table_inv env s" and n: "slot_of env x s = Some n"
    and others: "\<And>m. m < 64 \<Longrightarrow> m \<noteq> n \<Longrightarrow> in_use (entries s ! m) \<Longrightarrow> entry_ok (entries s ! m)"
    and e: "in_use e" "dev e = fst x" "ino e = snd x" "entry_ok e"
  shows "guard_inv env (s\<lparr>entries := (entries s)[n := e]\<rparr>)"
    "protected env (s\<lparr>entries := (entries s)[n := e]\<rparr>) = (protected env s)(x \<mapsto> protection_of e)"
proof -
  let ?s = "s\<lparr>entries := (entries s)[n := e]\<rparr>"
  have k: "n < 64 \<and> in_use (entries s ! n) \<and> dev (entries s ! n) = fst x \<and> ino (entries s ! n) = snd x"
    using n find_locked_iff [OF t, of x n] by (simp add: has_slot_def)
  note w = table_inv_write [OF t, of n e, unfolded e(2,3), simplified k e(1), simplified]
  have len: "length (entries s) = 64" by (rule table_invD(1) [OF t])
  show "guard_inv env ?s"
    using w(1) others k e len by (auto simp: guard_inv_def nth_list_update)
  have "slot_of env y s \<noteq> Some n" if "y \<noteq> x" for y
    using guard.slot_unique [OF t n, of y] that by auto
  then show "protected env ?s = (protected env s)(x \<mapsto> protection_of e)"
    using w(3) n k len by (auto simp: protected_def fun_eq_iff nth_list_update option.map_comp intro!: option.map_cong0 cong: option.map_cong)
qed

lemma guard_write:
  assumes "guard_inv env s" "slot_of env x s = Some n"
    and "in_use e = in_use (entries s ! n)" "dev e = dev (entries s ! n)" "ino e = ino (entries s ! n)" "entry_ok e"
  shows "guard_inv env (s\<lparr>entries := (entries s)[n := e]\<rparr>)"
    "protected env (s\<lparr>entries := (entries s)[n := e]\<rparr>) = (protected env s)(x \<mapsto> protection_of e)"
  using guard_fill [OF guard_invD(1) [OF assms(1)] assms(2), of e] assms guard_invD(3) [OF assms(1,2)]
  by (auto simp: guard_inv_def)

lemma guard_rpos [simp]:
  "guard_inv env (s\<lparr>rpos := k\<rparr>) = guard_inv env s" "protected env (s\<lparr>rpos := k\<rparr>) = protected env s"
  by (simp_all add: guard_inv_def protected_def table_inv_rpos fun_eq_iff)

lemma protected_None_iff [simp]: "protected env s x = None \<longleftrightarrow> slot_of env x s = None"
  by (simp add: protected_def)

lemma protected_Some: "slot_of env x s = Some n \<Longrightarrow> protected env s x = Some (protection_of (entries s ! n))"
  by (simp add: protected_def)

text \<open>The table is full exactly when 64 inodes are protected.\<close>

lemma protected_card:
  assumes inv: "guard_inv env s"
  shows "card (dom (protected env s)) < 64 \<longleftrightarrow> (\<exists>n<64. \<not> in_use (entries s ! n))"
proof -
  note t = guard_invD(1) [OF inv]
  let ?U = "{n. n < 64 \<and> in_use (entries s ! n)}" and ?k = "\<lambda>n. (dev (entries s ! n), ino (entries s ! n))"
  have inj: "inj_on ?k ?U"
    by (rule inj_onI) (use table_invD(4) [OF t] in \<open>auto simp: has_slot_def\<close>)
  have "x \<in> dom (protected env s) \<longleftrightarrow> (\<exists>n. has_slot x n s)" for x
    using find_locked_None [OF t, of x] by (auto simp: dom_def)
  then have "dom (protected env s) = {x. \<exists>n. has_slot x n s}" by blast
  also have "\<dots> = ?k ` ?U" by (auto simp: has_slot_def image_iff)
  finally have "dom (protected env s) = ?k ` ?U" .
  then have c: "card (dom (protected env s)) = card ?U" using card_image [OF inj] by simp
  show ?thesis
  proof (cases "\<exists>n<64. \<not> in_use (entries s ! n)")
    case True
    then have "?U \<subset> {..<64}" by auto
    then have "card ?U < card {..<64::nat}" by (intro psubset_card_mono) auto
    with True c show ?thesis by simp
  next
    case False
    then have "?U = {..<64}" by auto
    then have "card ?U = 64" by simp
    with False c show ?thesis by simp
  qed
qed

lemma guard_claim:
  assumes inv: "guard_inv env s" and new: "slot_of env x s = None" and c: "claim_slot env x s = Some (n, s')"
    and e: "in_use e" "dev e = fst x" "ino e = snd x" "entry_ok e"
  shows "guard_inv env (s'\<lparr>entries := (entries s')[n := e]\<rparr>)"
    "protected env (s'\<lparr>entries := (entries s')[n := e]\<rparr>) = (protected env s)(x \<mapsto> protection_of e)"
proof -
  note t = guard_invD(1) [OF inv] note l = claim_slot_laws [OF t new c]
  have o: "entry_ok (entries s' ! m)" if "m < 64" "m \<noteq> n" "in_use (entries s' ! m)" for m
    using inv that l(4) by (auto simp: guard_inv_def)
  have n: "slot_of env x s' = Some n" using l(2) by simp
  note f = guard_fill [OF l(1) n o e]
  show "guard_inv env (s'\<lparr>entries := (entries s')[n := e]\<rparr>)" by (rule f(1)) (simp_all add: l(4))
  have "protected env s' y = protected env s y" if "y \<noteq> x" for y
  proof (cases "slot_of env y s")
    case (Some m)
    then have "m \<noteq> n" using guard_invD(3) [OF inv Some] c by (auto elim: claim_slotE)
    then show ?thesis using Some that l(2) [of y] l(4) by (simp add: protected_def)
  qed (use that l(2) in \<open>simp add: protected_def\<close>)
  then show "protected env (s'\<lparr>entries := (entries s')[n := e]\<rparr>) = (protected env s)(x \<mapsto> protection_of e)"
    using f(2) by (auto simp: fun_eq_iff l(4))
qed

lemma guard_release:
  assumes inv: "guard_inv env s" and old: "slot_of env x s = Some n"
  shows "guard_inv env (release_slot env n s)" "protected env (release_slot env n s) = (protected env s)(x := None)"
proof -
  note t = guard_invD(1) [OF inv] note l = release_slot_laws [OF t old]
  have len: "length (entries s) = 64" by (rule table_invD(1) [OF t])
  have e: "entries (release_slot env n s) ! m = (if m = n then (entries s ! n)\<lparr>in_use := False\<rparr> else entries s ! m)"
    for m using guard_invD(3) [OF inv old] len by (auto simp: release_slot_def Let_def)
  show "guard_inv env (release_slot env n s)"
    using l(1) inv by (auto simp: guard_inv_def e)
  have "protected env (release_slot env n s) y = protected env s y" if "y \<noteq> x" for y
    using guard.slot_unique [OF t old, of y] that l(2) [of y]
    by (cases "slot_of env y s") (auto simp: protected_def e)
  then show "protected env (release_slot env n s) = (protected env s)(x := None)"
    using l(2) [of x] by (auto simp: fun_eq_iff)
qed


section \<open>Refinement\<close>

text \<open>
  A request structure is a value of its C type, with a path array of 4096 characters. The handlers
  other than REGISTER do not check the terminator, so it is a condition of what follows.
\<close>

definition wf_request :: "padlock_guard_request \<Rightarrow> bool" where
  "wf_request r \<longleftrightarrow> length (r_path r) = 4096 \<and> NUL \<in> set (r_path r)"

lemma find_path_target:
  "wf_request r \<Longrightarrow> padlock_guard_find_path_locked env (Some (r_path r)) s =
     Some (case target env r of None \<Rightarrow> None | Some x \<Rightarrow> slot_of env x s)"
  by (auto simp: padlock_guard_find_path_locked_def resolve_def c_string_def wf_request_def target_def split: option.splits)

lemma path_0: "wf_request r \<Longrightarrow> r_path r ! 0 = NUL \<longleftrightarrow> name_of (r_path r) = []"
  by (cases "r_path r") (auto simp: wf_request_def)

lemma find_inode [simp]: "padlock_guard_find_inode_locked env (Some x) s = slot_of env x s"
  by (cases x) (simp add: padlock_guard_find_inode_locked_def)

lemma copied_path:
  assumes "wf_request r" "length d = 4096"
  obtains p where "padlock_guard_copy_path (Some d) 4096 (Some (r_path r)) = Some (Some p)"
    "length p = 4096" "NUL \<in> set p" "name_of p = name_of (r_path r)"
proof
  let ?n = "name_of (r_path r)"
  have n: "length ?n \<le> 4095" using assms(1) length_name [of "r_path r"] by (simp add: wf_request_def)
  let ?p = "?n @ NUL # drop (Suc (length ?n)) d"
  show "padlock_guard_copy_path (Some d) 4096 (Some (r_path r)) = Some (Some ?p)"
    using copy_path_spec [of d "r_path r"] assms n by (simp add: wf_request_def)
  show "length ?p = 4096" "NUL \<in> set ?p" using assms(2) n by simp_all
  show "name_of ?p = ?n" by (subst takeWhile_append2) (auto dest: set_takeWhileD)
qed

lemma register_refines:
  assumes inv: "guard_inv env s" and r: "wf_request r" "r_path r ! 4095 = NUL"
  obtains rc s' where
    "padlock_guard_register_entry env (Some (r_path r)) (r_start r) (r_length r) s = Some (rc, s')"
    "guard_inv env s'" "spec_register (target env r) r (protected env s) = (rc, protected env s')"
proof -
  note t = guard_invD(1) [OF inv]
  have res: "resolve env (Some (r_path r)) = Some (kern_path env (name_of (r_path r)))"
    using r by (simp add: resolve_def c_string_def wf_request_def)
  show ?thesis
  proof (cases "target env r")
    case None
    then show ?thesis using that [of "- ENOENT" s] inv r(2) res
      by (auto simp: padlock_guard_register_entry_def spec_register_def target_def split: option.splits)
  next
    case (Some x)
    have k: "kern_path env (name_of (r_path r)) = Some (Some x)"
      using Some by (auto simp: target_def split: option.splits)
    let ?slot = "case slot_of env x s of None \<Rightarrow> claim_slot env x s | Some n \<Rightarrow> Some (n, s)"
    show ?thesis
    proof (cases ?slot)
      case None
      then have "slot_of env x s = None" "\<not> card (dom (protected env s)) < 64"
        using protected_card [OF inv] claim_slot_None [of env x s] by (auto split: option.splits)
      then show ?thesis using that [of "- ENOSPC" s] inv r(2) None Some
        by (auto simp: padlock_guard_register_entry_def spec_register_def res k
            domIff split: prod.splits)
    next
      case slot: (Some ns)
      obtain n s1 where ns: "ns = (n, s1)" by (cases ns)
      let ?e = "entries s1 ! n"
      have e: "length (e_path ?e) = 4096 \<and> in_use ?e \<and> dev ?e = fst x \<and> ino ?e = snd x"
        using slot guard_invD(2,3) [OF inv, of x n] claim_slot_laws(3) [OF t, of x n s1]
        by (auto simp: ns entry_ok_def zero_entry_def split: option.splits)
      obtain p where p: "padlock_guard_copy_path (Some (e_path ?e)) 4096 (Some (r_path r)) = Some (Some p)"
        "length p = 4096" "NUL \<in> set p" "name_of p = name_of (r_path r)"
        using copied_path [OF r(1)] e by blast
      let ?f = "?e\<lparr>e_path := p, start := r_start r, e_length := r_length r, locked := True, session_active := False,
        session_dirty := False, writer_tgid := 0, token := 0\<rparr>"
      let ?s = "s1\<lparr>entries := (entries s1)[n := ?f]\<rparr>"
      have f: "entry_ok ?f" "in_use ?f" "dev ?f = fst x" "ino ?f = snd x" using p e by (simp_all add: entry_ok_def)
      have g: "guard_inv env ?s \<and> protected env ?s = (protected env s)(x \<mapsto> protection_of ?f)"
      proof (cases "slot_of env x s")
        case None
        then have "claim_slot env x s = Some (n, s1)" using slot by (simp add: ns)
        from guard_claim [OF inv None this f(2-4,1)] show ?thesis by blast
      next
        case (Some m)
        then have "m = n" "s1 = s" using slot by (simp_all add: ns)
        with Some show ?thesis using guard_write [OF inv, of x n ?f] f e by simp
      qed
      have room: "x \<in> dom (protected env s) \<or> card (dom (protected env s)) < 64"
        using slot protected_card [OF inv] claim_slot_None [of env x s] by (auto simp: domIff ns split: option.splits)
      have "protection_of ?f = \<lparr>p_path = name_of (r_path r), p_start = r_start r, p_length = r_length r, p_session = None\<rparr>"
        using p(4) by (simp add: protection_of_def)
      then have "spec_register (target env r) r (protected env s) = (0, protected env ?s)"
        using g room r(2) by (simp add: spec_register_def Some)
      moreover have "padlock_guard_register_entry env (Some (r_path r)) (r_start r) (r_length r) s = Some (0, ?s)"
        using slot p(1) by (simp add: padlock_guard_register_entry_def res k ns Let_def split: prod.splits)
      ultimately show ?thesis using that g by blast
    qed
  qed
qed

lemma unregister_refines:
  assumes inv: "guard_inv env s" and r: "wf_request r"
  obtains s' where "padlock_guard_unregister_entry env (Some (r_path r)) s = Some s'" "guard_inv env s'"
    "protected env s' = (case target env r of None \<Rightarrow> protected env s | Some x \<Rightarrow> (protected env s)(x := None))"
proof -
  have res: "resolve env (Some (r_path r)) = Some (kern_path env (name_of (r_path r)))"
    using r by (simp add: resolve_def c_string_def wf_request_def)
  show ?thesis
  proof (cases "target env r")
    case None
    then show ?thesis using that [of s] inv res
      by (auto simp: padlock_guard_unregister_entry_def target_def split: option.splits)
  next
    case (Some x)
    then have k: "kern_path env (name_of (r_path r)) = Some (Some x)" by (auto simp: target_def split: option.splits)
    show ?thesis
    proof (cases "slot_of env x s")
      case None
      then show ?thesis using that [of s] inv Some
        by (auto simp: padlock_guard_unregister_entry_def res k fun_upd_idem split: prod.splits)
    next
      case slot: (Some n)
      then show ?thesis using that [of "release_slot env n s"] Some guard_release [OF inv slot]
        by (auto simp: padlock_guard_unregister_entry_def res k split: prod.splits)
    qed
  qed
qed


text \<open>The sessions: an entry that is well formed is its protection.\<close>

lemma request_cases:
  obtains (empty) "name_of (r_path r) = []"
    | (unresolved) "name_of (r_path r) \<noteq> []" "target env r = None"
    | (absent) x where "name_of (r_path r) \<noteq> []" "target env r = Some x" "slot_of env x s = None"
    | (present) x n where "name_of (r_path r) \<noteq> []" "target env r = Some x" "slot_of env x s = Some n"
proof (cases "name_of (r_path r) = []")
  case False
  then show ?thesis
  proof (cases "target env r")
    case (Some x)
    then show ?thesis by (cases "slot_of env x s") (rule absent [OF False Some] present [OF False Some]; assumption)+
  qed (rule unresolved)
qed (rule empty)

lemma protection_session:
  "p_session (protection_of e) = (if session_active e then Some (writer_tgid e, token e) else None)"
  "may_write p x (m(x \<mapsto> protection_of e)) \<longleftrightarrow> session_active e \<and> writer_tgid e = p"
  by (simp_all add: protection_of_def may_write_def)

lemma begin_refines:
  assumes inv: "guard_inv env s" and r: "wf_request r" and rng: "draw_token (random_u64 env) (rpos s) = Some (t, pos)"
  obtains rc r' s' where "padlock_guard_begin_session env p (Some r) s = Some (rc, Some r', s')"
    "guard_inv env s'" "spec_begin p t (target env r) r (protected env s) = (rc, protected env s')"
    "rc = 0 \<longrightarrow> r' = r\<lparr>r_token := t, r_flags := 3\<rparr>"
proof (cases rule: request_cases [where env = env and r = r and s = s])
  case empty
  then show ?thesis using that [of "- EINVAL" r s] inv
    by (simp add: padlock_guard_begin_session_def spec_begin_def find_path_target [OF r] path_0 [OF r] protected_def)
next
  case unresolved
  then show ?thesis using that [of "- ENOENT" r s] inv
    by (simp add: padlock_guard_begin_session_def spec_begin_def find_path_target [OF r] path_0 [OF r] protected_def)
next
  case absent
  then show ?thesis using that [of "- ENOENT" r s] inv
    by (simp add: padlock_guard_begin_session_def spec_begin_def find_path_target [OF r] path_0 [OF r] protected_def)
next
  case x: (present x n)
  let ?e = "entries s ! n"
  have e: "entry_ok ?e" "protected env s x = Some (protection_of ?e)"
    using guard_invD(2) [OF inv x(3)] x(3) by (simp_all add: protected_def)
  have sp: "spec_begin p t (target env r) r (protected env s) =
      (if session_active ?e \<and> writer_tgid ?e \<noteq> p then (- EBUSY, protected env s)
       else (0, (protected env s)(x \<mapsto> (protection_of ?e)\<lparr>p_session := Some (p, t)\<rparr>)))"
    using x e(2) by (auto simp: spec_begin_def may_write_def protection_of_def)
  have run: "padlock_guard_begin_session env p (Some r) s =
      (if session_active ?e \<and> writer_tgid ?e \<noteq> p then Some (- EBUSY, Some r, s)
       else Some (0, Some (r\<lparr>r_token := t, r_flags := 3\<rparr>), s\<lparr>rpos := pos, entries := (entries s)[n := ?e\<lparr>session_active := True,
                      writer_tgid := p, session_dirty := True, token := t\<rparr>]\<rparr>))"
    using x rng by (simp add: padlock_guard_begin_session_def find_path_target [OF r] path_0 [OF r])
  show ?thesis
  proof (cases "session_active ?e \<and> writer_tgid ?e \<noteq> p")
    case True
    then show ?thesis using that [of "- EBUSY" r s] inv sp run by simp
  next
    case False
    let ?f = "?e\<lparr>session_active := True, writer_tgid := p, session_dirty := True, token := t\<rparr>"
    have "entry_ok ?f" using e(1) draw_token_SomeD [OF rng] by (auto simp: entry_ok_def)
    then have "guard_inv env (s\<lparr>entries := (entries s)[n := ?f]\<rparr>)"
      "protected env (s\<lparr>entries := (entries s)[n := ?f]\<rparr>) = (protected env s)(x \<mapsto> protection_of ?f)"
      using guard_write [OF inv x(3), of ?f] by simp_all
    moreover have "s\<lparr>rpos := pos, entries := (entries s)[n := ?f]\<rparr> = s\<lparr>entries := (entries s)[n := ?f], rpos := pos\<rparr>" by simp
    ultimately have g: "guard_inv env (s\<lparr>rpos := pos, entries := (entries s)[n := ?f]\<rparr>)"
      "protected env (s\<lparr>rpos := pos, entries := (entries s)[n := ?f]\<rparr>) = (protected env s)(x \<mapsto> protection_of ?f)"
      by (simp_all only: guard_rpos)
    have "protection_of ?f = (protection_of ?e)\<lparr>p_session := Some (p, t)\<rparr>" by (simp add: protection_of_def)
    with g sp False have "spec_begin p t (target env r) r (protected env s) =
      (0, protected env (s\<lparr>rpos := pos, entries := (entries s)[n := ?f]\<rparr>))" by (simp only: if_False)
    then show ?thesis using that [OF _ g(1)] run False by simp
  qed
qed

lemma end_refines:
  assumes inv: "guard_inv env s" and r: "wf_request r"
  obtains rc r' s' where "padlock_guard_end_session env p (Some r) s = Some (rc, Some r', s')"
    "guard_inv env s'" "spec_end p (target env r) r (protected env s) = (rc, protected env s')"
    "rc = 0 \<longrightarrow> r' = r\<lparr>r_flags := 1\<rparr>" "rpos s' = rpos s"
proof (cases rule: request_cases [where env = env and r = r and s = s])
  case empty
  then show ?thesis using that [of "- EINVAL" r s] inv
    by (simp add: padlock_guard_end_session_def spec_end_def find_path_target [OF r] path_0 [OF r] protected_def)
next
  case unresolved
  then show ?thesis using that [of "- ENOENT" r s] inv
    by (simp add: padlock_guard_end_session_def spec_end_def find_path_target [OF r] path_0 [OF r] protected_def)
next
  case absent
  then show ?thesis using that [of "- ENOENT" r s] inv
    by (simp add: padlock_guard_end_session_def spec_end_def find_path_target [OF r] path_0 [OF r] protected_def)
next
  case x: (present x n)
  let ?e = "entries s ! n"
  have e: "entry_ok ?e" "protected env s x = Some (protection_of ?e)"
    using guard_invD(2) [OF inv x(3)] x(3) by (simp_all add: protected_def)
  show ?thesis
  proof (cases "\<not> session_active ?e \<or> writer_tgid ?e \<noteq> p \<or> token ?e \<noteq> r_token r")
    case True
    then show ?thesis using that [of "- EPERM" r s] inv x e
      by (auto simp: padlock_guard_end_session_def spec_end_def find_path_target [OF r] path_0 [OF r] protection_session)
  next
    case False
    let ?f = "?e\<lparr>session_active := False, writer_tgid := 0, session_dirty := False, token := 0\<rparr>"
    have "entry_ok ?f" using e(1) by (auto simp: entry_ok_def)
    then have g: "guard_inv env (s\<lparr>entries := (entries s)[n := ?f]\<rparr>)"
      "protected env (s\<lparr>entries := (entries s)[n := ?f]\<rparr>) = (protected env s)(x \<mapsto> protection_of ?f)"
      using guard_write [OF inv x(3), of ?f] by simp_all
    have "protection_of ?f = (protection_of ?e)\<lparr>p_session := None\<rparr>" by (simp add: protection_of_def)
    then show ?thesis
      using that [of 0 "r\<lparr>r_flags := 1\<rparr>" "s\<lparr>entries := (entries s)[n := ?f]\<rparr>"] False x e g
      by (auto simp: padlock_guard_end_session_def spec_end_def find_path_target [OF r] path_0 [OF r] protection_session)
  qed
qed

lemma query_refines:
  assumes inv: "guard_inv env s" and r: "wf_request r"
  shows "padlock_guard_query env (Some r) s =
    (let (rc, r') = spec_query (target env r) r (protected env s) in Some (rc, Some r', s))"
proof (cases rule: request_cases [where env = env and r = r and s = s])
  case empty
  then show ?thesis by (simp add: padlock_guard_query_def spec_query_def find_path_target [OF r] path_0 [OF r] protected_def)
next
  case unresolved
  then show ?thesis by (simp add: padlock_guard_query_def spec_query_def find_path_target [OF r] path_0 [OF r] protected_def)
next
  case absent
  then show ?thesis by (simp add: padlock_guard_query_def spec_query_def find_path_target [OF r] path_0 [OF r] protected_def)
next
  case x: (present x n)
  have e: "entry_ok (entries s ! n)" "protected env s x = Some (protection_of (entries s ! n))"
    using guard_invD(2) [OF inv x(3)] x(3) by (simp_all add: protected_def)
  show ?thesis using x e
    by (auto simp: padlock_guard_query_def spec_query_def find_path_target [OF r] path_0 [OF r] entry_ok_def protection_of_def Let_def)
qed

text \<open>The whole device, on a request that is terminated and with a random source that gives a token.\<close>

lemma dispatch_refines:
  assumes inv: "guard_inv env s" and r: "wf_request r" and rng: "draw_token (random_u64 env) (rpos s) = Some (t, pos)"
  obtains rc r' s' where "ioctl_dispatch env p cmd r s = Some (rc, r', s')" "guard_inv env s'"
    "fst (guard_spec env p t cmd r (protected env s)) = rc" "snd (snd (guard_spec env p t cmd r (protected env s))) = protected env s'"
    "rc = 0 \<longrightarrow> fst (snd (guard_spec env p t cmd r (protected env s))) = r'"
proof -
  consider "cmd = 0x50205001" "r_path r ! 4095 = NUL" | "cmd = 0x50205001" "r_path r ! 4095 \<noteq> NUL" | "cmd = 0x50205002"
    | "cmd = 0xD0205003" | "cmd = 0x50205004" | "cmd = 0xD0205005"
    | "cmd \<notin> {0x50205001, 0x50205002, 0xD0205003, 0x50205004, 0xD0205005}" by blast
  then show ?thesis
  proof cases
    case 1
    obtain rc s' where "padlock_guard_register_entry env (Some (r_path r)) (r_start r) (r_length r) s = Some (rc, s')"
      "guard_inv env s'" "spec_register (target env r) r (protected env s) = (rc, protected env s')"
      by (rule register_refines [OF inv r 1(2)])
    then show ?thesis using that [of rc "r\<lparr>r_flags := (if rc = 0 then 1 else 0)\<rparr>" s'] 1
      by (simp add: ioctl_dispatch_def guard_spec_def Let_def)
  next
    case 2
    then show ?thesis using that [of "- ENAMETOOLONG" r s] inv
      by (simp add: ioctl_dispatch_def guard_spec_def spec_register_def Let_def)
  next
    case 3
    obtain s' where "padlock_guard_unregister_entry env (Some (r_path r)) s = Some s'" "guard_inv env s'"
      "protected env s' = (case target env r of None \<Rightarrow> protected env s | Some x \<Rightarrow> (protected env s)(x := None))"
      by (rule unregister_refines [OF inv r])
    then show ?thesis using that [of 0 r s'] 3 by (simp add: ioctl_dispatch_def guard_spec_def Let_def)
  next
    case 4
    obtain rc r' s' where "padlock_guard_begin_session env p (Some r) s = Some (rc, Some r', s')"
      "guard_inv env s'" "spec_begin p t (target env r) r (protected env s) = (rc, protected env s')"
      "rc = 0 \<longrightarrow> r' = r\<lparr>r_token := t, r_flags := 3\<rparr>" by (rule begin_refines [OF inv r rng])
    then show ?thesis using that [of rc r' s'] 4 by (simp add: ioctl_dispatch_def guard_spec_def Let_def)
  next
    case 5
    obtain rc r' s' where "padlock_guard_end_session env p (Some r) s = Some (rc, Some r', s')"
      "guard_inv env s'" "spec_end p (target env r) r (protected env s) = (rc, protected env s')"
      "rc = 0 \<longrightarrow> r' = r\<lparr>r_flags := 1\<rparr>" by (rule end_refines [OF inv r])
    then show ?thesis using that [of rc r' s'] 5 by (simp add: ioctl_dispatch_def guard_spec_def Let_def)
  next
    case 6
    obtain rc r' where "spec_query (target env r) r (protected env s) = (rc, r')" by (rule prod.exhaust)
    then show ?thesis using that [of rc r' s] inv 6
      by (simp add: ioctl_dispatch_def guard_spec_def query_refines [OF inv r])
  next
    case 7
    then show ?thesis using that [of "- ENOTTY" r s] inv by (simp add: ioctl_dispatch_def guard_spec_def Let_def)
  qed
qed

text \<open>What the caller sees: the answer is copied out only for the commands that ask for it.\<close>

definition spec_ioctl ::
  "guard_env \<Rightarrow> int \<Rightarrow> u64 \<Rightarrow> u32 \<Rightarrow> padlock_guard_request \<Rightarrow> bool \<Rightarrow> protections
     \<Rightarrow> int \<times> padlock_guard_request option \<times> protections" where
  "spec_ioctl env p t cmd r writable m =
     (case guard_spec env p t cmd r m of (rc, r', m') \<Rightarrow>
        if rc \<noteq> 0 then (rc, None, m')
        else if cmd = PADLOCK_GUARD_IOCTL_BEGIN_WRITE \<or> cmd = PADLOCK_GUARD_IOCTL_QUERY
        then (if writable then (0, Some r', m') else (- EFAULT, None, m'))
        else (0, None, m'))"

lemma guard_spec_0:
  "fst (guard_spec env p t cmd r m) = 0 \<Longrightarrow> cmd \<in> {0x50205001, 0x50205002, 0xD0205003, 0x50205004, 0xD0205005}"
  by (auto simp: guard_spec_def Let_def split: if_splits)

lemma ioctl_codes:
  "IOC_TYPE 0x50205001 = 0x50" "IOC_TYPE 0x50205002 = 0x50" "IOC_TYPE 0xD0205003 = 0x50" "IOC_TYPE 0x50205004 = 0x50"
  "IOC_TYPE 0xD0205005 = 0x50" "IOC_DIR 0x50205001 AND 2 = 0" "IOC_DIR 0x50205002 AND 2 = 0"
  "IOC_DIR 0xD0205003 AND 2 = 2" "IOC_DIR 0x50205004 AND 2 = 0" "IOC_DIR 0xD0205005 AND 2 = 2"
  by (simp_all add: IOC_TYPE_def IOC_DIR_def)


text \<open>A random source that does not give zeros forever.\<close>

definition random_live :: "guard_env \<Rightarrow> bool" where
  "random_live env \<longleftrightarrow> (\<forall>pos. \<exists>k\<ge>pos. random_u64 env k \<noteq> 0)"

lemma random_liveE:
  assumes "random_live env"
  obtains t pos' where "draw_token (random_u64 env) pos = Some (t, pos')" "t \<noteq> 0"
  using assms draw_token_returns [of pos] unfolding random_live_def by metis

lemma ioctl_refines:
  assumes inv: "guard_inv env s" and r: "wf_request r" and rng: "draw_token (random_u64 env) (rpos s) = Some (t, pos)"
    and type: "IOC_TYPE cmd = 0x50"
  obtains rc out s' where "padlock_guard_ioctl env p cmd (Some r) writable s = Some (rc, out, s')" "guard_inv env s'"
    "spec_ioctl env p t cmd r writable (protected env s) = (rc, out, protected env s')"
proof -
  obtain rc r' s' where d: "ioctl_dispatch env p cmd r s = Some (rc, r', s')" "guard_inv env s'"
    "fst (guard_spec env p t cmd r (protected env s)) = rc" "snd (snd (guard_spec env p t cmd r (protected env s))) = protected env s'"
    "rc = 0 \<longrightarrow> fst (snd (guard_spec env p t cmd r (protected env s))) = r'"
    by (rule dispatch_refines [OF inv r rng])
  obtain rc2 r2 m2 where g: "guard_spec env p t cmd r (protected env s) = (rc2, r2, m2)" by (metis prod_cases3)
  have eq: "rc2 = rc" "m2 = protected env s'" "rc = 0 \<longrightarrow> r2 = r'" using d(3-5) by (simp_all add: g)
  show ?thesis
  proof (cases "rc = 0")
    case False
    then show ?thesis using that [of rc None s'] d(1,2) g eq type by (simp add: padlock_guard_ioctl_def spec_ioctl_def)
  next
    case True
    then have "cmd \<in> {0x50205001, 0x50205002, 0xD0205003, 0x50205004, 0xD0205005}" using d(3) guard_spec_0 by blast
    then have dir: "IOC_DIR cmd AND 2 \<noteq> 0 \<longleftrightarrow> cmd = 0xD0205003 \<or> cmd = 0xD0205005"
      by (auto simp: ioctl_codes)
    show ?thesis
      using that [of 0 "Some r'" s'] that [of "- EFAULT" None s'] that [of 0 None s'] d(1,2) g eq type True dir
      by (cases "cmd = 0xD0205003 \<or> cmd = 0xD0205005"; cases writable) (simp_all add: padlock_guard_ioctl_def spec_ioctl_def)
  qed
qed

text \<open>A command of another type, or an unreadable buffer, changes nothing.\<close>

lemma ioctl_refused:
  "IOC_TYPE cmd \<noteq> 0x50 \<Longrightarrow> padlock_guard_ioctl env p cmd user writable s = Some (- ENOTTY, None, s)"
  "padlock_guard_ioctl env p cmd None writable s = Some (if IOC_TYPE cmd \<noteq> 0x50 then - ENOTTY else - EFAULT, None, s)"
  by (simp_all add: padlock_guard_ioctl_def)

section \<open>Decisions\<close>

lemma deny_may_write:
  assumes "guard_inv env s"
  shows "padlock_guard_deny_file env q (Some (Some x)) s \<longleftrightarrow> \<not> may_write q x (protected env s)"
    "padlock_guard_deny_dentry env q (Some (Some x)) s \<longleftrightarrow> \<not> may_write q x (protected env s)"
proof -
  have "(case slot_of env x s of None \<Rightarrow> False
     | Some n \<Rightarrow> if \<not> locked (entries s ! n) \<or> padlock_guard_is_authorized q (entries s ! n) then False else True)
    \<longleftrightarrow> \<not> may_write q x (protected env s)"
  proof (cases "slot_of env x s")
    case (Some n)
    then show ?thesis using guard_invD(2) [OF assms Some]
      by (auto simp: may_write_def protected_def protection_of_def padlock_guard_is_authorized_def entry_ok_def)
  qed (simp add: may_write_def protected_def)
  then show "padlock_guard_deny_file env q (Some (Some x)) s \<longleftrightarrow> \<not> may_write q x (protected env s)"
    "padlock_guard_deny_dentry env q (Some (Some x)) s \<longleftrightarrow> \<not> may_write q x (protected env s)"
    by (simp_all add: padlock_guard_deny_file_def padlock_guard_deny_dentry_def split: option.splits)
qed

section \<open>Runs\<close>

text \<open>
  A run of the module is a sequence of requests by any processes. Between two requests the files
  may move, so each has its own environment; only the hash function stays. A step is labelled with
  the process, the command, the inode its path resolved to, and the return code.
\<close>

type_synonym event = "int \<times> u32 \<times> inode option \<times> int"

inductive guard_step :: "guard_env \<Rightarrow> guard_state \<Rightarrow> event \<Rightarrow> guard_state \<Rightarrow> bool" for base where
  request: "hash_bucket env = hash_bucket base \<Longrightarrow> random_live env \<Longrightarrow> wf_request r \<Longrightarrow>
    padlock_guard_ioctl env p cmd (Some r) writable s = Some (rc, out, s') \<Longrightarrow> guard_step base s (p, cmd, target env r, rc) s'"
| fault: "padlock_guard_ioctl env p cmd None writable s = Some (rc, out, s') \<Longrightarrow> guard_step base s (p, cmd, None, rc) s'"

inductive guard_run :: "guard_env \<Rightarrow> guard_state \<Rightarrow> event list \<Rightarrow> guard_state \<Rightarrow> bool" for base where
  refl: "guard_run base s [] s"
| step: "guard_run base s tr s' \<Longrightarrow> guard_step base s' ev s'' \<Longrightarrow> guard_run base s (tr @ [ev]) s''"

lemma guard_inv_cong:
  "hash_bucket env = hash_bucket env' \<Longrightarrow> guard_inv env s = guard_inv env' s \<and> protected env s = protected env' s"
  by (simp add: guard_inv_def protected_def table_inv_def slot_bucket_def padlock_guard_find_locked_def fun_eq_iff)

lemma guard_step_cases:
  assumes "guard_step base s (p, cmd, xo, rc) s'" "guard_inv base s"
  obtains (unchanged) "s' = s"
  | (request) env r t out writable where "wf_request r" "target env r = xo" "t \<noteq> 0" "guard_inv base s'"
      "spec_ioctl env p t cmd r writable (protected base s) = (rc, out, protected base s')"
  using assms(1)
proof cases
  case (request env r writable out)
  show ?thesis
  proof (cases "IOC_TYPE cmd = 0x50")
    case True
    obtain t pos where t: "draw_token (random_u64 env) (rpos s) = Some (t, pos)" "t \<noteq> 0"
      by (rule random_liveE [OF request(3)])
    have inv: "guard_inv env s" using assms(2) guard_inv_cong [OF request(2)] by blast
    have "guard_inv env s'" "spec_ioctl env p t cmd r writable (protected env s) = (rc, out, protected env s')"
      by (rule ioctl_refines [OF inv request(4) t(1) True, of p writable]; use request(5) in simp)+
    then have "guard_inv base s'" "spec_ioctl env p t cmd r writable (protected base s) = (rc, out, protected base s')"
      using guard_inv_cong [OF request(2)] by simp_all
    with that(2) [OF request(4) _ t(2)] request(1) show ?thesis by simp
  qed (use request(5) that(1) ioctl_refused(1) in simp)
qed (use that(1) ioctl_refused(2) in simp)

lemma guard_step_inv: "guard_step base s (p, cmd, xo, rc) s' \<Longrightarrow> guard_inv base s \<Longrightarrow> guard_inv base s'"
  by (erule (1) guard_step_cases) simp_all

lemma guard_run_inv: "guard_run base s tr s' \<Longrightarrow> guard_inv base s \<Longrightarrow> guard_inv base s'"
proof (induction rule: guard_run.induct)
  case (step s tr s' ev s'')
  then show ?case using guard_step_inv by (cases ev) blast
qed

text \<open>Who can touch the session of \<open>p\<close> on \<open>x\<close>: \<open>p\<close> itself, and whoever registers or unregisters \<open>x\<close>.\<close>

definition interferes :: "int \<Rightarrow> inode \<Rightarrow> event \<Rightarrow> bool" where
  "interferes p x ev = (case ev of (q, cmd, xo, rc) \<Rightarrow>
     xo = Some x \<and> (cmd = PADLOCK_GUARD_IOCTL_REGISTER \<or> cmd = PADLOCK_GUARD_IOCTL_UNREGISTER \<or>
       q = p \<and> (cmd = PADLOCK_GUARD_IOCTL_BEGIN_WRITE \<or> cmd = PADLOCK_GUARD_IOCTL_END_WRITE)))"

lemma spec_ioctl_map: "snd (snd (spec_ioctl env p t cmd r writable m)) = snd (snd (guard_spec env p t cmd r m))"
  by (simp add: spec_ioctl_def split: prod.splits)

lemma spec_keeps:
  assumes "m x = Some a" "p_session a = Some (p, u)" "\<not> interferes p x (q, cmd, target env r, rc)"
  shows "snd (snd (guard_spec env q t cmd r m)) x = Some a"
  using assms
  by (auto simp: guard_spec_def spec_register_def spec_begin_def spec_end_def interferes_def may_write_def Let_def
      split: prod.splits option.splits if_splits)

lemma guard_step_keeps:
  assumes "guard_step base s ev s'" "guard_inv base s" "protected base s x = Some a" "p_session a = Some (p, u)"
    and "\<not> interferes p x ev"
  shows "protected base s' x = Some a"
proof -
  obtain q cmd xo rc where ev: "ev = (q, cmd, xo, rc)" by (metis prod_cases4)
  from assms(1,2) show ?thesis unfolding ev
  proof (cases rule: guard_step_cases)
    case (request env r t out writable)
    then show ?thesis
      using spec_keeps [of "protected base s" x a p u q cmd env r rc t] assms(3-5) spec_ioctl_map [of env q t cmd r writable "protected base s"]
      by (simp add: ev)
  qed (use assms(3) in simp)
qed

lemma guard_run_keeps:
  assumes "guard_run base s tr s'" "guard_inv base s" "protected base s x = Some a" "p_session a = Some (p, u)"
    and "\<forall>ev\<in>set tr. \<not> interferes p x ev"
  shows "protected base s' x = Some a"
  using assms
proof (induction rule: guard_run.induct)
  case (step s tr s' ev s'')
  then show ?case using guard_step_keeps [of base s' ev s'' x a p u] guard_run_inv [of base s tr s'] by simp
qed

end
