(* ===== verification/Padlock_Guard_Theorems.thy ===== *)
theory Padlock_Guard_Theorems
  imports Padlock_Sessions
begin

text \<open>
  The properties of the kernel guard, each applied to a small environment: one file, registered
  and opened for writing by process 10. The proofs are in \<^verbatim>\<open>Padlock_Guard\<close> and \<^verbatim>\<open>Padlock_Sessions\<close>.
\<close>

section \<open>A sample run\<close>

definition sample_env :: guard_env where
  "sample_env = \<lparr>hash_bucket = (\<lambda>k. unat k mod 256), kern_path = (\<lambda>n. if n = ''/s'' then Some (Some (1, 7)) else None),
     random_u64 = (\<lambda>n. if n = 0 then 0 else 5)\<rparr>"

definition sample_request :: padlock_guard_request where
  "sample_request = \<lparr>r_path = ''/s'' @ replicate 4094 NUL, r_start = 4096, r_length = 100, r_token = 5, r_flags = 0, r_reserved = 0\<rparr>"

definition sample_protection :: protection where
  "sample_protection = \<lparr>p_path = ''/s'', p_start = 4096, p_length = 100, p_session = None\<rparr>"

lemma sample_request_props:
  "wf_request sample_request" "name_of (r_path sample_request) = ''/s''" "target sample_env sample_request = Some (1, 7)"
  "r_path sample_request ! 4095 = NUL"
proof -
  have "r_path sample_request ! 4095 = replicate 4094 NUL ! 4093" by (simp add: sample_request_def nth_append)
  then show "r_path sample_request ! 4095 = NUL" by simp
  show n: "name_of (r_path sample_request) = ''/s''" by (simp add: sample_request_def)
  show "wf_request sample_request" by (simp add: wf_request_def sample_request_def)
  show "target sample_env sample_request = Some (1, 7)" unfolding target_def n by (simp add: sample_env_def)
qed

lemma sample_draw: "\<exists>pos'. draw_token (random_u64 sample_env) pos = Some (5, pos')"
  using draw_token_spec [of pos "if pos = 0 then 1 else pos" "random_u64 sample_env"]
  by (cases "pos = 0") (auto simp: sample_env_def)

lemma sample_live: "random_live sample_env"
proof -
  have "Suc pos \<ge> pos \<and> random_u64 sample_env (Suc pos) \<noteq> 0" for pos by (simp add: sample_env_def)
  then show ?thesis unfolding random_live_def by blast
qed

lemma sample_ioctl:
  assumes "guard_inv sample_env s" "IOC_TYPE cmd = 0x50"
    and "spec_ioctl sample_env p 5 cmd sample_request True (protected sample_env s) = (rc, out, m)"
  shows "\<exists>s'. padlock_guard_ioctl sample_env p cmd (Some sample_request) True s = Some (rc, out, s') \<and>
    guard_inv sample_env s' \<and> protected sample_env s' = m"
proof -
  obtain pos' where "draw_token (random_u64 sample_env) (rpos s) = Some (5, pos')" using sample_draw by blast
  then show ?thesis
    by (rule_tac ioctl_refines [OF assms(1) sample_request_props(1) _ assms(2), of 5 pos' p True]) (use assms(3) in auto)
qed

lemma sample_run:
  obtains s1 s2 where "guard_run sample_env guard_start [(10, 0x50205001, Some (1, 7), 0)] s1"
    "guard_run sample_env s1 [(10, 0xD0205003, Some (1, 7), 0)] s2"
    "guard_run sample_env guard_start [(10, 0x50205001, Some (1, 7), 0), (10, 0xD0205003, Some (1, 7), 0)] s2"
    "guard_inv sample_env s1" "protected sample_env s1 = [(1, 7) \<mapsto> sample_protection]"
    "guard_inv sample_env s2" "protected sample_env s2 = [(1, 7) \<mapsto> sample_protection\<lparr>p_session := Some (10, 5)\<rparr>]"
proof -
  note pr = sample_request_props
  have "spec_ioctl sample_env 10 5 0x50205001 sample_request True (\<lambda>_. None) = (0, None, [(1, 7) \<mapsto> sample_protection])"
    using pr by (simp add: spec_ioctl_def guard_spec_def spec_register_def sample_protection_def Let_def)
      (simp add: sample_request_def)
  then obtain s1 where s1: "padlock_guard_ioctl sample_env 10 0x50205001 (Some sample_request) True guard_start = Some (0, None, s1)"
    "guard_inv sample_env s1" "protected sample_env s1 = [(1, 7) \<mapsto> sample_protection]"
    using sample_ioctl [OF guard_inv_start(1), of "0x50205001" 10] by (auto simp: guard_inv_start(2) ioctl_codes)
  have "\<exists>out. spec_ioctl sample_env 10 5 0xD0205003 sample_request True (protected sample_env s1) =
    (0, out, [(1, 7) \<mapsto> sample_protection\<lparr>p_session := Some (10, 5)\<rparr>])"
    using pr s1(3) by (simp add: spec_ioctl_def guard_spec_def spec_begin_def sample_protection_def may_write_def Let_def)
  then obtain out s2 where s2: "padlock_guard_ioctl sample_env 10 0xD0205003 (Some sample_request) True s1 = Some (0, out, s2)"
    "guard_inv sample_env s2" "protected sample_env s2 = [(1, 7) \<mapsto> sample_protection\<lparr>p_session := Some (10, 5)\<rparr>]"
    using sample_ioctl [OF s1(2), of "0xD0205003" 10] by (auto simp: ioctl_codes)
  have st: "guard_step sample_env guard_start (10, 0x50205001, Some (1, 7), 0) s1" "guard_step sample_env s1 (10, 0xD0205003, Some (1, 7), 0) s2"
    using guard_step.request [OF HOL.refl sample_live pr(1) s1(1)] guard_step.request [OF HOL.refl sample_live pr(1) s2(1)] pr(3) by simp_all
  show ?thesis
    using that [of s1 s2] guard_run.step [OF guard_run.refl st(1)] guard_run.step [OF guard_run.refl st(2)]
      guard_run.step [OF guard_run.step [OF guard_run.refl st(1)] st(2)] s1 s2 by simp
qed


section \<open>Specification and invariant\<close>

text \<open>
  C10: \<open>padlock_guard_ioctl\<close> implements the specification: for every command of the device, on a
  terminated path and with a random source that is not zero forever, the call returns, with the code,
  the answer and the map of protected inodes that the specification gives for some nonzero token,
  and the state is well formed again.
\<close>

theorem guard_refines_spec:
  assumes "guard_inv env s" "wf_request r" "random_live env" "IOC_TYPE cmd = 0x50"
  shows "\<exists>t rc out s'. t \<noteq> 0 \<and> padlock_guard_ioctl env p cmd (Some r) writable s = Some (rc, out, s') \<and>
    guard_inv env s' \<and> spec_ioctl env p t cmd r writable (protected env s) = (rc, out, protected env s')"
proof -
  obtain t pos where t: "draw_token (random_u64 env) (rpos s) = Some (t, pos)" "t \<noteq> 0"
    by (rule random_liveE [OF assms(3)])
  show ?thesis by (rule ioctl_refines [OF assms(1,2) t(1) assms(4)]) (use t(2) in blast)
qed

theorem guard_refines_spec_witness:
  "\<exists>s'. padlock_guard_ioctl sample_env 10 0x50205001 (Some sample_request) True guard_start = Some (0, None, s') \<and>
    protected sample_env s' (1, 7) = Some sample_protection"
proof -
  have *: "spec_ioctl sample_env 10 t 0x50205001 sample_request True (\<lambda>_. None) = (0, None, [(1, 7) \<mapsto> sample_protection])" for t
    using sample_request_props
    by (simp add: spec_ioctl_def guard_spec_def spec_register_def sample_protection_def Let_def) (simp add: sample_request_def)
  have "\<exists>s'. padlock_guard_ioctl sample_env 10 0x50205001 (Some sample_request) True guard_start = Some (0, None, s') \<and>
      protected sample_env s' = [(1, 7) \<mapsto> sample_protection]"
    using guard_refines_spec [OF guard_inv_start(1) sample_request_props(1) sample_live, of "0x50205001" 10 True]
    unfolding guard_inv_start(2) * ioctl_codes by auto
  then show ?thesis by (auto simp del: fun_upd_apply) (simp add: fun_upd_same)
qed

text \<open>
  C11: in every state reached from the loaded module by any requests of any processes the hash table
  holds exactly the used slots, no inode has two slots, every used slot is locked with a terminated
  path, and a session has a nonzero token; at most 64 inodes are protected.
\<close>

theorem guard_invariant:
  assumes "guard_run base guard_start tr s"
  shows "guard_inv base s \<and> card (dom (protected base s)) \<le> 64"
proof -
  have inv: "guard_inv base s" using assms guard_inv_start(1) by (rule guard_run_inv)
  let ?k = "\<lambda>n. (dev (entries s ! n), ino (entries s ! n))"
  have "dom (protected base s) \<subseteq> ?k ` {..<64}"
    using guard_invD(3) [OF inv] by (force simp: protected_def image_iff)
  then have "card (dom (protected base s)) \<le> card (?k ` {..<64})" by (intro card_mono) auto
  also have "\<dots> \<le> 64" using card_image_le [of "{..<64::nat}" ?k] by simp
  finally show ?thesis using inv by blast
qed

theorem guard_invariant_witness:
  "\<exists>s. guard_run sample_env guard_start [(10, 0x50205001, Some (1, 7), 0), (10, 0xD0205003, Some (1, 7), 0)] s \<and> guard_inv sample_env s"
  by (rule sample_run) (use guard_invariant in blast)

text \<open>
  C27: in a reachable state the lookup through the hash table, \<open>padlock_guard_find_locked\<close>, is the
  linear search of the array for a used slot with this device and inode number.
\<close>

theorem find_is_linear_search:
  assumes "guard_run base guard_start tr s"
  shows "padlock_guard_find_locked base d i s =
    find (\<lambda>n. in_use (entries s ! n) \<and> dev (entries s ! n) = d \<and> ino (entries s ! n) = i) [0..<64]"
proof -
  have t: "table_inv base s" using guard_run_inv [OF assms guard_inv_start(1)] by (rule guard_invD(1))
  show ?thesis
  proof (cases "padlock_guard_find_locked base d i s")
    case None
    then show ?thesis using find_locked_None [OF t, of "(d, i)"]
      by (simp add: has_slot_def eq_commute [of None] find_None_iff del: upt_rec_numeral)
  next
    case (Some n)
    then have n: "has_slot (d, i) n s" using find_locked_iff [OF t, of "(d, i)" n] by simp
    have "find (\<lambda>n. in_use (entries s ! n) \<and> dev (entries s ! n) = d \<and> ino (entries s ! n) = i) [0..<64] = Some n"
    proof (rule find_unique)
      show "n \<in> set [0..<64]" "in_use (entries s ! n) \<and> dev (entries s ! n) = d \<and> ino (entries s ! n) = i"
        using n by (simp_all add: has_slot_def del: upt_rec_numeral)
      show "m = n" if "m \<in> set [0..<64]" "in_use (entries s ! m) \<and> dev (entries s ! m) = d \<and> ino (entries s ! m) = i" for m
        by (rule table_invD(4) [OF t, of "(d, i)"]) (use that n in \<open>simp_all add: has_slot_def del: upt_rec_numeral\<close>)
    qed
    with Some show ?thesis by simp
  qed
qed

theorem find_is_linear_search_witness:
  "\<exists>s. padlock_guard_find_locked sample_env 1 7 s = find (\<lambda>n. in_use (entries s ! n) \<and> dev (entries s ! n) = 1 \<and> ino (entries s ! n) = 7) [0..<64] \<and>
     protected sample_env s (1, 7) \<noteq> None"
proof -
  obtain s where "guard_run sample_env guard_start [(10, 0x50205001, Some (1, 7), 0)] s"
    "protected sample_env s = [(1, 7) \<mapsto> sample_protection]" by (rule sample_run)
  then show ?thesis using find_is_linear_search [of sample_env _ s 1 7] by (intro exI [of _ s]) simp
qed

section \<open>Decisions and sessions\<close>

text \<open>
  C14: in a reachable state \<open>padlock_guard_deny_file\<close> and \<open>padlock_guard_deny_dentry\<close> refuse exactly the
  accesses to a protected inode by a process that does not hold its write session; a null pointer
  and a missing inode are never refused.
\<close>

theorem deny_iff_protected:
  assumes "guard_run base guard_start tr s"
  shows "(padlock_guard_deny_file base q f s \<longleftrightarrow> (\<exists>x. f = Some (Some x) \<and> \<not> may_write q x (protected base s))) \<and>
    (padlock_guard_deny_dentry base q f s \<longleftrightarrow> (\<exists>x. f = Some (Some x) \<and> \<not> may_write q x (protected base s)))"
proof -
  note deny = deny_may_write [OF guard_run_inv [OF assms guard_inv_start(1)], of q]
  consider "f = None" | "f = Some None" | x where "f = Some (Some x)" by (metis not_Some_eq)
  then show ?thesis
    by cases (simp_all add: deny, simp_all add: padlock_guard_deny_file_def padlock_guard_deny_dentry_def)
qed

theorem deny_iff_protected_witness:
  "\<exists>s. \<not> padlock_guard_deny_file sample_env 10 (Some (Some (1, 7))) s \<and> padlock_guard_deny_file sample_env 11 (Some (Some (1, 7))) s \<and>
    padlock_guard_deny_dentry sample_env 11 (Some (Some (1, 7))) s \<and> \<not> padlock_guard_deny_file sample_env 11 (Some (Some (1, 8))) s"
proof -
  obtain s where r: "guard_run sample_env guard_start [(10, 0x50205001, Some (1, 7), 0), (10, 0xD0205003, Some (1, 7), 0)] s"
    and p: "protected sample_env s = [(1, 7) \<mapsto> sample_protection\<lparr>p_session := Some (10, 5)\<rparr>]" by (rule sample_run)
  show ?thesis by (rule exI [of _ s]) (simp add: deny_iff_protected [OF r] p may_write_def)
qed

text \<open>
  C12: a write session is exclusive and kept: once process \<open>p\<close> holds it on an inode, then after any
  requests of any processes, except a REGISTER or UNREGISTER that names the inode and \<open>p\<close>'s own
  BEGIN_WRITE and END_WRITE, the protection and its token are unchanged, \<open>p\<close> may write and nobody else.
\<close>

theorem session_exclusive:
  assumes "guard_run base guard_start tr0 s" "protected base s x = Some a" "p_session a = Some (p, t)"
    and "guard_run base s tr s'" "\<forall>ev\<in>set tr. \<not> interferes p x ev"
  shows "protected base s' x = Some a \<and> (padlock_guard_deny_file base q (Some (Some x)) s' \<longleftrightarrow> q \<noteq> p) \<and>
    (padlock_guard_deny_dentry base q (Some (Some x)) s' \<longleftrightarrow> q \<noteq> p)"
proof -
  have inv: "guard_inv base s" using assms(1) guard_inv_start(1) by (rule guard_run_inv)
  have inv': "guard_inv base s'" using assms(4) inv by (rule guard_run_inv)
  have "protected base s' x = Some a" by (rule guard_run_keeps [OF assms(4) inv assms(2,3,5)])
  then show ?thesis using assms(3) by (auto simp: deny_may_write [OF inv'] may_write_def)
qed

theorem session_exclusive_witness:
  "\<exists>s s'. guard_run sample_env s [(11, 0xD0205003, Some (1, 7), - EBUSY)] s' \<and>
    padlock_guard_deny_file sample_env 11 (Some (Some (1, 7))) s' \<and> \<not> padlock_guard_deny_file sample_env 10 (Some (Some (1, 7))) s'"
proof -
  let ?a = "sample_protection\<lparr>p_session := Some (10, 5)\<rparr>"
  obtain s where r: "guard_run sample_env guard_start [(10, 0x50205001, Some (1, 7), 0), (10, 0xD0205003, Some (1, 7), 0)] s"
    and i: "guard_inv sample_env s" and p: "protected sample_env s = [(1, 7) \<mapsto> ?a]" by (rule sample_run)
  have "spec_ioctl sample_env 11 5 0xD0205003 sample_request True (protected sample_env s) = (- EBUSY, None, [(1, 7) \<mapsto> ?a])"
    using sample_request_props p by (simp add: spec_ioctl_def guard_spec_def spec_begin_def may_write_def Let_def)
  then obtain s' where "padlock_guard_ioctl sample_env 11 0xD0205003 (Some sample_request) True s = Some (- EBUSY, None, s')"
    using sample_ioctl [OF i, of "0xD0205003" 11] by (auto simp: ioctl_codes)
  then have "guard_step sample_env s (11, 0xD0205003, Some (1, 7), - EBUSY) s'"
    using guard_step.request [OF HOL.refl sample_live sample_request_props(1)] sample_request_props(3) by force
  then have run: "guard_run sample_env s [(11, 0xD0205003, Some (1, 7), - EBUSY)] s'"
    using guard_run.step [OF guard_run.refl] by force
  have "padlock_guard_deny_file sample_env q (Some (Some (1, 7))) s' \<longleftrightarrow> q \<noteq> 10" for q
    using session_exclusive [OF r _ _ run, of "(1, 7)" ?a 10 5 q] p by (simp add: interferes_def)
  with run show ?thesis by (intro exI [of _ s] exI [of _ s']) simp
qed

text \<open>
  C13: the exception matters: while \<open>p\<close> holds the session of an inode, any other process can REGISTER
  the same path again, which drops the session, and BEGIN_WRITE its own; then \<open>p\<close> is refused and the
  other process may write.
\<close>

theorem session_can_be_stolen:
  assumes "guard_run env guard_start tr s" "random_live env" "wf_request r" "r_path r ! 4095 = NUL" "name_of (r_path r) \<noteq> []"
    and "target env r = Some x" "protected env s x = Some a" "p_session a = Some (p, t)" "q \<noteq> p"
  shows "\<exists>s1 r' s2. padlock_guard_ioctl env q PADLOCK_GUARD_IOCTL_REGISTER (Some r) True s = Some (0, None, s1) \<and>
    padlock_guard_ioctl env q PADLOCK_GUARD_IOCTL_BEGIN_WRITE (Some r) True s1 = Some (0, Some r', s2) \<and>
    padlock_guard_deny_file env p (Some (Some x)) s2 \<and> \<not> padlock_guard_deny_file env q (Some (Some x)) s2"
proof -
  let ?b = "\<lparr>p_path = name_of (r_path r), p_start = r_start r, p_length = r_length r, p_session = None\<rparr>"
  have inv: "guard_inv env s" using assms(1) guard_inv_start(1) by (rule guard_run_inv)
  obtain t1 pos1 where t1: "draw_token (random_u64 env) (rpos s) = Some (t1, pos1)" by (rule random_liveE [OF assms(2)])
  have "spec_ioctl env q t1 0x50205001 r True (protected env s) = (0, None, (protected env s)(x \<mapsto> ?b))"
    using assms(4-8) by (simp add: spec_ioctl_def guard_spec_def spec_register_def Let_def domIff)
  then obtain s1 where s1: "padlock_guard_ioctl env q 0x50205001 (Some r) True s = Some (0, None, s1)" "guard_inv env s1"
    "protected env s1 = (protected env s)(x \<mapsto> ?b)"
    by (rule_tac ioctl_refines [OF inv assms(3) t1, of "0x50205001" q True]) (auto simp: ioctl_codes)
  obtain t2 pos2 where t2: "draw_token (random_u64 env) (rpos s1) = Some (t2, pos2)" by (rule random_liveE [OF assms(2)])
  have "spec_ioctl env q t2 0xD0205003 r True (protected env s1) =
      (0, Some (r\<lparr>r_token := t2, r_flags := 3\<rparr>), (protected env s)(x \<mapsto> ?b\<lparr>p_session := Some (q, t2)\<rparr>))"
    using assms(5,6) s1(3) by (simp add: spec_ioctl_def guard_spec_def spec_begin_def Let_def)
  then obtain s2 where s2: "padlock_guard_ioctl env q 0xD0205003 (Some r) True s1 = Some (0, Some (r\<lparr>r_token := t2, r_flags := 3\<rparr>), s2)"
    "guard_inv env s2" "protected env s2 = (protected env s)(x \<mapsto> ?b\<lparr>p_session := Some (q, t2)\<rparr>)"
    by (rule_tac ioctl_refines [OF s1(2) assms(3) t2, of "0xD0205003" q True]) (auto simp: ioctl_codes)
  show ?thesis
    by (intro exI conjI) (use s1(1) s2 assms(9) in \<open>auto simp: deny_may_write [OF s2(2)] may_write_def\<close>)
qed

theorem session_can_be_stolen_witness:
  "\<exists>s s1 r' s2. \<not> padlock_guard_deny_file sample_env 10 (Some (Some (1, 7))) s \<and>
    padlock_guard_ioctl sample_env 11 PADLOCK_GUARD_IOCTL_REGISTER (Some sample_request) True s = Some (0, None, s1) \<and>
    padlock_guard_ioctl sample_env 11 PADLOCK_GUARD_IOCTL_BEGIN_WRITE (Some sample_request) True s1 = Some (0, Some r', s2) \<and>
    padlock_guard_deny_file sample_env 10 (Some (Some (1, 7))) s2"
proof -
  let ?a = "sample_protection\<lparr>p_session := Some (10, 5)\<rparr>"
  obtain s where r: "guard_run sample_env guard_start [(10, 0x50205001, Some (1, 7), 0), (10, 0xD0205003, Some (1, 7), 0)] s"
    and i: "guard_inv sample_env s" and p: "protected sample_env s = [(1, 7) \<mapsto> ?a]" by (rule sample_run)
  have "\<not> padlock_guard_deny_file sample_env 10 (Some (Some (1, 7))) s" by (simp add: deny_may_write [OF i] p may_write_def)
  then show ?thesis
    using session_can_be_stolen [OF r sample_live sample_request_props(1,4), of "(1, 7)" ?a 10 5 11] sample_request_props(2,3) p
    by auto
qed

text \<open>
  C15: a session is opened and closed: for an inode that no other process writes, BEGIN_WRITE returns a
  nonzero token in the request, END_WRITE with that request succeeds, and the map is then what it was,
  with no session on the inode. END_WRITE with another token is refused with \<open>-EPERM\<close>.
\<close>

theorem begin_end_session:
  assumes "guard_run env guard_start tr s" "random_live env" "wf_request r" "name_of (r_path r) \<noteq> []"
    and "target env r = Some x" "protected env s x = Some a" "p_session a = None \<or> may_write p x (protected env s)"
  shows "\<exists>r' s1 s2. padlock_guard_ioctl env p PADLOCK_GUARD_IOCTL_BEGIN_WRITE (Some r) True s = Some (0, Some r', s1) \<and>
    r_token r' \<noteq> 0 \<and> \<not> padlock_guard_deny_file env p (Some (Some x)) s1 \<and>
    padlock_guard_ioctl env p PADLOCK_GUARD_IOCTL_END_WRITE (Some r') True s1 = Some (0, None, s2) \<and>
    protected env s2 = (protected env s)(x \<mapsto> a\<lparr>p_session := None\<rparr>) \<and>
    (u \<noteq> r_token r' \<longrightarrow>
      (\<exists>s3. padlock_guard_ioctl env p PADLOCK_GUARD_IOCTL_END_WRITE (Some (r'\<lparr>r_token := u\<rparr>)) True s1 = Some (- EPERM, None, s3) \<and>
        protected env s3 = protected env s1))"
proof -
  have inv: "guard_inv env s" using assms(1) guard_inv_start(1) by (rule guard_run_inv)
  obtain t pos where t: "draw_token (random_u64 env) (rpos s) = Some (t, pos)" "t \<noteq> 0" by (rule random_liveE [OF assms(2)])
  define q where "q v = r\<lparr>r_token := v, r_flags := 3\<rparr>" for v
  have q: "(q v)\<lparr>r_token := u\<rparr> = q u" "r_token (q v) = v" "wf_request (q v)" "target env (q v) = Some x" "name_of (r_path (q v)) \<noteq> []" for v u
    using assms(3-5) by (simp_all add: q_def wf_request_def target_def)
  have "spec_ioctl env p t 0xD0205003 r True (protected env s) = (0, Some (q t), (protected env s)(x \<mapsto> a\<lparr>p_session := Some (p, t)\<rparr>))"
    using assms(4-7) by (auto simp: spec_ioctl_def guard_spec_def spec_begin_def Let_def q_def)
  then obtain s1 where s1: "padlock_guard_ioctl env p 0xD0205003 (Some r) True s = Some (0, Some (q t), s1)" "guard_inv env s1"
    "protected env s1 = (protected env s)(x \<mapsto> a\<lparr>p_session := Some (p, t)\<rparr>)"
    by (rule_tac ioctl_refines [OF inv assms(3) t(1), of "0xD0205003" p True]) (auto simp: ioctl_codes)
  obtain t2 pos2 where t2: "draw_token (random_u64 env) (rpos s1) = Some (t2, pos2)" by (rule random_liveE [OF assms(2)])
  have spec: "spec_ioctl env p t2 0x50205004 (q v) True (protected env s1) =
    (if v = t then (0, None, (protected env s)(x \<mapsto> a\<lparr>p_session := None\<rparr>)) else (- EPERM, None, protected env s1))" for v
    using q s1(3) by (simp add: spec_ioctl_def guard_spec_def spec_end_def Let_def)
  have "\<exists>s2. padlock_guard_ioctl env p 0x50205004 (Some (q v)) True s1 = Some (if v = t then 0 else - EPERM, None, s2) \<and>
      protected env s2 = (if v = t then (protected env s)(x \<mapsto> a\<lparr>p_session := None\<rparr>) else protected env s1)" for v
    by (rule ioctl_refines [OF s1(2) q(3) [of v] t2, of "0x50205004" p True]) (auto simp: ioctl_codes spec split: if_splits)
  from this [of t] this [of u] show ?thesis
    using s1(1) t(2) deny_may_write(1) [OF s1(2), of p x] s1(3)
    by (rule_tac exI [of _ "q t"], rule_tac exI [of _ s1]) (auto simp: may_write_def q)
qed

theorem begin_end_session_witness:
  "\<exists>s r' s1 s2. padlock_guard_ioctl sample_env 12 PADLOCK_GUARD_IOCTL_BEGIN_WRITE (Some sample_request) True s = Some (0, Some r', s1) \<and>
    padlock_guard_ioctl sample_env 12 PADLOCK_GUARD_IOCTL_END_WRITE (Some r') True s1 = Some (0, None, s2)"
proof -
  obtain s where r: "guard_run sample_env guard_start [(10, 0x50205001, Some (1, 7), 0)] s"
    and p: "protected sample_env s = [(1, 7) \<mapsto> sample_protection]" by (rule sample_run)
  show ?thesis
    using begin_end_session [OF r sample_live sample_request_props(1), of "(1, 7)" sample_protection 12 0] sample_request_props(2,3) p
    by (auto simp: sample_protection_def)
qed


section \<open>Single functions\<close>

text \<open>
  C30: the loop that draws a token ends exactly when the random source gives a nonzero value from its
  position on, and then returns the first such value.
\<close>

theorem token_loop_ends:
  "draw_token rng pos =
     (if \<exists>k\<ge>pos. rng k \<noteq> 0 then (let k = LEAST k. pos \<le> k \<and> rng k \<noteq> 0 in Some (rng k, Suc k)) else None)"
proof (cases "\<exists>k\<ge>pos. rng k \<noteq> 0")
  case True
  let ?P = "\<lambda>k. pos \<le> k \<and> rng k \<noteq> 0"
  have "?P (LEAST k. ?P k)" using True by (intro LeastI_ex [of ?P]) simp
  moreover have "rng j = 0" if "pos \<le> j" "j < (LEAST k. ?P k)" for j
    using not_less_Least [OF that(2)] that(1) by auto
  ultimately have "draw_token rng pos = Some (rng (LEAST k. ?P k), Suc (LEAST k. ?P k))"
    by (intro draw_token_spec) simp_all
  then show ?thesis using True by (simp add: Let_def)
next
  case False
  then have "draw_token rng pos = None" using draw_token_SomeD [of rng pos] by (metis not_Some_eq)
  then show ?thesis by (simp only: if_not_P [OF False])
qed

text \<open>
  \<open>padlock_guard_copy_path\<close> into an array of the given size always terminates the copy inside the
  array, keeps the size, and copies the source's string, cut to the size less one; it reads at most
  that many characters of the source.
\<close>

theorem copy_path_truncates:
  assumes "0 < length d" "NUL \<in> set s \<or> length d \<le> Suc (length s)"
  shows "\<exists>p. padlock_guard_copy_path (Some d) (length d) (Some s) = Some (Some p) \<and> length p = length d \<and>
    c_string p = Some (take (length d - 1) (name_of s))"
proof -
  let ?n = "take (length d - 1) (name_of s)" and ?k = "min (length d - 1) (length (name_of s))"
  have "c \<noteq> NUL" if "c \<in> set ?n" for c using set_takeWhileD [OF in_set_takeD [OF that]] by blast
  then have "name_of (?n @ NUL # drop (Suc ?k) d) = ?n @ name_of (NUL # drop (Suc ?k) d)" by (rule takeWhile_append2)
  then have "name_of (?n @ NUL # drop (Suc ?k) d) = ?n" by simp
  moreover have "length (?n @ NUL # drop (Suc ?k) d) = length d"
    using assms(1) by (cases d) (simp_all add: min_def)
  moreover have "NUL \<in> set (?n @ NUL # drop (Suc ?k) d)" by simp
  ultimately show ?thesis
    by (intro exI [of _ "?n @ NUL # drop (Suc ?k) d"] conjI copy_path_spec [OF assms]) (simp_all only: c_string_def if_True)
qed

theorem copy_path_truncates_witness:
  "\<exists>p. padlock_guard_copy_path (Some ''abcd'') 4 (Some ''wxyz'') = Some (Some p) \<and> c_string p = Some ''wxy''"
  using copy_path_truncates [of "''abcd''" "''wxyz''"] by (auto simp: numeral_eq_Suc)

lemma register_refused:
  assumes "padlock_guard_register_entry env path st len s = Some (rc, s')" "rc \<noteq> 0"
  shows "s' = s"
proof -
  obtain k where k: "resolve env path = Some k"
    using assms(1) by (auto simp: padlock_guard_register_entry_def bind_eq_Some_conv)
  consider "k = None" | "k = Some None" | x where "k = Some (Some x)" by (metis not_Some_eq)
  then show ?thesis
  proof cases
    case (3 x)
    let ?slot = "case slot_of env x s of None \<Rightarrow> claim_slot env x s | Some n \<Rightarrow> Some (n, s)"
    show ?thesis
      using assms k 3 by (cases ?slot) (auto simp: padlock_guard_register_entry_def bind_eq_Some_conv Let_def)
  qed (use assms(1) k in \<open>simp_all add: padlock_guard_register_entry_def\<close>)
qed

lemma sessions_refused:
  "padlock_guard_begin_session env p (Some r) s = Some (rc, r', s') \<Longrightarrow> rc \<noteq> 0 \<Longrightarrow> s' = s"
  "padlock_guard_end_session env p (Some r) s = Some (rc, r', s') \<Longrightarrow> rc \<noteq> 0 \<Longrightarrow> s' = s"
  "padlock_guard_query env (Some r) s = Some (rc, r', s') \<Longrightarrow> s' = s"
  by (auto simp: padlock_guard_begin_session_def padlock_guard_end_session_def padlock_guard_query_def bind_eq_Some_conv Let_def
      split: if_split_asm option.split_asm prod.split_asm)

text \<open>
  C28: a request that is refused leaves the module as it was: for every return code but success and a
  failed copy of the answer the state is unchanged, and no answer is copied out.
\<close>

theorem refused_request_unchanged:
  assumes "padlock_guard_ioctl env p cmd user writable s = Some (rc, out, s')" "rc \<noteq> 0" "rc \<noteq> - EFAULT"
  shows "s' = s \<and> out = None"
proof (cases "IOC_TYPE cmd = 0x50 \<and> user \<noteq> None")
  case False
  then show ?thesis using assms by (auto simp: padlock_guard_ioctl_def split: if_splits)
next
  case True
  then obtain r where r: "user = Some r" by blast
  obtain r' where d: "ioctl_dispatch env p cmd r s = Some (rc, r', s')" and out: "out = None"
    using assms True by (auto simp: r padlock_guard_ioctl_def bind_eq_Some_conv split: if_splits prod.splits)
  have "s' = s"
    using d assms(2)
    by (auto simp: ioctl_dispatch_def bind_eq_Some_conv split: if_split_asm prod.split_asm
        dest: register_refused sessions_refused)
  with out show ?thesis by blast
qed

theorem refused_request_unchanged_witness:
  "padlock_guard_ioctl sample_env 3 0x50205099 (Some sample_request) True guard_start = Some (- ENOTTY, None, guard_start)"
proof -
  have "\<exists>s'. padlock_guard_ioctl sample_env 3 0x50205099 (Some sample_request) True guard_start = Some (- ENOTTY, None, s')"
    by (simp add: padlock_guard_ioctl_def ioctl_dispatch_def IOC_TYPE_def)
  then show ?thesis using refused_request_unchanged [of sample_env 3 "0x50205099" "Some sample_request" True guard_start "- ENOTTY" None] by auto
qed

text \<open>
  C29: only REGISTER checks that the path is terminated: on a path array without a terminator it
  returns \<open>-ENAMETOOLONG\<close>, while UNREGISTER, BEGIN_WRITE, END_WRITE and QUERY read past the array.
\<close>

theorem unterminated_path:
  assumes "NUL \<notin> set (r_path r)" "length (r_path r) = 4096"
  shows "padlock_guard_ioctl env p PADLOCK_GUARD_IOCTL_REGISTER (Some r) writable s = Some (- ENAMETOOLONG, None, s) \<and>
    padlock_guard_ioctl env p PADLOCK_GUARD_IOCTL_UNREGISTER (Some r) writable s = None \<and>
    padlock_guard_ioctl env p PADLOCK_GUARD_IOCTL_BEGIN_WRITE (Some r) writable s = None \<and>
    padlock_guard_ioctl env p PADLOCK_GUARD_IOCTL_END_WRITE (Some r) writable s = None \<and>
    padlock_guard_ioctl env p PADLOCK_GUARD_IOCTL_QUERY (Some r) writable s = None"
proof -
  have nn: "r_path r ! i \<noteq> NUL" if "i < 4096" for i using assms that nth_mem by metis
  have "resolve env (Some (r_path r)) = None" using assms(1) by (simp add: resolve_def c_string_def)
  moreover from this have "padlock_guard_find_path_locked env (Some (r_path r)) s = None"
    by (simp add: padlock_guard_find_path_locked_def)
  ultimately show ?thesis using nn [of 0] nn [of 4095]
    by (simp add: padlock_guard_ioctl_def ioctl_dispatch_def ioctl_codes padlock_guard_unregister_entry_def
        padlock_guard_begin_session_def padlock_guard_end_session_def padlock_guard_query_def)
qed

theorem unterminated_path_witness:
  "padlock_guard_ioctl sample_env 3 PADLOCK_GUARD_IOCTL_QUERY (Some (sample_request\<lparr>r_path := replicate 4096 CHR ''x''\<rparr>)) True guard_start = None"
  using unterminated_path [of "sample_request\<lparr>r_path := replicate 4096 CHR ''x''\<rparr>"] by simp

end
