(* ===== verification/Padlock_Probes.thy ===== *)
theory Padlock_Probes
  imports Padlock_Guard_Theorems
begin

text \<open>
  The probes of the kernel module and its life cycle: the handlers that run at the entry of the
  security hooks and force \<open>-EPERM\<close>, their registration, and \<open>padlock_guard_init\<close> and
  \<open>padlock_guard_exit\<close>.

  The kernel's accessors of saved registers, its memory and the objects behind a pointer are
  parameters, the fields of \<open>kernel\<close>; \<open>regs_laws\<close> says what the accessors are documented to do. The
  outcome of each registration is a parameter of \<open>padlock_guard_init\<close>.
\<close>

unbundle bit_operations_syntax

section \<open>Handlers\<close>

datatype arch = ARM64 | X86_64

text \<open>The saved registers: the numbered ones, the stack pointer and the instruction pointer.\<close>

record pt_regs =
  regs :: "nat \<Rightarrow> u64"
  sp :: u64
  pc :: u64

record kernel =
  regs_get_kernel_argument :: "pt_regs \<Rightarrow> nat \<Rightarrow> u64"
  regs_set_return_value :: "pt_regs \<Rightarrow> u64 \<Rightarrow> pt_regs"
  regs_return_value :: "pt_regs \<Rightarrow> u64"
  instruction_pointer_set :: "pt_regs \<Rightarrow> u64 \<Rightarrow> pt_regs"
  load :: "u64 \<Rightarrow> u64"
  file_inode :: "u64 \<Rightarrow> inode option"
  d_inode :: "u64 \<Rightarrow> inode option"
  path_dentry :: "u64 \<Rightarrow> u64"

definition padlock_guard_kprobe_return_address :: "arch \<Rightarrow> kernel \<Rightarrow> pt_regs \<Rightarrow> u64" where
  "padlock_guard_kprobe_return_address a k r =
     (case a of ARM64 \<Rightarrow> regs r 30 | X86_64 \<Rightarrow> load k (sp r))"

definition padlock_guard_kprobe_deny :: "arch \<Rightarrow> kernel \<Rightarrow> pt_regs \<Rightarrow> int \<times> pt_regs" where
  "padlock_guard_kprobe_deny a k r =
     (let return_address = padlock_guard_kprobe_return_address a k r in
      if return_address = 0 then (0, r)
      else (1, instruction_pointer_set k (regs_set_return_value k r (of_int (- EPERM))) return_address))"

text \<open>A pointer to a file or to a dentry: null, or what it has as inode.\<close>

definition file_ptr :: "kernel \<Rightarrow> u64 \<Rightarrow> inode option option" where
  "file_ptr k p = (if p = 0 then None else Some (file_inode k p))"

definition dentry_ptr :: "kernel \<Rightarrow> u64 \<Rightarrow> inode option option" where
  "dentry_ptr k p = (if p = 0 then None else Some (d_inode k p))"

definition padlock_guard_kprobe_file_permission ::
  "arch \<Rightarrow> kernel \<Rightarrow> guard_env \<Rightarrow> int \<Rightarrow> guard_state \<Rightarrow> pt_regs \<Rightarrow> int \<times> pt_regs" where
  "padlock_guard_kprobe_file_permission a k env current s r =
     (let file = regs_get_kernel_argument k r 0; mask = (ucast (regs_get_kernel_argument k r 1) :: u32) in
      if mask AND MAY_WRITE = 0 then (0, r)
      else if \<not> padlock_guard_deny_file env current (file_ptr k file) s then (0, r)
      else padlock_guard_kprobe_deny a k r)"

definition padlock_guard_kprobe_file_truncate ::
  "arch \<Rightarrow> kernel \<Rightarrow> guard_env \<Rightarrow> int \<Rightarrow> guard_state \<Rightarrow> pt_regs \<Rightarrow> int \<times> pt_regs" where
  "padlock_guard_kprobe_file_truncate a k env current s r =
     (let file = regs_get_kernel_argument k r 0 in
      if \<not> padlock_guard_deny_file env current (file_ptr k file) s then (0, r)
      else padlock_guard_kprobe_deny a k r)"

definition padlock_guard_kprobe_path_unlink ::
  "arch \<Rightarrow> kernel \<Rightarrow> guard_env \<Rightarrow> int \<Rightarrow> guard_state \<Rightarrow> pt_regs \<Rightarrow> int \<times> pt_regs" where
  "padlock_guard_kprobe_path_unlink a k env current s r =
     (let dentry = regs_get_kernel_argument k r 1 in
      if \<not> padlock_guard_deny_dentry env current (dentry_ptr k dentry) s then (0, r)
      else padlock_guard_kprobe_deny a k r)"

definition padlock_guard_kprobe_path_rename ::
  "arch \<Rightarrow> kernel \<Rightarrow> guard_env \<Rightarrow> int \<Rightarrow> guard_state \<Rightarrow> pt_regs \<Rightarrow> int \<times> pt_regs" where
  "padlock_guard_kprobe_path_rename a k env current s r =
     (let dentry = regs_get_kernel_argument k r 1 in
      if \<not> padlock_guard_deny_dentry env current (dentry_ptr k dentry) s then (0, r)
      else padlock_guard_kprobe_deny a k r)"

definition padlock_guard_kprobe_path_truncate ::
  "arch \<Rightarrow> kernel \<Rightarrow> guard_env \<Rightarrow> int \<Rightarrow> guard_state \<Rightarrow> pt_regs \<Rightarrow> int \<times> pt_regs" where
  "padlock_guard_kprobe_path_truncate a k env current s r =
     (let path = regs_get_kernel_argument k r 0; dentry = (if path \<noteq> 0 then path_dentry k path else 0) in
      if \<not> padlock_guard_deny_dentry env current (dentry_ptr k dentry) s then (0, r)
      else padlock_guard_kprobe_deny a k r)"

section \<open>Registration\<close>

datatype probe = probe_file_permission | probe_file_truncate | probe_path_unlink | probe_path_rename | probe_path_truncate

type_synonym handler = "arch \<Rightarrow> kernel \<Rightarrow> guard_env \<Rightarrow> int \<Rightarrow> guard_state \<Rightarrow> pt_regs \<Rightarrow> int \<times> pt_regs"

text \<open>
  The static probes, each with its symbol and handler once set, those registered with the kernel in
  the order of registration, the device, the reference the module holds on itself, and the guard.
\<close>

record module_state =
  kprobes :: "probe \<Rightarrow> (string \<times> handler) option"
  registered :: "probe list"
  device :: bool
  padlock_guard_pinned :: bool
  guard :: guard_state

text \<open>What the kernel answers: to \<open>misc_register\<close>, to \<open>register_kprobe\<close> by symbol, to \<open>try_module_get\<close>.\<close>

record loader =
  misc_register :: int
  register_kprobe :: "string \<Rightarrow> int"
  try_module_get :: bool

definition padlock_guard_register_probe :: "loader \<Rightarrow> probe \<Rightarrow> string \<Rightarrow> handler \<Rightarrow> module_state \<Rightarrow> int \<times> module_state" where
  "padlock_guard_register_probe l p symbol h m =
     (let m = m\<lparr>kprobes := (kprobes m)(p \<mapsto> (symbol, h))\<rparr>; result = register_kprobe l symbol in
      (result, if result = 0 then m\<lparr>registered := registered m @ [p]\<rparr> else m))"

definition padlock_guard_register_optional_probe :: "loader \<Rightarrow> probe \<Rightarrow> string \<Rightarrow> handler \<Rightarrow> module_state \<Rightarrow> int \<times> module_state" where
  "padlock_guard_register_optional_probe l p symbol h m =
     (let (result, m) = padlock_guard_register_probe l p symbol h m in
      if result = - ENOENT then (0, m) else (result, m))"

definition unregister_kprobe :: "probe \<Rightarrow> module_state \<Rightarrow> module_state" where
  "unregister_kprobe p m = m\<lparr>registered := removeAll p (registered m)\<rparr>"

definition padlock_guard_unregister_all_probes :: "bool \<Rightarrow> module_state \<Rightarrow> module_state" where
  "padlock_guard_unregister_all_probes security_path m =
     (let m = unregister_kprobe probe_file_permission m;
          m = unregister_kprobe probe_file_truncate m in
      if security_path then
        (let m = unregister_kprobe probe_path_unlink m;
             m = unregister_kprobe probe_path_rename m in
         unregister_kprobe probe_path_truncate m)
      else m)"

text \<open>The two labels at the end of \<open>padlock_guard_init\<close>.\<close>

definition fail_misc :: "int \<Rightarrow> module_state \<Rightarrow> int \<times> module_state" where
  "fail_misc result m = (result, m\<lparr>device := False\<rparr>)"

definition fail_probes :: "bool \<Rightarrow> int \<Rightarrow> module_state \<Rightarrow> int \<times> module_state" where
  "fail_probes security_path result m = fail_misc result (padlock_guard_unregister_all_probes security_path m)"

definition padlock_guard_init :: "bool \<Rightarrow> loader \<Rightarrow> module_state \<Rightarrow> int \<times> module_state" where
  "padlock_guard_init security_path l m =
     (let m = m\<lparr>guard := (guard m)\<lparr>table := (\<lambda>_. [])\<rparr>\<rparr>; result = misc_register l in
      if result \<noteq> 0 then (result, m)
      else
     (let m = m\<lparr>device := True\<rparr>;
          (result, m) = padlock_guard_register_probe l probe_file_permission ''security_file_permission''
            padlock_guard_kprobe_file_permission m in
      if result \<noteq> 0 then fail_misc result m
      else
     (let (result, m) = padlock_guard_register_optional_probe l probe_file_truncate ''security_file_truncate''
            padlock_guard_kprobe_file_truncate m in
      if result \<noteq> 0 then fail_probes security_path result m
      else if \<not> security_path then (0, m\<lparr>padlock_guard_pinned := try_module_get l\<rparr>)
      else
     (let (result, m) = padlock_guard_register_optional_probe l probe_path_unlink ''security_path_unlink''
            padlock_guard_kprobe_path_unlink m in
      if result \<noteq> 0 then fail_probes security_path result m
      else
     (let (result, m) = padlock_guard_register_optional_probe l probe_path_rename ''security_path_rename''
            padlock_guard_kprobe_path_rename m in
      if result \<noteq> 0 then fail_probes security_path result m
      else
     (let (result, m) = padlock_guard_register_optional_probe l probe_path_truncate ''security_path_truncate''
            padlock_guard_kprobe_path_truncate m in
      if result \<noteq> 0 then fail_probes security_path result m
      else (0, m\<lparr>padlock_guard_pinned := try_module_get l\<rparr>)))))))"

text \<open>The reference dropped is the one taken; it is the result's first component.\<close>

definition padlock_guard_exit :: "bool \<Rightarrow> module_state \<Rightarrow> bool \<times> module_state" where
  "padlock_guard_exit security_path m =
     (padlock_guard_pinned m, (padlock_guard_unregister_all_probes security_path m)\<lparr>device := False\<rparr>)"

text \<open>The module as it is loaded, with its static data zeroed.\<close>

definition module_start :: module_state where
  "module_start = \<lparr>kprobes = (\<lambda>_. None), registered = [], device = False, padlock_guard_pinned = False, guard = guard_start\<rparr>"

text \<open>A hook is entered: the handler of the first registered probe on its symbol runs, if there is one.\<close>

definition enter_hook ::
  "arch \<Rightarrow> kernel \<Rightarrow> guard_env \<Rightarrow> int \<Rightarrow> module_state \<Rightarrow> string \<Rightarrow> pt_regs \<Rightarrow> int \<times> pt_regs" where
  "enter_hook a k env current m symbol r =
     (case find (\<lambda>p. map_option fst (kprobes m p) = Some symbol) (registered m) of
        None \<Rightarrow> (0, r)
      | Some p \<Rightarrow> (case kprobes m p of None \<Rightarrow> (0, r) | Some (name, h) \<Rightarrow> h a k env current (guard m) r))"

section \<open>Laws of the register accessors\<close>

definition regs_laws :: "kernel \<Rightarrow> bool" where
  "regs_laws k \<longleftrightarrow> (\<forall>r v. regs_return_value k (regs_set_return_value k r v) = v \<and> sp (regs_set_return_value k r v) = sp r) \<and>
     (\<forall>r v. instruction_pointer_set k r v = r\<lparr>pc := v\<rparr>) \<and>
     (\<forall>r v. regs_return_value k (r\<lparr>pc := v\<rparr>) = regs_return_value k r \<and> regs_return_value k (r\<lparr>sp := v\<rparr>) = regs_return_value k r)"

text \<open>What a denied hook should look like to its caller: the function returned \<open>-EPERM\<close>.\<close>

definition hook_returns :: "arch \<Rightarrow> kernel \<Rightarrow> pt_regs \<Rightarrow> pt_regs \<Rightarrow> bool" where
  "hook_returns a k r r' \<longleftrightarrow> regs_return_value k r' = of_int (- EPERM) \<and>
     (case a of ARM64 \<Rightarrow> pc r' = regs r 30 \<and> sp r' = sp r | X86_64 \<Rightarrow> pc r' = load k (sp r) \<and> sp r' = sp r + 8)"


section \<open>The handlers decide as the guard does\<close>

lemma kprobe_deny:
  assumes "regs_laws k" "padlock_guard_kprobe_return_address a k r \<noteq> 0"
  obtains r' where "padlock_guard_kprobe_deny a k r = (1, r')" "regs_return_value k r' = of_int (- EPERM)"
    "pc r' = padlock_guard_kprobe_return_address a k r" "sp r' = sp r"
  using assms that by (auto simp: padlock_guard_kprobe_deny_def regs_laws_def Let_def)

text \<open>
  What a handler does, by whether it refuses: skip the hook, or leave the registers and let it run.
\<close>

definition hook_outcome :: "arch \<Rightarrow> kernel \<Rightarrow> pt_regs \<Rightarrow> bool \<Rightarrow> int \<times> pt_regs \<Rightarrow> bool" where
  "hook_outcome a k r refuse result \<longleftrightarrow>
     (if refuse \<and> padlock_guard_kprobe_return_address a k r \<noteq> 0
      then fst result = 1 \<and> regs_return_value k (snd result) = of_int (- EPERM) \<and>
        pc (snd result) = padlock_guard_kprobe_return_address a k r
      else result = (0, r))"

lemma hook_outcomeI:
  assumes "regs_laws k" "result = (if refuse then padlock_guard_kprobe_deny a k r else (0, r))"
  shows "hook_outcome a k r refuse result"
proof (cases "refuse \<and> padlock_guard_kprobe_return_address a k r \<noteq> 0")
  case True
  then obtain r' where "padlock_guard_kprobe_deny a k r = (1, r')" "regs_return_value k r' = of_int (- EPERM)"
    "pc r' = padlock_guard_kprobe_return_address a k r"
    using kprobe_deny [OF assms(1), of a r] by metis
  with True show ?thesis using assms(2) by (simp add: hook_outcome_def)
qed (use assms(2) in \<open>auto simp: hook_outcome_def padlock_guard_kprobe_deny_def\<close>)

definition refused :: "int \<Rightarrow> inode option option \<Rightarrow> protections \<Rightarrow> bool" where
  "refused q f m \<longleftrightarrow> (case f of Some (Some x) \<Rightarrow> \<not> may_write q x m | _ \<Rightarrow> False)"

lemma deny_refused:
  assumes "guard_inv env s"
  shows "padlock_guard_deny_file env q f s = refused q f (protected env s)"
    "padlock_guard_deny_dentry env q f s = refused q f (protected env s)"
proof -
  consider "f = None" | "f = Some None" | x where "f = Some (Some x)" by (metis not_Some_eq)
  then show "padlock_guard_deny_file env q f s = refused q f (protected env s)"
    "padlock_guard_deny_dentry env q f s = refused q f (protected env s)"
    by (cases; simp add: refused_def deny_may_write [OF assms]; simp add: padlock_guard_deny_file_def padlock_guard_deny_dentry_def)+
qed

lemma handlers_decide:
  assumes "regs_laws k" "guard_inv env s"
  shows "hook_outcome a k r (ucast (regs_get_kernel_argument k r 1) AND MAY_WRITE \<noteq> 0 \<and>
      refused q (file_ptr k (regs_get_kernel_argument k r 0)) (protected env s)) (padlock_guard_kprobe_file_permission a k env q s r)"
    "hook_outcome a k r (refused q (file_ptr k (regs_get_kernel_argument k r 0)) (protected env s))
      (padlock_guard_kprobe_file_truncate a k env q s r)"
    "hook_outcome a k r (refused q (dentry_ptr k (regs_get_kernel_argument k r 1)) (protected env s))
      (padlock_guard_kprobe_path_unlink a k env q s r)"
    "hook_outcome a k r (refused q (dentry_ptr k (regs_get_kernel_argument k r 1)) (protected env s))
      (padlock_guard_kprobe_path_rename a k env q s r)"
    "hook_outcome a k r (regs_get_kernel_argument k r 0 \<noteq> 0 \<and>
      refused q (dentry_ptr k (path_dentry k (regs_get_kernel_argument k r 0))) (protected env s))
      (padlock_guard_kprobe_path_truncate a k env q s r)"
  by (rule hook_outcomeI [OF assms(1)];
      simp add: padlock_guard_kprobe_file_permission_def padlock_guard_kprobe_file_truncate_def padlock_guard_kprobe_path_unlink_def
        padlock_guard_kprobe_path_rename_def padlock_guard_kprobe_path_truncate_def deny_refused [OF assms(2)] Let_def;
      simp add: dentry_ptr_def refused_def)+

section \<open>Loading and unloading\<close>

lemmas init_defs = padlock_guard_init_def padlock_guard_register_probe_def padlock_guard_register_optional_probe_def
  fail_probes_def fail_misc_def padlock_guard_unregister_all_probes_def unregister_kprobe_def module_start_def Let_def

lemma init_failure:
  assumes "padlock_guard_init security_path l module_start = (rc, m)" "rc \<noteq> 0"
  shows "registered m = [] \<and> \<not> device m \<and> \<not> padlock_guard_pinned m"
  using assms by (auto simp: init_defs split: if_splits)

text \<open>The probes a successful load has: the mandatory one first, then the optional ones the kernel knows.\<close>

definition optional_probes :: "bool \<Rightarrow> (probe \<times> string \<times> handler) list" where
  "optional_probes security_path =
     (probe_file_truncate, ''security_file_truncate'', padlock_guard_kprobe_file_truncate) #
     (if security_path then
        [(probe_path_unlink, ''security_path_unlink'', padlock_guard_kprobe_path_unlink),
         (probe_path_rename, ''security_path_rename'', padlock_guard_kprobe_path_rename),
         (probe_path_truncate, ''security_path_truncate'', padlock_guard_kprobe_path_truncate)]
      else [])"

lemma init_success:
  assumes "padlock_guard_init security_path l module_start = (0, m)"
  shows "device m \<and> padlock_guard_pinned m = try_module_get l \<and> guard m = guard_start \<and>
    registered m = probe_file_permission # map fst (filter (\<lambda>(p, symbol, h). register_kprobe l symbol = 0) (optional_probes security_path)) \<and>
    (\<forall>(p, symbol, h)\<in>set (optional_probes security_path). kprobes m p = Some (symbol, h) \<and> register_kprobe l symbol \<in> {0, - ENOENT}) \<and>
    kprobes m probe_file_permission = Some (''security_file_permission'', padlock_guard_kprobe_file_permission)"
proof (cases security_path)
  case True
  then show ?thesis using assms
    by (auto simp: init_defs optional_probes_def guard_start_def split: if_splits)
next
  case False
  then show ?thesis using assms
    by (auto simp: init_defs optional_probes_def guard_start_def split: if_splits)
qed


section \<open>What the hooks are asked\<close>

text \<open>
  The calls of the five security hooks, with the arguments the kernel passes, and the inodes that the operation
  behind each call changes, truncates, removes or renames. A rename takes away the name of its source and
  removes the file that its target names; \<open>replaces\<close> is that file.
\<close>

datatype hook_call =
    File_permission u64 u32
  | File_truncate u64
  | Path_unlink u64 u64
  | Path_rename u64 u64 u64 u64
  | Path_truncate u64

fun hook_symbol :: "hook_call \<Rightarrow> string" where
  "hook_symbol (File_permission file access) = ''security_file_permission''"
| "hook_symbol (File_truncate file) = ''security_file_truncate''"
| "hook_symbol (Path_unlink dir dentry) = ''security_path_unlink''"
| "hook_symbol (Path_rename old_dir old_dentry new_dir new_dentry) = ''security_path_rename''"
| "hook_symbol (Path_truncate path) = ''security_path_truncate''"

fun called :: "kernel \<Rightarrow> pt_regs \<Rightarrow> hook_call \<Rightarrow> bool" where
  "called k r (File_permission file access) \<longleftrightarrow>
     regs_get_kernel_argument k r 0 = file \<and> (ucast (regs_get_kernel_argument k r 1) :: u32) = access"
| "called k r (File_truncate file) \<longleftrightarrow> regs_get_kernel_argument k r 0 = file"
| "called k r (Path_unlink dir dentry) \<longleftrightarrow> regs_get_kernel_argument k r 0 = dir \<and> regs_get_kernel_argument k r 1 = dentry"
| "called k r (Path_rename old_dir old_dentry new_dir new_dentry) \<longleftrightarrow>
     regs_get_kernel_argument k r 0 = old_dir \<and> regs_get_kernel_argument k r 1 = old_dentry \<and>
     regs_get_kernel_argument k r 2 = new_dir \<and> regs_get_kernel_argument k r 3 = new_dentry"
| "called k r (Path_truncate path) \<longleftrightarrow> regs_get_kernel_argument k r 0 = path"

definition inodes_at :: "inode option option \<Rightarrow> inode set" where
  "inodes_at f = (case f of Some (Some x) \<Rightarrow> {x} | _ \<Rightarrow> {})"

fun replaces :: "kernel \<Rightarrow> hook_call \<Rightarrow> inode set" where
  "replaces k (Path_rename old_dir old_dentry new_dir new_dentry) = inodes_at (dentry_ptr k new_dentry)"
| "replaces k c = {}"

fun changes :: "kernel \<Rightarrow> hook_call \<Rightarrow> inode set" where
  "changes k (File_permission file access) = (if access AND MAY_WRITE \<noteq> 0 then inodes_at (file_ptr k file) else {})"
| "changes k (File_truncate file) = inodes_at (file_ptr k file)"
| "changes k (Path_unlink dir dentry) = inodes_at (dentry_ptr k dentry)"
| "changes k (Path_rename old_dir old_dentry new_dir new_dentry) =
     inodes_at (dentry_ptr k old_dentry) \<union> inodes_at (dentry_ptr k new_dentry)"
| "changes k (Path_truncate path) = (if path = 0 then {} else inodes_at (dentry_ptr k (path_dentry k path)))"

text \<open>What the handlers look at.\<close>

fun decision :: "kernel \<Rightarrow> int \<Rightarrow> hook_call \<Rightarrow> protections \<Rightarrow> bool" where
  "decision k q (File_permission file access) p \<longleftrightarrow> access AND MAY_WRITE \<noteq> 0 \<and> refused q (file_ptr k file) p"
| "decision k q (File_truncate file) p \<longleftrightarrow> refused q (file_ptr k file) p"
| "decision k q (Path_unlink dir dentry) p \<longleftrightarrow> refused q (dentry_ptr k dentry) p"
| "decision k q (Path_rename old_dir old_dentry new_dir new_dentry) p \<longleftrightarrow> refused q (dentry_ptr k old_dentry) p"
| "decision k q (Path_truncate path) p \<longleftrightarrow> path \<noteq> 0 \<and> refused q (dentry_ptr k (path_dentry k path)) p"

fun hook_handler :: "hook_call \<Rightarrow> handler" where
  "hook_handler (File_permission file access) = padlock_guard_kprobe_file_permission"
| "hook_handler (File_truncate file) = padlock_guard_kprobe_file_truncate"
| "hook_handler (Path_unlink dir dentry) = padlock_guard_kprobe_path_unlink"
| "hook_handler (Path_rename old_dir old_dentry new_dir new_dentry) = padlock_guard_kprobe_path_rename"
| "hook_handler (Path_truncate path) = padlock_guard_kprobe_path_truncate"

lemma enter_hook_handler:
  assumes "padlock_guard_init True l module_start = (0, m)" "register_kprobe l (hook_symbol c) = 0"
  shows "enter_hook a k env q (m\<lparr>guard := s\<rparr>) (hook_symbol c) r = hook_handler c a k env q s r"
  using init_success [OF assms(1)] assms(2) by (cases c) (auto simp: enter_hook_def optional_probes_def)

lemma enter_hook_decides:
  assumes "padlock_guard_init True l module_start = (0, m)" "register_kprobe l (hook_symbol c) = 0" "regs_laws k" "guard_inv env s"
    and "called k r c"
  shows "hook_outcome a k r (decision k q c (protected env s)) (enter_hook a k env q (m\<lparr>guard := s\<rparr>) (hook_symbol c) r)"
  unfolding enter_hook_handler [OF assms(1,2)]
  using handlers_decide [OF assms(3,4), of a r q] assms(5) by (cases c) auto


section \<open>Properties\<close>

definition sample_kernel :: kernel where
  "sample_kernel = \<lparr>regs_get_kernel_argument = (\<lambda>r n. regs r n), regs_set_return_value = (\<lambda>r v. r\<lparr>regs := (regs r)(0 := v)\<rparr>),
     regs_return_value = (\<lambda>r. regs r 0), instruction_pointer_set = (\<lambda>r v. r\<lparr>pc := v\<rparr>), load = (\<lambda>_. 0x99),
     file_inode = (\<lambda>_. Some (1, 7)), d_inode = (\<lambda>_. Some (1, 7)), path_dentry = (\<lambda>p. p)\<rparr>"

definition sample_regs :: pt_regs where
  "sample_regs = \<lparr>regs = (\<lambda>_. 0x42), sp = 0x1000, pc = 0\<rparr>"

definition sample_loader :: loader where
  "sample_loader = \<lparr>misc_register = 0, register_kprobe = (\<lambda>s. if s = ''security_file_truncate'' then - ENOENT else 0), try_module_get = True\<rparr>"

lemma sample_regs_laws: "regs_laws sample_kernel"
  by (simp add: regs_laws_def sample_kernel_def)

text \<open>
  C32: the loaded module refuses the changes of protected files: after a successful load with the path hooks
  and any requests, a call of a hook that the kernel knows is refused with \<open>-EPERM\<close>, resuming at the return
  address, exactly when the operation changes, truncates, removes or renames a protected inode and the process
  does not hold its write session; otherwise the registers are left alone and the hook runs. This is for
  writes, both kinds of truncation, removals, and renames whose target is no protected file.
\<close>

theorem probes_refuse_writers:
  assumes "padlock_guard_init True l module_start = (0, m)" "register_kprobe l (hook_symbol c) = 0"
    and "guard_run env (guard m) tr s" "regs_laws k" "called k r c" "\<forall>x\<in>replaces k c. may_write q x (protected env s)"
  shows "hook_outcome a k r (\<exists>x\<in>changes k c. \<not> may_write q x (protected env s))
    (enter_hook a k env q (m\<lparr>guard := s\<rparr>) (hook_symbol c) r)"
proof -
  have inv: "guard_inv env s" using assms(3) init_success [OF assms(1)] guard_run_inv guard_inv_start(1) by metis
  have "(\<exists>x\<in>changes k c. \<not> may_write q x (protected env s)) = decision k q c (protected env s)"
    using assms(6) by (cases c) (auto simp: refused_def inodes_at_def split: option.splits)
  then show ?thesis using enter_hook_decides [OF assms(1,2,4) inv assms(5)] by simp
qed

lemma sample_load: obtains m where "padlock_guard_init True sample_loader module_start = (0, m)" "guard m = guard_start"
proof -
  have "fst (padlock_guard_init True sample_loader module_start) = 0" by (simp add: init_defs sample_loader_def)
  then obtain m where m: "padlock_guard_init True sample_loader module_start = (0, m)" by (metis prod.collapse)
  then show ?thesis using that init_success [OF m] by blast
qed

theorem probes_refuse_writers_witness:
  "\<exists>m s. fst (enter_hook ARM64 sample_kernel sample_env 11 (m\<lparr>guard := s\<rparr>) ''security_path_unlink'' sample_regs) = 1 \<and>
    enter_hook ARM64 sample_kernel sample_env 10 (m\<lparr>guard := s\<rparr>) ''security_path_unlink'' sample_regs = (0, sample_regs)"
proof -
  obtain m where m: "padlock_guard_init True sample_loader module_start = (0, m)" "guard m = guard_start" by (rule sample_load)
  obtain s where r: "guard_run sample_env guard_start [(10, 0x50205001, Some (1, 7), 0), (10, 0xD0205003, Some (1, 7), 0)] s"
    and p: "protected sample_env s = [(1, 7) \<mapsto> sample_protection\<lparr>p_session := Some (10, 5)\<rparr>]" by (rule sample_run)
  let ?c = "Path_unlink 0x42 0x42"
  have "hook_outcome ARM64 sample_kernel sample_regs (q \<noteq> 10)
      (enter_hook ARM64 sample_kernel sample_env q (m\<lparr>guard := s\<rparr>) ''security_path_unlink'' sample_regs)" for q
    using probes_refuse_writers [OF m(1), of ?c sample_env _ s sample_kernel sample_regs q ARM64] r p m(2) sample_regs_laws
    by (simp add: sample_loader_def dentry_ptr_def inodes_at_def sample_kernel_def sample_regs_def may_write_def)
  from this [of 10] this [of 11] show ?thesis
    by (intro exI [of _ m] exI [of _ s]) (simp add: hook_outcome_def padlock_guard_kprobe_return_address_def sample_regs_def)
qed

text \<open>
  C33: a protected file can be replaced: whatever the protection of the target is, the handler of
  \<open>security_path_rename\<close> lets a rename of an unprotected file over it run, although the rename removes the
  protected file.
\<close>

theorem rename_over_protected_passes:
  assumes "padlock_guard_init True l module_start = (0, m)" "register_kprobe l ''security_path_rename'' = 0"
    and "guard_run env (guard m) tr s" "regs_laws k" "called k r (Path_rename old_dir old_dentry new_dir new_dentry)"
    and "\<forall>x\<in>inodes_at (dentry_ptr k old_dentry). may_write q x (protected env s)"
    and "x \<in> inodes_at (dentry_ptr k new_dentry)" "\<not> may_write q x (protected env s)"
  shows "x \<in> changes k (Path_rename old_dir old_dentry new_dir new_dentry) \<and>
    enter_hook a k env q (m\<lparr>guard := s\<rparr>) ''security_path_rename'' r = (0, r)"
proof
  show "x \<in> changes k (Path_rename old_dir old_dentry new_dir new_dentry)" using assms(7) by simp
  have inv: "guard_inv env s" using assms(3) init_success [OF assms(1)] guard_run_inv guard_inv_start(1) by metis
  have "\<not> decision k q (Path_rename old_dir old_dentry new_dir new_dentry) (protected env s)"
    using assms(6) by (auto simp: refused_def inodes_at_def split: option.splits)
  then show "enter_hook a k env q (m\<lparr>guard := s\<rparr>) ''security_path_rename'' r = (0, r)"
    using enter_hook_decides [OF assms(1) _ assms(4) inv assms(5), of a q] assms(2) by (simp add: hook_outcome_def)
qed

text \<open>A file at 0x42 that is not protected, and the protected one at 0x43.\<close>

definition rename_kernel :: kernel where
  "rename_kernel = sample_kernel\<lparr>d_inode := (\<lambda>p. Some (1, if p = 0x43 then 7 else 8))\<rparr>"

definition rename_regs :: pt_regs where
  "rename_regs = \<lparr>regs = (\<lambda>i. if i = 3 then 0x43 else 0x42), sp = 0x1000, pc = 0\<rparr>"

theorem rename_over_protected_passes_witness:
  "\<exists>m s. enter_hook ARM64 rename_kernel sample_env 11 (m\<lparr>guard := s\<rparr>) ''security_path_rename'' rename_regs = (0, rename_regs) \<and>
     \<not> may_write 11 (1, 7) (protected sample_env s)"
proof -
  obtain m where m: "padlock_guard_init True sample_loader module_start = (0, m)" "guard m = guard_start" by (rule sample_load)
  obtain s where r: "guard_run sample_env guard_start [(10, 0x50205001, Some (1, 7), 0), (10, 0xD0205003, Some (1, 7), 0)] s"
    and p: "protected sample_env s = [(1, 7) \<mapsto> sample_protection\<lparr>p_session := Some (10, 5)\<rparr>]" by (rule sample_run)
  have laws: "regs_laws rename_kernel" using sample_regs_laws by (simp add: regs_laws_def rename_kernel_def)
  have no: "\<not> may_write 11 (1, 7) (protected sample_env s)" using p by (simp add: may_write_def)
  have "enter_hook ARM64 rename_kernel sample_env 11 (m\<lparr>guard := s\<rparr>) ''security_path_rename'' rename_regs = (0, rename_regs)"
    using rename_over_protected_passes [OF m(1), of sample_env _ s rename_kernel rename_regs "0x42" "0x42" "0x42" "0x43" 11 "(1, 7)" ARM64] r p m(2) laws no
    by (simp add: sample_loader_def dentry_ptr_def inodes_at_def rename_kernel_def sample_kernel_def rename_regs_def may_write_def)
  then show ?thesis using no by blast
qed

text \<open>
  C34: on arm64 a refused hook is to its caller exactly a return of \<open>-EPERM\<close>. On x86_64 it is not: the
  return address is read from the stack but not popped, so the caller resumes with a stack pointer
  eight bytes too low.
\<close>

theorem refusal_is_return_only_on_arm64:
  assumes "regs_laws k"
  shows "(regs r 30 \<noteq> 0 \<longrightarrow> (\<exists>r'. padlock_guard_kprobe_deny ARM64 k r = (1, r') \<and> hook_returns ARM64 k r r')) \<and>
    (load k (sp r) \<noteq> 0 \<longrightarrow> (\<exists>r'. padlock_guard_kprobe_deny X86_64 k r = (1, r') \<and> \<not> hook_returns X86_64 k r r' \<and>
       hook_returns X86_64 k r (r'\<lparr>sp := sp r' + 8\<rparr>)))"
proof (intro conjI impI)
  assume "regs r 30 \<noteq> 0"
  then show "\<exists>r'. padlock_guard_kprobe_deny ARM64 k r = (1, r') \<and> hook_returns ARM64 k r r'"
    using assms by (auto simp: padlock_guard_kprobe_deny_def padlock_guard_kprobe_return_address_def hook_returns_def regs_laws_def Let_def)
next
  assume "load k (sp r) \<noteq> 0"
  then show "\<exists>r'. padlock_guard_kprobe_deny X86_64 k r = (1, r') \<and> \<not> hook_returns X86_64 k r r' \<and>
       hook_returns X86_64 k r (r'\<lparr>sp := sp r' + 8\<rparr>)"
    using assms
    by (auto simp: padlock_guard_kprobe_deny_def padlock_guard_kprobe_return_address_def hook_returns_def regs_laws_def Let_def)
qed

theorem refusal_is_return_only_on_arm64_witness:
  "\<exists>r'. padlock_guard_kprobe_deny X86_64 sample_kernel sample_regs = (1, r') \<and> \<not> hook_returns X86_64 sample_kernel sample_regs r'"
  using refusal_is_return_only_on_arm64 [OF sample_regs_laws, of sample_regs] by (auto simp: sample_kernel_def)

text \<open>
  C35: loading is all or nothing: when \<open>padlock_guard_init\<close> fails no probe and no device stays registered;
  when it succeeds the device, the write probe and every optional probe whose symbol the kernel knows
  are registered, and unloading then removes all of them and drops the reference exactly if it was taken.
\<close>

theorem load_all_or_nothing:
  assumes "padlock_guard_init security_path l module_start = (rc, m)"
  shows "if rc \<noteq> 0 then registered m = [] \<and> \<not> device m \<and> \<not> padlock_guard_pinned m
    else device m \<and> registered m = probe_file_permission #
        map fst (filter (\<lambda>(p, symbol, h). register_kprobe l symbol \<noteq> - ENOENT) (optional_probes security_path)) \<and>
      (case padlock_guard_exit security_path m of (dropped, m') \<Rightarrow> dropped = try_module_get l \<and> registered m' = [] \<and> \<not> device m')"
proof (cases "rc = 0")
  case True
  from assms have ok: "padlock_guard_init security_path l module_start = (0, m)" by (simp add: True)
  note s = init_success [OF ok]
  have "filter (\<lambda>(p, symbol, h). register_kprobe l symbol = 0) (optional_probes security_path) =
      filter (\<lambda>(p, symbol, h). register_kprobe l symbol \<noteq> - ENOENT) (optional_probes security_path)"
    using s by (intro filter_cong) auto
  moreover have "registered (snd (padlock_guard_exit security_path m)) = []"
    using s by (auto simp: padlock_guard_exit_def padlock_guard_unregister_all_probes_def unregister_kprobe_def optional_probes_def Let_def)
  ultimately show ?thesis using s True by (simp add: padlock_guard_exit_def)
next
  case False
  then show ?thesis using init_failure [OF assms] by simp
qed

theorem load_all_or_nothing_witness:
  "\<exists>m. padlock_guard_init True sample_loader module_start = (0, m) \<and>
    registered m = [probe_file_permission, probe_path_unlink, probe_path_rename, probe_path_truncate]"
proof -
  have "fst (padlock_guard_init True sample_loader module_start) = 0" by (simp add: init_defs sample_loader_def)
  then obtain m where "padlock_guard_init True sample_loader module_start = (0, m)" by (metis prod.collapse)
  then show ?thesis using load_all_or_nothing [of True sample_loader 0 m] by (simp add: optional_probes_def sample_loader_def)
qed

text \<open>
  C31: the loaded module protects: after a successful load and any requests, entering
  \<open>security_file_permission\<close> for writing on a protected inode, by a process that does not hold the
  session, is refused with \<open>-EPERM\<close>; the holder, readers, and other files pass.
\<close>

theorem loaded_module_protects:
  assumes "padlock_guard_init security_path l module_start = (0, m)" "guard_run env (guard m) tr s" "regs_laws k"
    and "regs_get_kernel_argument k r 0 = f" "f \<noteq> 0" "file_inode k f = Some x"
  shows "hook_outcome a k r (ucast (regs_get_kernel_argument k r 1) AND MAY_WRITE \<noteq> 0 \<and> \<not> may_write q x (protected env s))
    (enter_hook a k env q (m\<lparr>guard := s\<rparr>) ''security_file_permission'' r)"
proof -
  note i = init_success [OF assms(1)]
  have "guard_inv env s" using assms(2) i guard_run_inv guard_inv_start(1) by metis
  moreover have "enter_hook a k env q (m\<lparr>guard := s\<rparr>) ''security_file_permission'' r = padlock_guard_kprobe_file_permission a k env q s r"
    using i by (simp add: enter_hook_def)
  ultimately show ?thesis
    using handlers_decide(1) [OF assms(3), of env s a r q] assms(4-6) by (simp add: refused_def file_ptr_def)
qed

theorem loaded_module_protects_witness:
  "\<exists>m s. padlock_guard_init True sample_loader module_start = (0, m) \<and>
    fst (enter_hook ARM64 sample_kernel sample_env 11 (m\<lparr>guard := s\<rparr>) ''security_file_permission'' sample_regs) = 1"
proof -
  obtain m where m: "padlock_guard_init True sample_loader module_start = (0, m)" and g: "guard m = guard_start" by (rule sample_load)
  obtain s where r: "guard_run sample_env guard_start [(10, 0x50205001, Some (1, 7), 0), (10, 0xD0205003, Some (1, 7), 0)] s"
    and p: "protected sample_env s = [(1, 7) \<mapsto> sample_protection\<lparr>p_session := Some (10, 5)\<rparr>]" by (rule sample_run)
  have "hook_outcome ARM64 sample_kernel sample_regs True
      (enter_hook ARM64 sample_kernel sample_env 11 (m\<lparr>guard := s\<rparr>) ''security_file_permission'' sample_regs)"
    using loaded_module_protects [OF m _ sample_regs_laws, of sample_env _ s sample_regs "0x42" "(1, 7)" ARM64 11] r p g
    by (simp add: sample_kernel_def sample_regs_def may_write_def)
  then show ?thesis using m by (auto simp: hook_outcome_def padlock_guard_kprobe_return_address_def sample_regs_def)
qed

end
