(* ===== verification/Padlock_Config.thy ===== *)
theory Padlock_Config
  imports Padlock_World
begin

text \<open>
  The small functions of \<^verbatim>\<open>src/src/padlock.c\<close> that prepare a call: \<open>padlock_version\<close>,
  \<open>padlock_parse_size\<close>, \<open>padlock_default_store_path\<close>, \<open>ensure_directory_tree\<close> and
  \<open>padlock_tpm_paths\<close>, with the functions of the C library they use (\<open>strtoull\<close>, \<open>strcasecmp\<close>,
  \<open>snprintf\<close>, \<open>getenv\<close>).
\<close>

section \<open>The C library\<close>

definition isspace :: "char \<Rightarrow> bool" where
  "isspace c \<longleftrightarrow> (of_char c :: nat) = 32 \<or> 9 \<le> (of_char c :: nat) \<and> (of_char c :: nat) \<le> 13"

definition isdigit :: "char \<Rightarrow> bool" where
  "isdigit c \<longleftrightarrow> 48 \<le> (of_char c :: nat) \<and> (of_char c :: nat) \<le> 57"

definition tolower :: "char \<Rightarrow> char" where
  "tolower c = (if 65 \<le> (of_char c :: nat) \<and> (of_char c :: nat) \<le> 90 then char_of ((of_char c :: nat) + 32) else c)"

definition strcasecmp_eq :: "string \<Rightarrow> string \<Rightarrow> bool" where
  "strcasecmp_eq s t \<longleftrightarrow> map tolower s = map tolower t"

definition decimal :: "string \<Rightarrow> nat" where
  "decimal ds = foldl (\<lambda>n c. 10 * n + (of_char c - 48)) 0 ds"

text \<open>
  \<open>strtoull\<close> in base 10: the number, what follows it, and whether it is out of range. Leading
  white space and a sign are accepted, and a negative number is negated as an unsigned one. With
  no digits nothing is converted and the rest is the whole string.
\<close>

definition strtoull :: "string \<Rightarrow> u64 \<times> string \<times> bool" where
  "strtoull s =
     (let t = dropWhile isspace s;
          neg = (t \<noteq> [] \<and> hd t = CHR ''-'');
          u = (if t \<noteq> [] \<and> (hd t = CHR ''-'' \<or> hd t = CHR ''+'') then tl t else t);
          ds = takeWhile isdigit u; n = decimal ds in
      if ds = [] then (0, s, False)
      else if n \<ge> 2 ^ 64 then (- 1, dropWhile isdigit u, True)
      else (if neg then - of_nat n else of_nat n, dropWhile isdigit u, False))"

text \<open>
  \<open>snprintf(buffer, n, ...)\<close> of a text into a buffer of \<open>n > 0\<close> characters: the return value and
  the string then in the buffer.
\<close>

definition snprintf :: "nat \<Rightarrow> string \<Rightarrow> int \<times> string" where
  "snprintf n s = (if length s < 2 ^ 31 then (int (length s), take (n - 1) s) else (- 1, take (n - 1) s))"

definition getenv :: "string \<Rightarrow> world \<Rightarrow> string option" where
  "getenv name w = w_env w name"

section \<open>Sizes\<close>

definition padlock_version :: string where
  "padlock_version = ''0.1.0''"

definition padlock_free :: "byte list option \<Rightarrow> world \<Rightarrow> world" where
  "padlock_free val w = free ''value'' val w"

text \<open>The result, the number stored through the pointer if any, and the world with \<open>errno\<close>; \<open>given\<close> says that there is a pointer.\<close>

definition padlock_parse_size :: "string option \<Rightarrow> bool \<Rightarrow> world \<Rightarrow> int \<times> u64 option \<times> world" where
  "padlock_parse_size val given w =
     (case val of
        None \<Rightarrow> (- 1, None, set_errno EINVAL w)
      | Some v \<Rightarrow>
          if \<not> given \<or> v = '''' then (- 1, None, set_errno EINVAL w)
          else
            (let (number, end', out_of_range) = strtoull v;
                 w = set_errno (if out_of_range then ERANGE else 0) w in
             if w_errno w \<noteq> 0 \<or> end' = v then (- 1, None, w)
             else
               (case
                  (if strcasecmp_eq end' ''KB'' \<or> strcasecmp_eq end' ''K'' then Some 1024
                   else if strcasecmp_eq end' ''MB'' \<or> strcasecmp_eq end' ''M'' then Some (1024 * 1024)
                   else if strcasecmp_eq end' ''GB'' \<or> strcasecmp_eq end' ''G'' then Some (1024 * 1024 * 1024)
                   else if \<not> strcasecmp_eq end' ''B'' \<and> end' \<noteq> '''' then None
                   else Some 1) of
                  None \<Rightarrow> (- 1, None, w)
                | Some multiplier \<Rightarrow>
                    if number > - 1 div multiplier then (- 1, None, w)
                    else (0, Some (number * multiplier), w))))"

section \<open>Paths\<close>

text \<open>
  \<open>buffer\<close> says whether the pointer is given. The result has the string left in the buffer, or
  \<open>None\<close> if the buffer is not written.
\<close>

definition padlock_default_store_path :: "bool \<Rightarrow> nat \<Rightarrow> world \<Rightarrow> int \<times> string option \<times> world" where
  "padlock_default_store_path buffer buffer_length w =
     (let home = getenv ''HOME'' w; store_root = getenv ''PADLOCK_STORE_ROOT'' w in
      if \<not> buffer \<or> buffer_length = 0 then (- 1, None, set_errno EINVAL w)
      else case store_root of
        Some (c # root) \<Rightarrow>
          (let (written, s) = snprintf buffer_length ((c # root) @ ''/store.plk'') in
           (if written > 0 \<and> written < int buffer_length then 0 else - 1, Some s, w))
      | _ \<Rightarrow>
          (case home of
             None \<Rightarrow> (- 1, None, set_errno EINVAL w)
           | Some home \<Rightarrow>
               (let (written, s) = snprintf buffer_length (home @ ''/.padlock/store.plk'') in
                (if written > 0 \<and> written < int buffer_length then 0 else - 1, Some s, w))))"

text \<open>The three paths, in buffers of \<open>PATH_MAX\<close> characters as the caller has them.\<close>

definition padlock_tpm_paths :: "world \<Rightarrow> (string \<times> string \<times> string) option" where
  "padlock_tpm_paths w =
     (case getenv ''HOME'' w of
        None \<Rightarrow> None
      | Some home \<Rightarrow>
          (let (n, directory) = snprintf 4096 (home @ ''/'' @ ''.padlock/tpm'') in
           if n \<ge> 4096 then None
           else
          (let (n, public_path) = snprintf 4096 (directory @ ''/'' @ ''header-hmac.pub'') in
           if n \<ge> 4096 then None
           else
          (let (n, private_path) = snprintf 4096 (directory @ ''/'' @ ''header-hmac.priv'') in
           if n \<ge> 4096 then None
           else Some (directory, public_path, private_path)))))"

text \<open>
  One directory of the path: made if it is missing, then given mode 0700. The loop over the
  characters of the copy starts at the second one and stops at a failure.
\<close>

definition make_directory :: "string \<Rightarrow> world \<Rightarrow> bool \<times> world" where
  "make_directory path w =
     (case mkdir path mode_0700 w of
        (rc, w) \<Rightarrow>
          if rc \<noteq> 0 \<and> w_errno w \<noteq> EEXIST then (False, w)
          else (True, snd (chmod path mode_0700 w)))"

function tree_loop :: "string \<Rightarrow> nat \<Rightarrow> world \<Rightarrow> bool \<times> world" where
  "tree_loop copy cursor w =
     (if cursor < length copy then
        if copy ! cursor \<noteq> CHR ''/'' then tree_loop copy (Suc cursor) w
        else
          (case make_directory (take cursor copy) w of
             (False, w) \<Rightarrow> (False, w)
           | (True, w) \<Rightarrow> tree_loop copy (Suc cursor) w)
      else (True, w))"
  by pat_completeness auto
termination tree_loop
  by (relation "measure (\<lambda>(copy, cursor, w). length copy - cursor)") auto

declare tree_loop.simps [simp del]

definition ensure_directory_tree :: "string option \<Rightarrow> world \<Rightarrow> int \<times> world" where
  "ensure_directory_tree path w =
     (case path of
        None \<Rightarrow> (- 1, w)
      | Some path \<Rightarrow>
          if length path = 0 \<or> length path \<ge> 4096 then (- 1, w)
          else
            (case tree_loop path 1 w of
               (False, w) \<Rightarrow> (- 1, w)
             | (True, w) \<Rightarrow>
                 (case make_directory path w of
                    (False, w) \<Rightarrow> (- 1, w)
                  | (True, w) \<Rightarrow> (0, w))))"


section \<open>Sizes are exact\<close>

text \<open>The unit a suffix stands for.\<close>

definition size_unit :: "string \<Rightarrow> nat option" where
  "size_unit suffix =
     (let s = map tolower suffix in
      if s = '''' \<or> s = ''b'' then Some 1
      else if s = ''k'' \<or> s = ''kb'' then Some 1024
      else if s = ''m'' \<or> s = ''mb'' then Some (1024 * 1024)
      else if s = ''g'' \<or> s = ''gb'' then Some (1024 * 1024 * 1024)
      else None)"

lemma strtoull_digits:
  assumes "ds \<noteq> ''''" "list_all isdigit ds" "suf = '''' \<or> \<not> isdigit (hd suf)"
  shows "strtoull (ds @ suf) = (if decimal ds \<ge> 2 ^ 64 then (- 1, suf, True) else (of_nat (decimal ds), suf, False))"
proof -
  obtain c cs where ds: "ds = c # cs" using assms(1) by (cases ds) auto
  have c: "isdigit c" using assms(2) ds by simp
  then have nc: "\<not> isspace c" "c \<noteq> CHR ''-''" "c \<noteq> CHR ''+''" by (auto simp: isdigit_def isspace_def)
  have all: "\<And>x. x \<in> set ds \<Longrightarrow> isdigit x" using assms(2) by (simp add: list_all_iff)
  have "takeWhile isdigit (ds @ suf) = ds @ takeWhile isdigit suf" using all by (rule takeWhile_append2)
  moreover have "dropWhile isdigit (ds @ suf) = dropWhile isdigit suf" using all by (rule dropWhile_append2)
  moreover have "takeWhile isdigit suf = []" "dropWhile isdigit suf = suf" using assms(3) by (cases suf; simp)+
  ultimately have t: "takeWhile isdigit (c # cs @ suf) = c # cs" "dropWhile isdigit (c # cs @ suf) = suf" by (simp_all add: ds)
  have d: "dropWhile isspace (c # cs @ suf) = c # cs @ suf" using nc by simp
  show ?thesis unfolding strtoull_def ds append_Cons d Let_def using nc t by (simp del: takeWhile.simps dropWhile.simps)
qed

lemma quotient_check:
  assumes "0 < k" "k < 2 ^ 64" "n < 2 ^ 64"
  shows "(of_nat n :: u64) > - 1 div of_nat k \<longleftrightarrow> \<not> n * k < 2 ^ 64"
proof -
  have m: "unat (- 1 :: u64) = 2 ^ 64 - 1" by (simp add: unsigned_minus_1_eq_mask mask_eq_exp_minus_1)
  have k: "unat (of_nat k :: u64) = k" "unat (of_nat n :: u64) = n"
    using assms(2,3) by (simp_all add: unsigned_of_nat take_bit_nat_eq_self)
  have "(of_nat n :: u64) > - 1 div of_nat k \<longleftrightarrow> (2 ^ 64 - 1) div k < n"
    unfolding word_less_nat_alt unat_div m k by simp
  also have "\<dots> \<longleftrightarrow> \<not> n * k \<le> 2 ^ 64 - 1" using assms(1) by (metis less_eq_div_iff_mult_less_eq not_le)
  also have "\<dots> \<longleftrightarrow> \<not> n * k < 2 ^ 64" by auto
  finally show ?thesis .
qed

lemma size_unit_branches:
  "(if strcasecmp_eq e ''KB'' \<or> strcasecmp_eq e ''K'' then Some (1024 :: u64)
    else if strcasecmp_eq e ''MB'' \<or> strcasecmp_eq e ''M'' then Some (1024 * 1024)
    else if strcasecmp_eq e ''GB'' \<or> strcasecmp_eq e ''G'' then Some (1024 * 1024 * 1024)
    else if \<not> strcasecmp_eq e ''B'' \<and> e \<noteq> '''' then None
    else Some 1) = map_option of_nat (size_unit e)"
proof -
  have l: "map tolower ''KB'' = ''kb''" "map tolower ''K'' = ''k''" "map tolower ''MB'' = ''mb''" "map tolower ''M'' = ''m''"
    "map tolower ''GB'' = ''gb''" "map tolower ''G'' = ''g''" "map tolower ''B'' = ''b''" by code_simp+
  have e: "e = '''' \<longleftrightarrow> map tolower e = ''''" by simp
  show ?thesis unfolding strcasecmp_eq_def size_unit_def Let_def l e
    by (cases "map tolower e") simp_all
qed

lemma size_unit_bounds: "size_unit e = Some k \<Longrightarrow> 0 < k \<and> k < 2 ^ 64"
  by (auto simp: size_unit_def Let_def split: if_splits)

lemma parse_size_digits:
  assumes "ds \<noteq> ''''" "list_all isdigit ds" "suf = '''' \<or> \<not> isdigit (hd suf)"
  shows "\<exists>w'. padlock_parse_size (Some (ds @ suf)) True w =
    (case size_unit suf of
       None \<Rightarrow> (- 1, None, w')
     | Some k \<Rightarrow> if decimal ds * k < 2 ^ 64 then (0, Some (of_nat (decimal ds * k)), w') else (- 1, None, w'))"
proof -
  note st = strtoull_digits [OF assms]
  have ne: "suf \<noteq> ds @ suf" "ds @ suf \<noteq> ''''" using assms(1) by auto
  show ?thesis
  proof (cases "decimal ds < 2 ^ 64")
    case True
    have "padlock_parse_size (Some (ds @ suf)) True w =
      (case map_option of_nat (size_unit suf) of None \<Rightarrow> (- 1, None, set_errno 0 w)
       | Some multiplier \<Rightarrow> if of_nat (decimal ds) > - 1 div multiplier then (- 1, None, set_errno 0 w)
           else (0, Some (of_nat (decimal ds) * multiplier), set_errno 0 w))"
      unfolding padlock_parse_size_def size_unit_branches using True ne by (simp add: st Let_def)
    then show ?thesis
      using quotient_check [of _ "decimal ds"] True
      by (cases "size_unit suf") (auto dest!: size_unit_bounds)
  next
    case False
    have "\<not> decimal ds * k < 2 ^ 64" if "size_unit suf = Some k" for k
      using False size_unit_bounds [OF that] by (metis le_trans linorder_not_less mult_le_mono2 nat_mult_1_right Suc_leI One_nat_def)
    moreover have "padlock_parse_size (Some (ds @ suf)) True w = (- 1, None, set_errno ERANGE w)"
      using False ne by (simp add: padlock_parse_size_def st Let_def)
    ultimately show ?thesis by (auto split: option.splits)
  qed
qed


section \<open>Directory trees\<close>

text \<open>The lengths of the prefixes of a path that name its directories, the path itself included.\<close>

definition dir_prefix :: "string \<Rightarrow> nat \<Rightarrow> bool" where
  "dir_prefix p i \<longleftrightarrow> 0 < i \<and> i \<le> length p \<and> (i = length p \<or> p ! i = CHR ''/'')"

lemma before_last_slashD:
  assumes "before_last_slash s = Some a"
  obtains k where "k < length s" "a = take k s" "s ! k = CHR ''/''"
proof -
  have "CHR ''/'' \<in> set s" using assms by (auto simp: before_last_slash_def split: if_splits)
  then obtain x y where s: "s = x @ CHR ''/'' # y" "CHR ''/'' \<notin> set y" using split_list_last by metis
  have "dropWhile (\<lambda>c. c \<noteq> CHR ''/'') (rev s) = CHR ''/'' # rev x"
    using s(2) by (auto simp: s(1) dropWhile_append3)
  then have "a = x" using assms s(1) by (simp add: before_last_slash_def)
  then show ?thesis using that [of "length x"] s(1) by simp
qed

text \<open>\<open>tree_made w p i w'\<close>: the directories of \<open>p\<close> below length \<open>i\<close> are there with mode 0700, and nothing else changed.\<close>

definition tree_made :: "world \<Rightarrow> string \<Rightarrow> nat \<Rightarrow> world \<Rightarrow> bool" where
  "tree_made w p i w' \<longleftrightarrow> w_faults w' = [] \<and> w_files w' = w_files w \<and> w_env w' = w_env w \<and> w_suffixes w' = w_suffixes w \<and>
     w_rand w' = w_rand w \<and> w_rpos w' = w_rpos w \<and>
     (\<forall>q. w_dirs w' q = (if \<exists>j<i. dir_prefix p j \<and> q = take j p then Some mode_0700 else w_dirs w q))"

lemma tree_made_Suc: "\<not> dir_prefix p i \<Longrightarrow> tree_made w p (Suc i) w' = tree_made w p i w'"
proof -
  assume "\<not> dir_prefix p i"
  then have "(\<exists>j<Suc i. dir_prefix p j \<and> q = take j p) \<longleftrightarrow> (\<exists>j<i. dir_prefix p j \<and> q = take j p)" for q
    by (metis less_Suc_eq)
  then show ?thesis by (simp only: tree_made_def)
qed

lemma make_directory_step:
  assumes made: "tree_made w p i w1" and i: "dir_prefix p i" and free: "w_files w (take i p) = None"
  obtains w2 where "make_directory (take i p) w1 = (True, w2)" "tree_made w p (Suc i) w2"
proof -
  have ne: "take i p \<noteq> ''''" using i by (auto simp: dir_prefix_def)
  have par: "parent_exists (take i p) w1"
  proof (cases "before_last_slash (take i p)")
    case (Some a)
    then obtain k where k: "k < i" "a = take k p" "p ! k = CHR ''/''" "k < length p"
      by (rule before_last_slashD) auto
    then have "k \<noteq> 0 \<Longrightarrow> \<exists>j<i. dir_prefix p j \<and> a = take j p" by (auto simp: dir_prefix_def)
    then show ?thesis using made Some k(2) by (cases "k = 0") (auto simp: parent_exists_def tree_made_def)
  qed (simp add: parent_exists_def)
  have f: "w_files w1 (take i p) = None" "w_faults w1 = []" using made free by (simp_all add: tree_made_def)
  obtain e where "mkdir (take i p) mode_0700 w1 =
      (if w_dirs w1 (take i p) = None then (0, w1\<lparr>w_dirs := (w_dirs w1)(take i p \<mapsto> mode_0700)\<rparr>) else (- 1, set_errno EEXIST w1))"
    using ne par f by (simp add: mkdir_def)
  then have "\<exists>w2. make_directory (take i p) w1 = (True, w2) \<and> w_faults w2 = [] \<and> w_files w2 = w_files w1 \<and> w_env w2 = w_env w1 \<and>
      w_rand w2 = w_rand w1 \<and> w_rpos w2 = w_rpos w1 \<and> w_suffixes w2 = w_suffixes w1 \<and> w_dirs w2 = (w_dirs w1)(take i p \<mapsto> mode_0700)"
    using f by (auto simp: make_directory_def chmod_def fun_upd_idem)
  then obtain w2 where w2: "make_directory (take i p) w1 = (True, w2)" "w_faults w2 = []" "w_files w2 = w_files w1" "w_env w2 = w_env w1"
      "w_rand w2 = w_rand w1" "w_rpos w2 = w_rpos w1" "w_suffixes w2 = w_suffixes w1" "w_dirs w2 = (w_dirs w1)(take i p \<mapsto> mode_0700)" by blast
  have "tree_made w p (Suc i) w2"
    using made i unfolding tree_made_def w2(2-8) by (auto simp: less_Suc_eq)
  with w2(1) that show ?thesis by blast
qed

lemma tree_loop_makes:
  assumes "tree_made w p i w1" "0 < i" "i \<le> length p" "\<And>j. dir_prefix p j \<Longrightarrow> w_files w (take j p) = None"
  shows "\<exists>w2. tree_loop p i w1 = (True, w2) \<and> tree_made w p (length p) w2"
  using assms(1-3)
proof (induction "length p - i" arbitrary: i w1)
  case 0
  then show ?case by (subst tree_loop.simps) simp
next
  case (Suc d)
  then have i: "i < length p" by simp
  show ?case
  proof (cases "p ! i = CHR ''/''")
    case True
    then have pre: "dir_prefix p i" using Suc.prems(2) i by (simp add: dir_prefix_def)
    obtain w2 where w2: "make_directory (take i p) w1 = (True, w2)" "tree_made w p (Suc i) w2"
      by (rule make_directory_step [OF Suc.prems(1) pre assms(4) [OF pre]])
    have "\<exists>w3. tree_loop p (Suc i) w2 = (True, w3) \<and> tree_made w p (length p) w3"
      by (rule Suc.hyps(1)) (use Suc.hyps(2) w2(2) i in auto)
    then show ?thesis using True i w2(1) by (subst tree_loop.simps) simp
  next
    case False
    then have "\<not> dir_prefix p i" using i by (simp add: dir_prefix_def)
    then have "tree_made w p (Suc i) w1" using Suc.prems(1) by (simp add: tree_made_Suc)
    then have "\<exists>w3. tree_loop p (Suc i) w1 = (True, w3) \<and> tree_made w p (length p) w3"
      by (rule_tac Suc.hyps(1)) (use Suc.hyps(2) i in auto)
    then show ?thesis using False i by (subst tree_loop.simps) simp
  qed
qed

lemma dir_prefix_bound: "(\<exists>j<Suc (length p). dir_prefix p j \<and> q = take j p) \<longleftrightarrow> (\<exists>i. dir_prefix p i \<and> q = take i p)"
  by (auto simp: dir_prefix_def less_Suc_eq_le)

lemma ensure_tree:
  assumes "w_faults w = []" "0 < length p" "length p < 4096" "\<forall>i. dir_prefix p i \<longrightarrow> w_files w (take i p) = None"
  obtains w' where "ensure_directory_tree (Some p) w = (0, w')" "tree_made w p (Suc (length p)) w'"
proof -
  have "tree_made w p 1 w" using assms(1) by (auto simp: tree_made_def dir_prefix_def)
  then obtain w1 where w1: "tree_loop p 1 w = (True, w1)" "tree_made w p (length p) w1"
    using tree_loop_makes [of w p 1 w] assms by auto
  have last: "dir_prefix p (length p)" using assms(2) by (simp add: dir_prefix_def)
  obtain w2 where w2: "make_directory (take (length p) p) w1 = (True, w2)" "tree_made w p (Suc (length p)) w2"
    by (rule make_directory_step [OF w1(2) last]) (use assms(4) last in auto)
  then show ?thesis using that [of w2] assms(2,3) w1(1) by (simp add: ensure_directory_tree_def)
qed

section \<open>Properties\<close>

definition home_world :: world where
  "home_world = \<lparr>w_files = (\<lambda>_. None), w_dirs = [''/h'' \<mapsto> 493], w_env = [''HOME'' \<mapsto> ''/h''], w_suffixes = [],
     w_errno = 0, w_faults = [], w_rand = (\<lambda>_. 0), w_rpos = 0, w_junk = (\<lambda>_. 0), w_open = 0, w_live = 0, w_residue = []\<rparr>"

text \<open>
  C37: \<open>padlock_parse_size\<close> on a decimal number with a unit returns the exact number of bytes, and -1
  exactly when the unit is unknown or the product does not fit in 64 bits. A sign is not rejected:
  \<open>-1\<close> is taken as the largest 64-bit number.
\<close>

theorem parse_size_exact:
  assumes "ds \<noteq> ''''" "list_all isdigit ds" "suf = '''' \<or> \<not> isdigit (hd suf)"
  shows "(\<exists>w'. padlock_parse_size (Some (ds @ suf)) True w =
    (case size_unit suf of
       None \<Rightarrow> (- 1, None, w')
     | Some k \<Rightarrow> if decimal ds * k < 2 ^ 64 then (0, Some (of_nat (decimal ds * k)), w') else (- 1, None, w'))) \<and>
    padlock_parse_size (Some ''-1'') True w = (0, Some (- 1), set_errno 0 w)"
proof
  show "padlock_parse_size (Some ''-1'') True w = (0, Some (- 1), set_errno 0 w)"
  proof -
    have "strtoull ''-1'' = (- 1, '''', False)" by (simp add: strtoull_def isspace_def isdigit_def decimal_def)
    then show ?thesis by (simp add: padlock_parse_size_def strcasecmp_eq_def)
  qed
qed (rule parse_size_digits [OF assms])

theorem parse_size_exact_witness:
  "\<exists>w. fst (snd (padlock_parse_size (Some ''2Gb'') True w)) = Some 0x80000000 \<and> fst (padlock_parse_size (Some ''2 GB'') True w) = - 1"
proof -
  have l: "map tolower ''Gb'' = ''gb''" "map tolower '' GB'' = '' gb''" by code_simp+
  have d: "decimal ''2'' = 2" "size_unit ''Gb'' = Some (1024 * 1024 * 1024)" "size_unit '' GB'' = None"
    "list_all isdigit ''2''" "\<not> isdigit (hd ''Gb'')" "\<not> isdigit (hd '' GB'')"
    unfolding size_unit_def l Let_def by (simp_all add: decimal_def isdigit_def)
  fix w show ?thesis
    using parse_size_exact [of "''2''" "''Gb''" w, THEN conjunct1] parse_size_exact [of "''2''" "'' GB''" w, THEN conjunct1]
    unfolding d by (intro exI [of _ w]) (auto simp: isdigit_def)
qed

text \<open>
  \<open>padlock_default_store_path\<close> returns 0 exactly when the path fits into the buffer with its
  terminator, and then the buffer holds \<open>store.plk\<close> under \<open>PADLOCK_STORE_ROOT\<close> if that is set and not
  empty, and under \<open>.padlock\<close> in \<open>HOME\<close> otherwise; without both it fails with \<open>EINVAL\<close>. The string in the
  buffer is always shorter than the buffer.
\<close>

theorem default_store_path_precedence:
  assumes "0 < n" "n < 2 ^ 31"
  shows "case (getenv ''PADLOCK_STORE_ROOT'' w, getenv ''HOME'' w) of
    (Some (c # root), _) \<Rightarrow> padlock_default_store_path True n w =
      (if length root + 11 < n then (0, Some (c # root @ ''/store.plk''), w) else (- 1, Some (take (n - 1) (c # root @ ''/store.plk'')), w))
  | (_, Some home) \<Rightarrow> padlock_default_store_path True n w =
      (if length home + 19 < n then (0, Some (home @ ''/.padlock/store.plk''), w) else (- 1, Some (take (n - 1) (home @ ''/.padlock/store.plk'')), w))
  | (_, None) \<Rightarrow> padlock_default_store_path True n w = (- 1, None, set_errno EINVAL w)"
proof -
  have sn: "(case snprintf n s of (written, s') \<Rightarrow> (if written > 0 \<and> written < int n then 0 else - 1, Some s', w)) =
    (if length s < n then (0, Some s, w) else (- 1, Some (take (n - 1) s), w))" if "s \<noteq> ''''" for s
    using assms that by (simp add: snprintf_def)
  show ?thesis
    unfolding padlock_default_store_path_def Let_def
    by (simp add: sn assms(1) split: option.split list.split)
qed

theorem default_store_path_precedence_witness:
  "padlock_default_store_path True 4096 home_world =
   (0, Some ''/h/.padlock/store.plk'', home_world)"
  using default_store_path_precedence [of 4096 home_world] by (simp add: getenv_def home_world_def)

text \<open>
  C38: without failing calls and with no file in the way, \<open>ensure_directory_tree\<close> makes every directory of
  the path and changes nothing else, except that directories which existed before, up to the first
  component of the path, are given mode 0700 as well.
\<close>

theorem directory_tree_made:
  assumes "w_faults w = []" "0 < length p" "length p < 4096" "\<forall>i. dir_prefix p i \<longrightarrow> w_files w (take i p) = None"
  shows "\<exists>w'. ensure_directory_tree (Some p) w = (0, w') \<and> w_files w' = w_files w \<and>
    (\<forall>q. w_dirs w' q = (if \<exists>i. dir_prefix p i \<and> q = take i p then Some mode_0700 else w_dirs w q))"
  by (rule ensure_tree [OF assms]) (simp only: tree_made_def dir_prefix_bound, blast)

theorem directory_tree_made_witness:
  "\<exists>w w'. w_dirs w ''/h'' = Some 493 \<and> ensure_directory_tree (Some ''/h/t'') w = (0, w') \<and>
    w_dirs w' ''/h/t'' = Some mode_0700 \<and> w_dirs w' ''/h'' = Some mode_0700"
proof -
  let ?w = home_world
  have pre: "dir_prefix ''/h/t'' 2" "dir_prefix ''/h/t'' 4" by (simp_all add: dir_prefix_def)
  obtain w' where w': "ensure_directory_tree (Some ''/h/t'') ?w = (0, w')"
    and d: "\<And>q. w_dirs w' q = (if \<exists>i. dir_prefix ''/h/t'' i \<and> q = take i ''/h/t'' then Some mode_0700 else w_dirs ?w q)"
    using directory_tree_made [of ?w "''/h/t''"] by (auto simp: home_world_def)
  have "w_dirs w' ''/h'' = Some mode_0700" unfolding d using pre(1) by (intro if_P exI [of _ 2]) simp
  moreover have "w_dirs w' ''/h/t'' = Some mode_0700" unfolding d using pre(2) by (intro if_P exI [of _ 4]) simp
  ultimately show ?thesis using w' by (intro exI [of _ ?w] exI [of _ w']) (simp add: home_world_def)
qed

end
