(* ===== verification/Padlock_Tpm.thy ===== *)
theory Padlock_Tpm
  imports Padlock_Config Padlock_Crypto
begin

text \<open>
  The sealed key of \<^verbatim>\<open>src/src/padlock.c\<close>: the functions \<open>padlock_tpm_*\<close>, which keep a random key of 32
  bytes sealed by the TPM in two files under the home directory, and the derivation of the header
  password from it.

  The library tpm2-tss and the TPM behind it are a parameter, the record \<open>tss2\<close>: how blobs are
  marshalled, and what the TPM answers to each command. Every call can also fail by the next entry of
  \<open>w_faults\<close>. The state \<open>tworld\<close> is the world with the number of open transport and ESAPI contexts and
  of transient objects in the TPM; the blocks the library allocates count in \<open>w_live\<close>. The null checks
  of the functions whose callers all pass the address of a local are left out.
\<close>

unbundle bit_operations_syntax

section \<open>The library\<close>

type_synonym u16 = "16 word"

record TPM2B_PUBLIC =
  pub_size :: u16
  type :: u16
  nameAlg :: u16
  objectAttributes :: u32
  sym_algorithm :: u16
  sym_keyBits :: u16
  sym_mode :: u16
  rsa_scheme :: u16
  keyBits :: u16
  exponent :: u32
  keyedHash_scheme :: u16
  unique :: "byte list"

record TPM2B_SENSITIVE_CREATE =
  userAuth :: "byte list"
  sensitive_data :: "byte list"

record ('o, 'p) tss2 =
  sizeof_PUBLIC :: nat
  sizeof_PRIVATE :: nat
  PUBLIC_Marshal :: "TPM2B_PUBLIC \<Rightarrow> nat \<Rightarrow> byte list option"
  PRIVATE_Marshal :: "'p \<Rightarrow> nat \<Rightarrow> byte list option"
  PUBLIC_Unmarshal :: "byte list \<Rightarrow> (TPM2B_PUBLIC \<times> nat) option"
  PRIVATE_Unmarshal :: "byte list \<Rightarrow> ('p \<times> nat) option"
  TPM_CreatePrimary :: "TPM2B_SENSITIVE_CREATE \<Rightarrow> TPM2B_PUBLIC \<Rightarrow> 'o option"
  TPM_Create :: "'o \<Rightarrow> TPM2B_SENSITIVE_CREATE \<Rightarrow> TPM2B_PUBLIC \<Rightarrow> ('p \<times> TPM2B_PUBLIC) option"
  TPM_Load :: "'o \<Rightarrow> 'p \<Rightarrow> TPM2B_PUBLIC \<Rightarrow> 'o option"
  TPM_Unseal :: "'o \<Rightarrow> byte list option"

record tworld =
  t_tcti :: nat
  t_esys :: nat
  t_handles :: nat
  t_unflushed :: nat
  t_world :: world

abbreviation upd_world :: "(world \<Rightarrow> world) \<Rightarrow> tworld \<Rightarrow> tworld" where
  "upd_world f s \<equiv> s\<lparr>t_world := f (t_world s)\<rparr>"

definition esys_call :: "tworld \<Rightarrow> bool \<times> tworld" where
  "esys_call s = (case attempt (t_world s) of (ok, w) \<Rightarrow> (ok, s\<lparr>t_world := w\<rparr>))"

text \<open>A command that loads an object or allocates blocks for its answer does so when it succeeds.\<close>

definition esys_answer :: "nat \<Rightarrow> nat \<Rightarrow> 'a option \<Rightarrow> tworld \<Rightarrow> 'a option \<times> tworld" where
  "esys_answer handles blocks answer s =
     (case esys_call s of
        (False, s) \<Rightarrow> (None, s)
      | (True, s) \<Rightarrow>
          (case answer of
             None \<Rightarrow> (None, s)
           | Some x \<Rightarrow> (Some x, upd_world (\<lambda>w. w\<lparr>w_live := w_live w + blocks\<rparr>) (s\<lparr>t_handles := t_handles s + handles\<rparr>))))"

text \<open>
  \<open>Esys_FlushContext\<close> on an object that is loaded, its result ignored as the code does: where the command fails
  the object stays, and \<open>t_unflushed\<close> counts it.
\<close>

definition Esys_FlushContext :: "bool \<Rightarrow> tworld \<Rightarrow> tworld" where
  "Esys_FlushContext loaded s =
     (if \<not> loaded then s
      else case esys_call s of
        (True, s) \<Rightarrow> s\<lparr>t_handles := t_handles s - 1\<rparr>
      | (False, s) \<Rightarrow> s\<lparr>t_unflushed := Suc (t_unflushed s)\<rparr>)"

definition Esys_Free :: "nat \<Rightarrow> world \<Rightarrow> world" where
  "Esys_Free blocks w = w\<lparr>w_live := w_live w - blocks\<rparr>"

text \<open>\<open>fopen\<close> in mode \<open>wb\<close>: the file is created, or cut to length 0.\<close>

definition fopen_wb :: "string \<Rightarrow> world \<Rightarrow> FILE option \<times> world" where
  "fopen_wb path w =
     (case attempt w of
        (False, w) \<Rightarrow> (None, w)
      | (True, w) \<Rightarrow>
          if w_dirs w path \<noteq> None then (None, set_errno EISDIR w)
          else if \<not> parent_exists path w then (None, set_errno (missing_parent path w) w)
          else
            (Some (stream path True),
             w\<lparr>w_open := Suc (w_open w),
               w_files := (w_files w)(path \<mapsto> (case w_files w path of
                 None \<Rightarrow> \<lparr>fn_data = [], fn_mode = 420\<rparr> | Some n \<Rightarrow> n\<lparr>fn_data := []\<rparr>))\<rparr>))"

text \<open>\<open>access(path, R_OK)\<close>\<close>

definition access_ok :: "string \<Rightarrow> world \<Rightarrow> bool \<times> world" where
  "access_ok path w =
     (case attempt w of
        (False, w) \<Rightarrow> (False, w)
      | (True, w) \<Rightarrow> if w_files w path \<noteq> None then (True, w) else (False, set_errno ENOENT w))"

section \<open>Connections\<close>

definition padlock_tpm_free_tcti :: "bool \<Rightarrow> tworld \<Rightarrow> tworld" where
  "padlock_tpm_free_tcti tcti s = (if tcti then s\<lparr>t_tcti := t_tcti s - 1\<rparr> else s)"

text \<open>\<open>True\<close> with both contexts open, or \<open>False\<close> with neither.\<close>

definition padlock_tpm_connect :: "tworld \<Rightarrow> bool \<times> tworld" where
  "padlock_tpm_connect s =
     (let (rc, s) = esys_call s;
          (rc, s) = (if rc then (rc, s) else esys_call s) in
      if \<not> rc then (False, padlock_tpm_free_tcti False (upd_world (set_errno EIO) s))
      else
        (let s = s\<lparr>t_tcti := Suc (t_tcti s)\<rparr>;
             (rc, s) = esys_call s in
         if \<not> rc then (False, padlock_tpm_free_tcti True (upd_world (set_errno EIO) s))
         else (True, s\<lparr>t_esys := Suc (t_esys s)\<rparr>)))"

definition padlock_tpm_disconnect :: "bool \<Rightarrow> bool \<Rightarrow> tworld \<Rightarrow> tworld" where
  "padlock_tpm_disconnect esys tcti s =
     padlock_tpm_free_tcti tcti (if esys then s\<lparr>t_esys := t_esys s - 1\<rparr> else s)"

section \<open>Blobs\<close>

definition padlock_tpm_write_blob ::
  "FILE \<Rightarrow> 'b \<Rightarrow> nat \<Rightarrow> ('b \<Rightarrow> nat \<Rightarrow> byte list option) \<Rightarrow> world \<Rightarrow> (int \<times> FILE \<times> world) option" where
  "padlock_tpm_write_blob file blob blob_size marshal w =
     (case calloc blob_size w of
        (None, w) \<Rightarrow> Some (-1, file, w)
      | (Some buffer, w) \<Rightarrow>
          do {
            (result, buffer, file, w) \<leftarrow>
              (case marshal blob blob_size of
                 None \<Rightarrow> Some (-1, buffer, file, w)
               | Some bs \<Rightarrow>
                   do {
                     buffer \<leftarrow> buf_write buffer 0 bs;
                     out \<leftarrow> buf_read buffer 0 (length bs);
                     let (written, file, w) = fwrite out file w;
                     Some (if written = length bs then 0 else -1, buffer, file, w)
                   });
            buffer \<leftarrow> scrub buffer blob_size;
            Some (result, file, free ''buffer'' (Some buffer) w)
          })"

text \<open>\<open>None\<close> inside is the return value -1; otherwise the blob that \<open>unmarshal\<close> filled in.\<close>

definition padlock_tpm_read_blob ::
  "FILE \<Rightarrow> nat \<Rightarrow> (byte list \<Rightarrow> ('b \<times> nat) option) \<Rightarrow> world \<Rightarrow> ('b option \<times> FILE \<times> world) option" where
  "padlock_tpm_read_blob file blob_size unmarshal w =
     (case fseeko file (int (length (file_data w (f_path file)))) w of
        (rc, file, w) \<Rightarrow>
          if rc \<noteq> 0 then Some (None, file, w)
          else
            (case attempt w of
               (told, w) \<Rightarrow>
                 let file_size = (if told then int (f_pos file) else -1) in
                 if file_size \<le> 0 \<or> nat file_size > blob_size then Some (None, file, w)
                 else
                   (case fseeko file 0 w of
                      (rc, file, w) \<Rightarrow>
                        if rc \<noteq> 0 then Some (None, file, w)
                        else
                          (case malloc (nat file_size) w of
                             (None, w) \<Rightarrow> Some (None, file, w)
                           | (Some buffer, w) \<Rightarrow>
                               (case fread file (nat file_size) w of
                                  (bs, file, w) \<Rightarrow>
                                    do {
                                      buffer \<leftarrow> buf_write buffer 0 bs;
                                      let result =
                                        (if length bs \<noteq> nat file_size then None
                                         else case unmarshal buffer of
                                           None \<Rightarrow> None
                                         | Some (blob, offset) \<Rightarrow> if offset \<noteq> nat file_size then None else Some blob);
                                      buffer \<leftarrow> scrub buffer (nat file_size);
                                      Some (result, file, free ''buffer'' (Some buffer) w)
                                    })))))"

definition padlock_tpm_write_public_blob ::
  "('o, 'p) tss2 \<Rightarrow> FILE \<Rightarrow> TPM2B_PUBLIC \<Rightarrow> world \<Rightarrow> (int \<times> FILE \<times> world) option" where
  "padlock_tpm_write_public_blob tss file blob w = padlock_tpm_write_blob file blob (sizeof_PUBLIC tss) (PUBLIC_Marshal tss) w"

definition padlock_tpm_write_private_blob ::
  "('o, 'p) tss2 \<Rightarrow> FILE \<Rightarrow> 'p \<Rightarrow> world \<Rightarrow> (int \<times> FILE \<times> world) option" where
  "padlock_tpm_write_private_blob tss file blob w = padlock_tpm_write_blob file blob (sizeof_PRIVATE tss) (PRIVATE_Marshal tss) w"

definition padlock_tpm_read_public_blob ::
  "('o, 'p) tss2 \<Rightarrow> FILE \<Rightarrow> world \<Rightarrow> (TPM2B_PUBLIC option \<times> FILE \<times> world) option" where
  "padlock_tpm_read_public_blob tss file w = padlock_tpm_read_blob file (sizeof_PUBLIC tss) (PUBLIC_Unmarshal tss) w"

definition padlock_tpm_read_private_blob ::
  "('o, 'p) tss2 \<Rightarrow> FILE \<Rightarrow> world \<Rightarrow> ('p option \<times> FILE \<times> world) option" where
  "padlock_tpm_read_private_blob tss file w = padlock_tpm_read_blob file (sizeof_PRIVATE tss) (PRIVATE_Unmarshal tss) w"

section \<open>Templates\<close>

definition zero_public :: TPM2B_PUBLIC where
  "zero_public = \<lparr>pub_size = 0, type = 0, nameAlg = 0, objectAttributes = 0, sym_algorithm = 0, sym_keyBits = 0, sym_mode = 0,
     rsa_scheme = 0, keyBits = 0, exponent = 0, keyedHash_scheme = 0, unique = []\<rparr>"

definition padlock_tpm_build_primary_template :: TPM2B_PUBLIC where
  "padlock_tpm_build_primary_template =
     zero_public\<lparr>type := 0x0001, nameAlg := 0x000B,
       objectAttributes := 0x40 OR 0x10000 OR 0x20000 OR 0x2 OR 0x10 OR 0x20,
       sym_algorithm := 0x0006, sym_keyBits := 128, sym_mode := 0x0043, rsa_scheme := 0x0010,
       keyBits := 2048, exponent := 0, unique := [], pub_size := 0\<rparr>"

definition padlock_tpm_build_seal_template :: "byte list \<Rightarrow> (TPM2B_SENSITIVE_CREATE \<times> TPM2B_PUBLIC) option" where
  "padlock_tpm_build_seal_template secret =
     do {
       d \<leftarrow> buf_read secret 0 32;
       Some (\<lparr>userAuth = [], sensitive_data = d\<rparr>,
         zero_public\<lparr>type := 0x0008, nameAlg := 0x000B, objectAttributes := 0x40 OR 0x2 OR 0x10,
           keyedHash_scheme := 0x0010, unique := [], pub_size := 0\<rparr>)
     }"


section \<open>Sealing\<close>

text \<open>
  The label \<open>done\<close>: the streams are closed, the primary object is flushed if it was loaded, and the
  blocks the library returned are freed.
\<close>

definition create_done :: "int \<Rightarrow> FILE option \<Rightarrow> FILE option \<Rightarrow> bool \<Rightarrow> nat \<Rightarrow> tworld \<Rightarrow> int \<times> tworld" where
  "create_done result public_file private_file primary blocks s =
     (let s = (case public_file of None \<Rightarrow> s | Some f \<Rightarrow> upd_world (\<lambda>w. snd (fclose f w)) s);
          s = (case private_file of None \<Rightarrow> s | Some f \<Rightarrow> upd_world (\<lambda>w. snd (fclose f w)) s);
          s = Esys_FlushContext primary s in
      (result, upd_world (Esys_Free blocks) s))"

text \<open>From the two \<open>fopen\<close> calls on: the blobs go to their files.\<close>

definition create_write ::
  "('o, 'p) tss2 \<Rightarrow> string \<Rightarrow> string \<Rightarrow> 'p \<Rightarrow> TPM2B_PUBLIC \<Rightarrow> tworld \<Rightarrow> (int \<times> tworld) option" where
  "create_write tss public_path private_path out_private out_public s =
     (case fopen_wb public_path (t_world s) of
        (public_file, w) \<Rightarrow>
     (case fopen_wb private_path w of
        (private_file, w) \<Rightarrow>
          (case (public_file, private_file) of
             (Some pub, Some priv) \<Rightarrow>
               do {
                 (rc, pub, w) \<leftarrow> padlock_tpm_write_public_blob tss pub out_public w;
                 if rc \<noteq> 0 then Some (create_done (-1) (Some pub) (Some priv) True 9 (s\<lparr>t_world := w\<rparr>))
                 else do {
                   (rc, priv, w) \<leftarrow> padlock_tpm_write_private_blob tss priv out_private w;
                   Some (create_done (if rc \<noteq> 0 then -1 else 0) (Some pub) (Some priv) True 9 (s\<lparr>t_world := w\<rparr>))
                 }
               }
           | _ \<Rightarrow> Some (create_done (-1) public_file private_file True 9 (s\<lparr>t_world := w\<rparr>)))))"

definition padlock_tpm_create_sealed_secret ::
  "('o, 'p) tss2 \<Rightarrow> string \<Rightarrow> string \<Rightarrow> byte list \<Rightarrow> tworld \<Rightarrow> (int \<times> tworld) option" where
  "padlock_tpm_create_sealed_secret tss public_path private_path secret s =
     do {
       let primary_public = padlock_tpm_build_primary_template;
       (seal_sensitive, seal_public) \<leftarrow> padlock_tpm_build_seal_template secret;
       case esys_call s of
         (False, s) \<Rightarrow> Some (-1, s)
       | (True, s) \<Rightarrow>
           (case esys_answer 1 4 (TPM_CreatePrimary tss \<lparr>userAuth = [], sensitive_data = []\<rparr> primary_public) s of
              (None, s) \<Rightarrow> Some (create_done (-1) None None False 0 s)
            | (Some primary, s) \<Rightarrow>
                (case esys_call s of
                   (False, s) \<Rightarrow> Some (create_done (-1) None None True 4 s)
                 | (True, s) \<Rightarrow>
                     (case esys_answer 0 5 (TPM_Create tss primary seal_sensitive seal_public) s of
                        (None, s) \<Rightarrow> Some (create_done (-1) None None True 4 s)
                      | (Some (out_private, out_public), s) \<Rightarrow>
                          create_write tss public_path private_path out_private out_public s)))
     }"

section \<open>Unsealing\<close>

text \<open>
  The label \<open>done\<close> of \<open>padlock_tpm_unseal_secret\<close>: \<open>primary\<close> and \<open>loaded\<close> say which objects are loaded,
  \<open>unsealed\<close> is the block with the secret, and the two callocs are freed if they were made.
\<close>

definition unseal_done ::
  "'r \<Rightarrow> FILE option \<Rightarrow> FILE option \<Rightarrow> bool \<Rightarrow> bool \<Rightarrow> byte list option \<Rightarrow> nat \<Rightarrow> tworld \<Rightarrow> 'r \<times> tworld" where
  "unseal_done result public_file private_file primary loaded unsealed callocs s =
     (let s = (case public_file of None \<Rightarrow> s | Some f \<Rightarrow> upd_world (\<lambda>w. snd (fclose f w)) s);
          s = (case private_file of None \<Rightarrow> s | Some f \<Rightarrow> upd_world (\<lambda>w. snd (fclose f w)) s);
          s = Esys_FlushContext primary s;
          s = Esys_FlushContext loaded s;
          s = upd_world (Esys_Free (if primary then 4 else 0)) s;
          s = upd_world (free ''unsealed'' unsealed) s in
      (result, upd_world (Esys_Free callocs) s))"

text \<open>From \<open>Esys_TR_SetAuth\<close> on the owner: the sealed object is loaded under the primary one and unsealed.\<close>

definition unseal_object ::
  "('o, 'p) tss2 \<Rightarrow> FILE \<Rightarrow> FILE \<Rightarrow> 'p \<Rightarrow> TPM2B_PUBLIC \<Rightarrow> tworld \<Rightarrow> byte list option \<times> tworld" where
  "unseal_object tss pub priv seal_private seal_public s =
     (case esys_call s of
        (False, s) \<Rightarrow> unseal_done None (Some pub) (Some priv) False False None 2 s
      | (True, s) \<Rightarrow>
     (case esys_answer 1 4 (TPM_CreatePrimary tss \<lparr>userAuth = [], sensitive_data = []\<rparr> padlock_tpm_build_primary_template) s of
        (None, s) \<Rightarrow> unseal_done None (Some pub) (Some priv) False False None 2 s
      | (Some primary, s) \<Rightarrow>
     (case esys_call s of
        (False, s) \<Rightarrow> unseal_done None (Some pub) (Some priv) True False None 2 s
      | (True, s) \<Rightarrow>
     (case esys_answer 1 0 (TPM_Load tss primary seal_private seal_public) s of
        (None, s) \<Rightarrow> unseal_done None (Some pub) (Some priv) True False None 2 s
      | (Some loaded, s) \<Rightarrow>
     (case esys_call s of
        (False, s) \<Rightarrow> unseal_done None (Some pub) (Some priv) True True None 2 s
      | (True, s) \<Rightarrow>
     (case esys_answer 0 1 (TPM_Unseal tss loaded) s of
        (None, s) \<Rightarrow> unseal_done None (Some pub) (Some priv) True True None 2 s
      | (Some unsealed, s) \<Rightarrow>
          if length unsealed < 32 then unseal_done None (Some pub) (Some priv) True True (Some unsealed) 2 s
          else unseal_done (Some (take 32 unsealed)) (Some pub) (Some priv) True True (Some unsealed) 2 s))))))"

definition padlock_tpm_unseal_secret ::
  "('o, 'p) tss2 \<Rightarrow> string \<Rightarrow> string \<Rightarrow> tworld \<Rightarrow> (byte list option \<times> tworld) option" where
  "padlock_tpm_unseal_secret tss public_path private_path s =
     (case fopen public_path ''rb'' (t_world s) of
        (public_file, w) \<Rightarrow>
     (case fopen private_path ''rb'' w of
        (private_file, w) \<Rightarrow>
          (case (public_file, private_file) of
             (Some pub, Some priv) \<Rightarrow>
               (case calloc (sizeof_PUBLIC tss) w of
                  (c1, w) \<Rightarrow>
               (case calloc (sizeof_PRIVATE tss) w of
                  (c2, w) \<Rightarrow>
                    if c1 = None \<or> c2 = None
                    then Some (unseal_done None (Some pub) (Some priv) False False None
                      ((if c1 = None then 0 else 1) + (if c2 = None then 0 else 1)) (s\<lparr>t_world := w\<rparr>))
                    else do {
                      (seal_public, pub, w) \<leftarrow> padlock_tpm_read_public_blob tss pub w;
                      case seal_public of
                        None \<Rightarrow> Some (unseal_done None (Some pub) (Some priv) False False None 2 (s\<lparr>t_world := w\<rparr>))
                      | Some seal_public \<Rightarrow>
                          do {
                            (seal_private, priv, w) \<leftarrow> padlock_tpm_read_private_blob tss priv w;
                            case seal_private of
                              None \<Rightarrow> Some (unseal_done None (Some pub) (Some priv) False False None 2 (s\<lparr>t_world := w\<rparr>))
                            | Some seal_private \<Rightarrow> Some (unseal_object tss pub priv seal_private seal_public (s\<lparr>t_world := w\<rparr>))
                          }
                    }))
           | _ \<Rightarrow> Some (unseal_done None public_file private_file False False None 0 (s\<lparr>t_world := w\<rparr>)))))"

section \<open>The key\<close>

text \<open>From the second \<open>padlock_tpm_connect\<close> on.\<close>

definition unseal_key ::
  "('o, 'p) tss2 \<Rightarrow> string \<Rightarrow> string \<Rightarrow> tworld \<Rightarrow> (byte list option \<times> tworld) option" where
  "unseal_key tss public_path private_path s =
     (case padlock_tpm_connect s of
        (False, s) \<Rightarrow> Some (None, s)
      | (True, s) \<Rightarrow>
          do {
            (key, s) \<leftarrow> padlock_tpm_unseal_secret tss public_path private_path s;
            Some (key, padlock_tpm_disconnect True True s)
          })"

text \<open>The branch taken when one of the files is missing: a new key is drawn and sealed.\<close>

definition seal_new_key :: "('o, 'p) tss2 \<Rightarrow> string \<Rightarrow> string \<Rightarrow> tworld \<Rightarrow> (int \<times> tworld) option" where
  "seal_new_key tss public_path private_path s =
     (case RAND_bytes 32 (t_world s) of
        (None, w) \<Rightarrow> Some (-1, s\<lparr>t_world := w\<rparr>)
      | (Some random_key, w) \<Rightarrow>
          (case padlock_tpm_connect (s\<lparr>t_world := w\<rparr>) of
             (False, s) \<Rightarrow>
               do {
                 random_key \<leftarrow> scrub random_key 32;
                 Some (-1, upd_world (leave ''random_key'' random_key) s)
               }
           | (True, s) \<Rightarrow>
               do {
                 (result, s) \<leftarrow> padlock_tpm_create_sealed_secret tss public_path private_path random_key s;
                 random_key \<leftarrow> scrub random_key 32;
                 let s = padlock_tpm_disconnect True True s;
                 Some (if result \<noteq> 0 then -1 else 0, upd_world (leave ''random_key'' random_key) s)
               }))"

definition padlock_tpm_ensure_sealed_key :: "('o, 'p) tss2 \<Rightarrow> tworld \<Rightarrow> (byte list option \<times> tworld) option" where
  "padlock_tpm_ensure_sealed_key tss s =
     (case padlock_tpm_paths (t_world s) of
        None \<Rightarrow> Some (None, upd_world (set_errno ENAMETOOLONG) s)
      | Some (directory, public_path, private_path) \<Rightarrow>
          (case ensure_directory_tree (Some directory) (t_world s) of
             (rc, w) \<Rightarrow>
               if rc \<noteq> 0 then Some (None, s\<lparr>t_world := w\<rparr>)
               else
                 (let (there, w) = access_ok public_path w;
                      (there, w) = (if there then access_ok private_path w else (False, w));
                      s = s\<lparr>t_world := w\<rparr> in
                  if there then unseal_key tss public_path private_path s
                  else do {
                    (rc, s) \<leftarrow> seal_new_key tss public_path private_path s;
                    if rc \<noteq> 0 then Some (None, s) else unseal_key tss public_path private_path s
                  })))"

section \<open>Header passwords\<close>

text \<open>The digits of \<open>hex\<close>, and the loop that writes two of them for every byte of the digest.\<close>

definition hex_digit :: "byte \<Rightarrow> char" where
  "hex_digit n = ''0123456789abcdef'' ! unat n"

fun hex_loop :: "byte list \<Rightarrow> nat \<Rightarrow> nat \<Rightarrow> string \<Rightarrow> string option" where
  "hex_loop digest 0 index output = Some output"
| "hex_loop digest (Suc left) index output =
     do {
       d \<leftarrow> buf_read digest index 1;
       output \<leftarrow> buf_write output (index * 2) [hex_digit (drop_bit 4 (hd d) AND 0x0f)];
       output \<leftarrow> buf_write output (index * 2 + 1) [hex_digit (hd d AND 0x0f)];
       hex_loop digest left (Suc index) output
     }"

text \<open>
  \<open>padlock_derive_header_password\<close> and \<open>padlock_derive_user_header_password\<close> have the same body, on the
  login password and on the user name; \<open>output\<close> is the caller's array. The result has the return value
  and the array.
\<close>

definition derive_password ::
  "'c openssl \<Rightarrow> ('o, 'p) tss2 \<Rightarrow> string option \<Rightarrow> string option \<Rightarrow> nat \<Rightarrow> tworld
     \<Rightarrow> (int \<times> string option \<times> tworld) option" where
  "derive_password ssl tss text output output_length s =
     (case (text, output) of
        (Some text, Some out) \<Rightarrow>
          if text = '''' \<or> output_length < 65 then Some (-1, output, upd_world (set_errno EINVAL) s)
          else do {
            (key, s) \<leftarrow> padlock_tpm_ensure_sealed_key tss s;
            case key of
              None \<Rightarrow> Some (-1, output, s)
            | Some hmac_key \<Rightarrow>
                (case HMAC_sha256 ssl hmac_key (bytes text) of
                   None \<Rightarrow> do {
                     hmac_key \<leftarrow> scrub hmac_key 32;
                     Some (-1, output, upd_world (leave ''hmac_key'' hmac_key) s)
                   }
                 | Some md \<Rightarrow>
                     do {
                       digest \<leftarrow> buf_write (junk (t_world s) 64) 0 md;
                       if length md \<noteq> 32 then do {
                         hmac_key \<leftarrow> scrub hmac_key 32;
                         Some (-1, output, upd_world (leave ''hmac_key'' hmac_key) s)
                       }
                       else do {
                         out \<leftarrow> hex_loop digest 32 0 out;
                         out \<leftarrow> buf_write out 64 [CHR 0x00];
                         digest \<leftarrow> scrub digest 64;
                         hmac_key \<leftarrow> scrub hmac_key 32;
                         Some (0, Some out, upd_world (\<lambda>w. leave ''hmac_key'' hmac_key (leave ''digest'' digest w)) s)
                       }
                     })
          }
      | _ \<Rightarrow> Some (-1, output, upd_world (set_errno EINVAL) s))"

definition padlock_derive_header_password ::
  "'c openssl \<Rightarrow> ('o, 'p) tss2 \<Rightarrow> string option \<Rightarrow> string option \<Rightarrow> nat \<Rightarrow> tworld \<Rightarrow> (int \<times> string option \<times> tworld) option" where
  "padlock_derive_header_password ssl tss login_password output output_length s =
     derive_password ssl tss login_password output output_length s"

definition padlock_derive_user_header_password ::
  "'c openssl \<Rightarrow> ('o, 'p) tss2 \<Rightarrow> string option \<Rightarrow> string option \<Rightarrow> nat \<Rightarrow> tworld \<Rightarrow> (int \<times> string option \<times> tworld) option" where
  "padlock_derive_user_header_password ssl tss username output output_length s =
     derive_password ssl tss username output output_length s"

end
