(* ===== verification/Padlock_Cli.thy ===== *)
theory Padlock_Cli
  imports Padlock_Store Padlock_Tpm
begin

text \<open>
  The command line program \<^verbatim>\<open>src/src/padlock_cli.c\<close>, function by function. Its state \<open>console\<close> is the
  world of the library with the user running the program, the terminal (whether there is one and whether
  it echoes), the characters standard input still has to deliver, and what was written to the two output
  streams, whose errors the program ignores. Arrays of the stack are lists of their size.

  PAM is a parameter, the record \<open>pam\<close>: what \<open>pam_start\<close> answers, the texts of \<open>pam_strerror\<close>, and
  \<open>pam_authenticate\<close>, which may call the conversation function it was given.
\<close>

section \<open>The system\<close>

type_synonym conversation =
  "int \<Rightarrow> int list option \<Rightarrow> bool \<Rightarrow> world \<Rightarrow> ((int \<times> byte list option list option) \<times> world) option"

record pam =
  PAM_start :: "string \<Rightarrow> string \<Rightarrow> int"
  PAM_authenticate :: "string \<Rightarrow> string \<Rightarrow> conversation \<Rightarrow> world \<Rightarrow> (int \<times> world) option"
  PAM_strerror :: "int \<Rightarrow> string option"

record console =
  c_user :: "string option"
  c_tty :: bool
  c_echo :: bool
  c_stdin :: string
  c_out :: "byte list"
  c_err :: string
  c_pam :: nat
  c_tworld :: tworld

abbreviation c_world :: "console \<Rightarrow> world" where
  "c_world c \<equiv> t_world (c_tworld c)"

abbreviation upd_cworld :: "(world \<Rightarrow> world) \<Rightarrow> console \<Rightarrow> console" where
  "upd_cworld f c \<equiv> c\<lparr>c_tworld := upd_world f (c_tworld c)\<rparr>"

abbreviation (input) PAM_SUCCESS :: int where "PAM_SUCCESS \<equiv> 0"
abbreviation (input) PAM_BUF_ERR :: int where "PAM_BUF_ERR \<equiv> 5"
abbreviation (input) PAM_CONV_ERR :: int where "PAM_CONV_ERR \<equiv> 19"
abbreviation (input) PAM_PROMPT_ECHO_OFF :: int where "PAM_PROMPT_ECHO_OFF \<equiv> 1"
abbreviation (input) PAM_PROMPT_ECHO_ON :: int where "PAM_PROMPT_ECHO_ON \<equiv> 2"
abbreviation (input) PAM_ERROR_MSG :: int where "PAM_ERROR_MSG \<equiv> 3"
abbreviation (input) PAM_TEXT_INFO :: int where "PAM_TEXT_INFO \<equiv> 4"

abbreviation newline :: char where "newline \<equiv> CHR 0x0A"

definition eprint :: "string \<Rightarrow> console \<Rightarrow> console" where
  "eprint s c = c\<lparr>c_err := c_err c @ s\<rparr>"

definition oprint :: "byte list \<Rightarrow> console \<Rightarrow> console" where
  "oprint b c = c\<lparr>c_out := c_out c @ b\<rparr>"

text \<open>\<open>%d\<close>, and the texts of the error numbers that occur in this development.\<close>

fun show_nat :: "nat \<Rightarrow> string" where
  "show_nat n = (if n < 10 then [char_of (48 + n)] else show_nat (n div 10) @ [char_of (48 + n mod 10)])"

declare show_nat.simps [simp del]

definition show_int :: "int \<Rightarrow> string" where
  "show_int i = (if i < 0 then ''-'' @ show_nat (nat (- i)) else show_nat (nat i))"

definition strerror :: "int \<Rightarrow> string" where
  "strerror e =
     (case map_of [(0, ''Success''), (EPERM, ''Operation not permitted''), (ENOENT, ''No such file or directory''),
        (EINTR, ''Interrupted system call''), (EIO, ''Input/output error''), (EACCES, ''Permission denied''),
        (EFAULT, ''Bad address''), (EBUSY, ''Device or resource busy''), (EEXIST, ''File exists''),
        (ENOTDIR, ''Not a directory''), (EISDIR, ''Is a directory''), (EINVAL, ''Invalid argument''), (ENOTTY, ''Inappropriate ioctl for device''),
        (ENOSPC, ''No space left on device''), (ERANGE, ''Numerical result out of range''),
        (ENAMETOOLONG, ''File name too long'')] e of
        Some s \<Rightarrow> s
      | None \<Rightarrow> ''Unknown error '' @ show_int e)"

text \<open>\<open>snprintf\<close> into the array \<open>buffer\<close>, for \<open>n > 0\<close>.\<close>

definition snprintf_to :: "string \<Rightarrow> nat \<Rightarrow> string \<Rightarrow> (int \<times> string) option" where
  "snprintf_to buffer n s =
     (case snprintf n s of (r, t) \<Rightarrow> map_option (Pair r) (buf_write buffer 0 (t @ [NUL])))"

text \<open>
  \<open>fgets(buffer, n, stream)\<close> on a stream that still has the characters \<open>src\<close>: whether it returned the
  buffer, the buffer and the rest of the stream. A read error in the middle of a line leaves the
  characters read so far in the buffer, without a terminator.
\<close>

definition fgets_line :: "nat \<Rightarrow> string \<Rightarrow> string" where
  "fgets_line n src = take (min (n - 1) (Suc (length (takeWhile (\<lambda>c. c \<noteq> newline) src)))) src"

definition fgets :: "string \<Rightarrow> nat \<Rightarrow> string \<Rightarrow> world \<Rightarrow> (bool \<times> string \<times> string \<times> world) option" where
  "fgets buffer n src w =
     (let line = fgets_line n src in
      case transfer (length line) w of
        (k, w) \<Rightarrow>
          if line = [] \<or> k < length line
          then map_option (\<lambda>b. (False, b, drop k src, w)) (buf_write buffer 0 (take k line))
          else map_option (\<lambda>b. (True, b, drop k src, w)) (buf_write buffer 0 (line @ [NUL])))"

text \<open>The flag \<open>ECHO\<close> of the terminal of standard input.\<close>

definition tcgetattr :: "console \<Rightarrow> bool option \<times> console" where
  "tcgetattr c =
     (case attempt (c_world c) of
        (False, w) \<Rightarrow> (None, upd_cworld (\<lambda>_. w) c)
      | (True, w) \<Rightarrow>
          if c_tty c then (Some (c_echo c), upd_cworld (\<lambda>_. w) c)
          else (None, upd_cworld (\<lambda>_. set_errno ENOTTY w) c))"

definition tcsetattr :: "bool \<Rightarrow> console \<Rightarrow> bool \<times> console" where
  "tcsetattr echo c =
     (case attempt (c_world c) of
        (False, w) \<Rightarrow> (False, upd_cworld (\<lambda>_. w) c)
      | (True, w) \<Rightarrow>
          if c_tty c then (True, upd_cworld (\<lambda>_. w) (c\<lparr>c_echo := echo\<rparr>))
          else (False, upd_cworld (\<lambda>_. set_errno ENOTTY w) c))"

section \<open>Helpers\<close>

definition usage :: "console \<Rightarrow> console" where
  "usage c =
     eprint (''  padlock get <key> [path]'' @ [newline])
       (eprint (''  padlock set <key> <value> [path]'' @ [newline])
         (eprint (''  padlock allocate <size> [path]'' @ [newline])
           (eprint (''Usage:'' @ [newline]) c)))"

text \<open>The result, and the string left in the buffer of \<open>n\<close> characters.\<close>

definition resolve_path :: "string list \<Rightarrow> nat \<Rightarrow> nat \<Rightarrow> world \<Rightarrow> int \<times> string option \<times> world" where
  "resolve_path argv index n w =
     (if length argv > index
      then (case snprintf n (argv ! index) of (r, s) \<Rightarrow> (if r > 0 then 0 else -1, Some s, w))
      else padlock_default_store_path True n w)"

text \<open>
  \<open>prompt_password\<close>: the result and the array. The flush of \<open>TCSAFLUSH\<close> is not represented:
  \<open>c_stdin\<close> is what is typed after it.
\<close>

definition prompt_password ::
  "string \<Rightarrow> string option \<Rightarrow> nat \<Rightarrow> console \<Rightarrow> (int \<times> string option \<times> console) option" where
  "prompt_password prompt password password_length c =
     (case password of
        None \<Rightarrow> Some (-1, None, c)
      | Some buffer \<Rightarrow>
          if password_length = 0 then Some (-1, Some buffer, c)
          else do {
            let c = eprint prompt c;
            let (old_terminal, c) = tcgetattr c;
            let (terminal_changed, c) = (case old_terminal of None \<Rightarrow> (False, c) | Some _ \<Rightarrow> tcsetattr False c);
            (got, buffer, rest, w) \<leftarrow> fgets buffer password_length (c_stdin c) (c_world c);
            let c = upd_cworld (\<lambda>_. w) (c\<lparr>c_stdin := rest\<rparr>);
            let c = (if terminal_changed then snd (tcsetattr (the old_terminal) c) else c);
            let c = eprint [newline] c;
            if \<not> got then Some (-1, Some buffer, c)
            else do {
              s \<leftarrow> c_string buffer;
              buffer \<leftarrow> (if s \<noteq> [] \<and> last s = newline then buf_write buffer (length s - 1) [NUL] else Some buffer);
              first \<leftarrow> buf_read buffer 0 1;
              Some (if hd first = NUL then -1 else 0, Some buffer, c)
            }
          })"

fun secure_zero_loop :: "string \<Rightarrow> nat \<Rightarrow> nat \<Rightarrow> string option" where
  "secure_zero_loop buffer index 0 = Some buffer"
| "secure_zero_loop buffer index (Suc left) =
     do {
       buffer \<leftarrow> buf_write buffer index [NUL];
       secure_zero_loop buffer (Suc index) left
     }"

definition secure_zero :: "string \<Rightarrow> nat \<Rightarrow> string option" where
  "secure_zero buffer n = secure_zero_loop buffer 0 n"

definition copy_message :: "string option \<Rightarrow> nat \<Rightarrow> string option \<Rightarrow> string option option" where
  "copy_message buffer n message =
     (case buffer of
        None \<Rightarrow> Some None
      | Some b \<Rightarrow>
          if n = 0 then Some (Some b)
          else (case message of
                  None \<Rightarrow> map_option Some (buf_write b 0 [NUL])
                | Some m \<Rightarrow> map_option (\<lambda>(_, b). Some b) (snprintf_to b n m)))"

definition copy_pam_message :: "pam \<Rightarrow> string option \<Rightarrow> nat \<Rightarrow> int \<Rightarrow> string option option" where
  "copy_pam_message pam buffer n pam_code =
     (case buffer of
        None \<Rightarrow> Some None
      | Some b \<Rightarrow>
          if n = 0 then Some (Some b)
          else
            map_option (\<lambda>(_, b). Some b)
              (snprintf_to b n
                (case PAM_strerror pam pam_code of
                   Some (ch # message) \<Rightarrow> ''PAM '' @ show_int pam_code @ '': '' @ ch # message
                 | _ \<Rightarrow> ''PAM '' @ show_int pam_code)))"

section \<open>Conversations\<close>

definition pam_no_prompt_conversation :: conversation where
  "pam_no_prompt_conversation num_msg msg resp w = Some ((PAM_CONV_ERR, None), w)"

text \<open>The answers freed on a failure: those before \<open>index\<close>, then the array, which holds only pointers.\<close>

definition free_responses :: "nat \<Rightarrow> byte list option list \<Rightarrow> world \<Rightarrow> world" where
  "free_responses index responses w =
     free ''responses'' (Some []) (fold (\<lambda>cleanup. free ''resp'' (responses ! cleanup)) [0..<index] w)"

fun conversation_loop ::
  "string \<Rightarrow> int list \<Rightarrow> nat \<Rightarrow> nat \<Rightarrow> byte list option list \<Rightarrow> world
     \<Rightarrow> ((int \<times> byte list option list option) \<times> world) option" where
  "conversation_loop password msg index 0 responses w = Some ((PAM_SUCCESS, Some responses), w)"
| "conversation_loop password msg index (Suc left) responses w =
     do {
       style \<leftarrow> buf_read msg index 1;
       if hd style = PAM_PROMPT_ECHO_OFF \<or> hd style = PAM_PROMPT_ECHO_ON then
         (case malloc (length password + 1) w of
            (None, w) \<Rightarrow> Some ((PAM_BUF_ERR, None), free_responses index responses w)
          | (Some b, w) \<Rightarrow>
              do {
                b \<leftarrow> buf_write b 0 (bytes password @ [0]);
                conversation_loop password msg (Suc index) left (responses[index := Some b]) w
              })
       else if hd style = PAM_ERROR_MSG \<or> hd style = PAM_TEXT_INFO then
         conversation_loop password msg (Suc index) left (responses[index := None]) w
       else Some ((PAM_CONV_ERR, None), free_responses index responses w)
     }"

text \<open>
  \<open>msg\<close> has the styles of the messages, \<open>resp\<close> says that there is a place for the answer, and
  \<open>state\<close> is the application data with its password pointer.
\<close>

definition pam_password_conversation :: "string option option \<Rightarrow> conversation" where
  "pam_password_conversation state num_msg msg resp w =
     (case (msg, state) of
        (Some msg, Some (Some password)) \<Rightarrow>
          if num_msg \<le> 0 \<or> \<not> resp then Some ((PAM_CONV_ERR, None), w)
          else (case calloc (16 * nat num_msg) w of
                  (None, w) \<Rightarrow> Some ((PAM_BUF_ERR, None), w)
                | (Some _, w) \<Rightarrow> conversation_loop password msg 0 (nat num_msg) (replicate (nat num_msg) None) w)
      | _ \<Rightarrow> Some ((PAM_CONV_ERR, None), w))"

section \<open>The PAM service file\<close>

text \<open>A line without the white space around it.\<close>

definition trim :: "string \<Rightarrow> string" where
  "trim s = rev (dropWhile isspace (rev (dropWhile isspace s)))"

lemma fgets_shorter: "fgets buffer n src w = Some (True, buffer', rest, w') \<Longrightarrow> length rest < length src"
  by (auto simp: fgets_def fgets_line_def Let_def split: prod.splits if_splits dest: transfer_le)

text \<open>The loop over the lines: 0 at the first line that is neither blank, a comment nor the expected one.\<close>

function service_loop :: "string \<Rightarrow> string \<Rightarrow> string \<Rightarrow> world \<Rightarrow> (int \<times> world) option" where
  "service_loop expected line src w =
     (case fgets line 512 src w of
        None \<Rightarrow> None
      | Some (got, line, rest, w) \<Rightarrow>
          if \<not> got then Some (1, w)
          else
            (case c_string line of
               None \<Rightarrow> None
             | Some s \<Rightarrow>
                 if trim s = '''' \<or> hd (trim s) = CHR ''#'' then service_loop expected line rest w
                 else if trim s \<noteq> expected then Some (0, w)
                 else service_loop expected line rest w))"
  by pat_completeness auto
termination service_loop
  by (relation "measure (\<lambda>(expected, line, src, w). length src)") (auto dest: fgets_shorter)

declare service_loop.simps [simp del]

definition pam_service_is_passwordless_for_user :: "string option \<Rightarrow> world \<Rightarrow> (int \<times> world) option" where
  "pam_service_is_passwordless_for_user username w =
     (case username of
        None \<Rightarrow> Some (0, w)
      | Some user \<Rightarrow>
          if user = '''' then Some (0, w)
          else case fopen ''/etc/pam.d/padlock'' ''r'' w of
            (None, w) \<Rightarrow> Some (0, w)
          | (Some file, w) \<Rightarrow>
              (case snprintf 384 (''auth required pam_succeed_if.so user = '' @ user) of
                 (expected_length, expected) \<Rightarrow>
                   if expected_length \<le> 0 \<or> expected_length \<ge> 384 then Some (0, snd (fclose file w))
                   else do {
                     (r, w) \<leftarrow> service_loop expected (chars (junk w 512)) (chars (file_data w (f_path file))) w;
                     Some (r, snd (fclose file w))
                   }))"

section \<open>Authentication\<close>

text \<open>The result, and the array \<open>reason\<close>.\<close>

definition authenticate_with_pam ::
  "pam \<Rightarrow> string option \<Rightarrow> string option \<Rightarrow> bool \<Rightarrow> string option \<Rightarrow> nat \<Rightarrow> console
     \<Rightarrow> (int \<times> string option \<times> console) option" where
  "authenticate_with_pam pam username password no_prompt reason reason_length c =
     do {
       reason \<leftarrow> (case reason of
                   None \<Rightarrow> Some None
                 | Some b \<Rightarrow> if reason_length > 0 then map_option Some (buf_write b 0 [NUL]) else Some (Some b));
       case (if username = None \<or> username = Some '''' then c_user c else username) of
         None \<Rightarrow> do {
           reason \<leftarrow> copy_message reason reason_length (Some ''could not resolve current user'');
           Some (-1, reason, c)
         }
       | Some user \<Rightarrow>
           if \<not> no_prompt \<and> (password = None \<or> password = Some '''') then do {
             let c = upd_cworld (set_errno EINVAL) c;
             reason \<leftarrow> copy_message reason reason_length (Some ''empty password'');
             Some (-1, reason, c)
           }
           else do {
             let conv = (if no_prompt then pam_no_prompt_conversation else pam_password_conversation (Some password));
             let result = PAM_start pam ''padlock'' user;
             if result \<noteq> PAM_SUCCESS then do {
               let c = upd_cworld (set_errno EACCES) c;
               reason \<leftarrow> copy_pam_message pam reason reason_length result;
               Some (-1, reason, c)
             }
             else do {
               let c = c\<lparr>c_pam := Suc (c_pam c)\<rparr>;
               (result, w) \<leftarrow> PAM_authenticate pam ''padlock'' user conv (c_world c);
               let c = upd_cworld (\<lambda>_. w) c;
               reason \<leftarrow> (if result \<noteq> PAM_SUCCESS then copy_pam_message pam reason reason_length result else Some reason);
               let c = c\<lparr>c_pam := c_pam c - 1\<rparr>;
               if result = PAM_SUCCESS then Some (0, reason, c)
               else Some (-1, reason, upd_cworld (set_errno EACCES) c)
             }
           }
     }"

text \<open>The reason of a failed derivation, from \<open>errno\<close>; the same code stands twice in the source.\<close>

definition derivation_reason :: "string option \<Rightarrow> nat \<Rightarrow> console \<Rightarrow> (string option \<times> console) option" where
  "derivation_reason reason reason_length c =
     (if w_errno (c_world c) = EACCES then do {
        reason \<leftarrow> copy_message reason reason_length (Some ''TPM access denied while deriving header password'');
        Some (reason, c)
      }
      else if w_errno (c_world c) \<noteq> 0 then do {
        (_, detail) \<leftarrow> snprintf_to (chars (junk (c_world c) 128)) 128
          (''header password derivation failed: '' @ strerror (w_errno (c_world c)));
        detail \<leftarrow> c_string detail;
        reason \<leftarrow> copy_message reason reason_length (Some detail);
        Some (reason, c)
      }
      else do {
        let c = upd_cworld (set_errno EIO) c;
        reason \<leftarrow> copy_message reason reason_length (Some ''header password derivation failed'');
        Some (reason, c)
      })"

text \<open>The array \<open>login_password\<close> is left as it is when the frame is left.\<close>

definition leave_login :: "string \<Rightarrow> console \<Rightarrow> console" where
  "leave_login login_password c = upd_cworld (leave ''login_password'' (bytes login_password)) c"

text \<open>From \<open>authenticate_with_pam\<close> on, with the password that was typed; \<open>no_prompt\<close> is 0 here.\<close>

definition derive_with_login ::
  "'c openssl \<Rightarrow> ('o, 'p) tss2 \<Rightarrow> pam \<Rightarrow> string \<Rightarrow> string \<Rightarrow> string option \<Rightarrow> nat \<Rightarrow> string option \<Rightarrow> nat \<Rightarrow> console
     \<Rightarrow> (int \<times> string option \<times> string option \<times> console) option" where
  "derive_with_login ssl tss pam username login_password header_password header_password_length reason reason_length c =
     do {
       typed \<leftarrow> c_string login_password;
       (rc, reason, c) \<leftarrow> authenticate_with_pam pam (Some username) (Some typed) False reason reason_length c;
       if rc \<noteq> 0 then do {
         login_password \<leftarrow> secure_zero login_password 512;
         Some (-1, header_password, reason, leave_login login_password c)
       }
       else do {
         (result, header_password, s) \<leftarrow>
           padlock_derive_header_password ssl tss (Some typed) header_password header_password_length (c_tworld c);
         let c = c\<lparr>c_tworld := s\<rparr>;
         login_password \<leftarrow> secure_zero login_password 512;
         (reason, c) \<leftarrow> (if result \<noteq> 0 then derivation_reason reason reason_length c else Some (reason, c));
         Some (result, header_password, reason, leave_login login_password c)
       }
     }"

definition derive_header_password ::
  "'c openssl \<Rightarrow> ('o, 'p) tss2 \<Rightarrow> pam \<Rightarrow> string option \<Rightarrow> string option \<Rightarrow> nat \<Rightarrow> string option \<Rightarrow> nat \<Rightarrow> console
     \<Rightarrow> (int \<times> string option \<times> string option \<times> console) option" where
  "derive_header_password ssl tss pam username header_password header_password_length reason reason_length c =
     do {
       let user = (if username = None \<or> username = Some '''' then ''user'' else the username);
       let login_password = chars (junk (c_world c) 512);
       (no_prompt, w) \<leftarrow> pam_service_is_passwordless_for_user (Some user) (c_world c);
       let c = upd_cworld (\<lambda>_. w) c;
       if no_prompt \<noteq> 0 then do {
         (result, header_password, s) \<leftarrow>
           padlock_derive_user_header_password ssl tss (Some user) header_password header_password_length (c_tworld c);
         let c = c\<lparr>c_tworld := s\<rparr>;
         (reason, c) \<leftarrow> (if result \<noteq> 0 then derivation_reason reason reason_length c else Some (reason, c));
         Some (result, header_password, reason, leave_login login_password c)
       }
       else case snprintf 128 (''Enter the password for '' @ [CHR 0x27] @ user @ [CHR 0x27] @ '': '') of
         (n, prompt) \<Rightarrow>
           if n \<le> 0 then Some (-1, header_password, reason, leave_login login_password (upd_cworld (set_errno EINVAL) c))
           else do {
             (rc, typed, c) \<leftarrow> prompt_password prompt (Some login_password) 512 c;
             login_password \<leftarrow> typed;
             if rc \<noteq> 0 then do {
               let c = upd_cworld (set_errno EIO) c;
               reason \<leftarrow> copy_message reason reason_length (Some ''could not read password'');
               Some (-1, header_password, reason, leave_login login_password c)
             }
             else derive_with_login ssl tss pam user login_password header_password header_password_length reason reason_length c
           }
     }"

section \<open>The program\<close>

definition report_failure :: "string \<Rightarrow> console \<Rightarrow> console" where
  "report_failure action c =
     (if w_errno (c_world c) \<noteq> 0
      then eprint (''padlock: '' @ action @ '': '' @ strerror (w_errno (c_world c)) @ [newline]) c
      else eprint (''padlock: '' @ action @ '' failed'' @ [newline]) c)"

definition report_failure_with_detail :: "string \<Rightarrow> string option \<Rightarrow> console \<Rightarrow> console option" where
  "report_failure_with_detail action detail c =
     (case detail of
        None \<Rightarrow> Some (report_failure action c)
      | Some buffer \<Rightarrow>
          do {
            s \<leftarrow> c_string buffer;
            Some (if s \<noteq> '''' then eprint (''padlock: '' @ action @ '': '' @ s @ [newline]) c else report_failure action c)
          })"

text \<open>The array \<open>header_password\<close> is zeroed, and \<open>main\<close> leaves it so when it returns.\<close>

definition zero_header_password :: "string \<Rightarrow> console \<Rightarrow> console option" where
  "zero_header_password header_password c =
     do {
       header_password \<leftarrow> secure_zero header_password 65;
       Some (upd_cworld (leave ''header_password'' (bytes header_password)) c)
     }"

text \<open>
  The part the three commands share: the path is resolved and the header password derived. \<open>Inl\<close> is
  the exit status of a failure; \<open>Inr\<close> has the path and the array with the password.
\<close>

definition authorize ::
  "'c openssl \<Rightarrow> ('o, 'p) tss2 \<Rightarrow> pam \<Rightarrow> string \<Rightarrow> string list \<Rightarrow> nat \<Rightarrow> console
     \<Rightarrow> (int \<times> console + string \<times> string \<times> console) option" where
  "authorize ssl tss pam username argv index c =
     (case resolve_path argv index 4096 (c_world c) of
        (rc, path, w) \<Rightarrow>
          do {
            let c = upd_cworld (\<lambda>_. w) c;
            if rc \<noteq> 0 then Some (Inl (1, eprint (''padlock: could not resolve store path'' @ [newline]) c))
            else do {
              (rc, header_password, auth_error, c) \<leftarrow>
                derive_header_password ssl tss pam (Some username) (Some (chars (junk (c_world c) 65))) 65
                  (Some (chars (junk (c_world c) 256))) 256 c;
              header_password \<leftarrow> header_password;
              if rc \<noteq> 0 then do {
                c \<leftarrow> zero_header_password header_password c;
                c \<leftarrow> report_failure_with_detail ''authentication'' auth_error c;
                Some (Inl (1, c))
              }
              else do {
                path \<leftarrow> path;
                Some (Inr (path, header_password, c))
              }
            }
          })"

definition allocate_command ::
  "'c openssl \<Rightarrow> ('o, 'p) tss2 \<Rightarrow> pam \<Rightarrow> string \<Rightarrow> string list \<Rightarrow> console \<Rightarrow> (int \<times> console) option" where
  "allocate_command ssl tss pam username argv c =
     (if length argv < 3 \<or> length argv > 4 then Some (2, usage c)
      else case padlock_parse_size (Some (argv ! 2)) True (c_world c) of
        (rc, sz, w) \<Rightarrow>
          if rc \<noteq> 0 then Some (2, usage (upd_cworld (\<lambda>_. w) c))
          else do {
            sz \<leftarrow> sz;
            r \<leftarrow> authorize ssl tss pam username argv 3 (upd_cworld (\<lambda>_. w) c);
            case r of
              Inl failure \<Rightarrow> Some failure
            | Inr (path, header_password, c) \<Rightarrow>
                do {
                  password \<leftarrow> c_string header_password;
                  (rc, w) \<leftarrow> padlock_allocate ssl (Some path) sz (Some password) (c_world c);
                  c \<leftarrow> zero_header_password header_password (upd_cworld (\<lambda>_. w) c);
                  Some (if rc \<noteq> 0 then (1, report_failure ''allocation'' c)
                        else (0, oprint (bytes (''allocated '' @ path @ [newline])) c))
                }
          })"

definition set_command ::
  "'c openssl \<Rightarrow> ('o, 'p) tss2 \<Rightarrow> pam \<Rightarrow> string \<Rightarrow> string list \<Rightarrow> console \<Rightarrow> (int \<times> console) option" where
  "set_command ssl tss pam username argv c =
     (if length argv < 4 \<or> length argv > 5 then Some (2, usage c)
      else do {
        r \<leftarrow> authorize ssl tss pam username argv 4 c;
        case r of
          Inl failure \<Rightarrow> Some failure
        | Inr (path, header_password, c) \<Rightarrow>
            do {
              password \<leftarrow> c_string header_password;
              (rc, w) \<leftarrow> padlock_set ssl (Some path) (Some password) (Some (argv ! 2)) (Some (bytes (argv ! 3)))
                           (of_nat (length (argv ! 3))) (c_world c);
              c \<leftarrow> zero_header_password header_password (upd_cworld (\<lambda>_. w) c);
              Some (if rc \<noteq> 0 then (1, report_failure ''set'' c) else (0, c))
            }
      })"

definition get_command ::
  "'c openssl \<Rightarrow> ('o, 'p) tss2 \<Rightarrow> pam \<Rightarrow> string \<Rightarrow> string list \<Rightarrow> console \<Rightarrow> (int \<times> console) option" where
  "get_command ssl tss pam username argv c =
     (if length argv < 3 \<or> length argv > 4 then Some (2, usage c)
      else do {
        r \<leftarrow> authorize ssl tss pam username argv 3 c;
        case r of
          Inl failure \<Rightarrow> Some failure
        | Inr (path, header_password, c) \<Rightarrow>
            do {
              password \<leftarrow> c_string header_password;
              (rc, (val, value_length), w) \<leftarrow>
                padlock_get ssl (Some path) (Some password) (Some (argv ! 2)) True (c_world c);
              c \<leftarrow> zero_header_password header_password (upd_cworld (\<lambda>_. w) c);
              if rc \<noteq> 0 then Some (1, report_failure ''lookup'' c)
              else do {
                b \<leftarrow> val;
                text \<leftarrow> buf_read b 0 (unat value_length);
                Some (0, upd_cworld (padlock_free val) (oprint (text @ [of_char newline]) c))
              }
            }
      })"

definition main ::
  "'c openssl \<Rightarrow> ('o, 'p) tss2 \<Rightarrow> pam \<Rightarrow> string list \<Rightarrow> console \<Rightarrow> (int \<times> console) option" where
  "main ssl tss pam argv c =
     (case c_user c of
        None \<Rightarrow> Some (1, eprint (''padlock: could not resolve current user'' @ [newline]) c)
      | Some username \<Rightarrow>
          if length argv < 2 then Some (2, usage c)
          else if argv ! 1 = ''allocate'' then allocate_command ssl tss pam username argv c
          else if argv ! 1 = ''set'' then set_command ssl tss pam username argv c
          else if argv ! 1 = ''get'' then get_command ssl tss pam username argv c
          else Some (2, usage c))"

end
