(* ===== verification/Padlock_Cli_Lemmas.thy ===== *)
theory Padlock_Cli_Lemmas
  imports Padlock_Cli
begin

text \<open>
  Lemmas on the helpers of the command line program: reading lines, the service file, the arrays, the
  prompt and the conversation with PAM.
\<close>

section \<open>Lines\<close>

lemma takeWhile_line: "newline \<notin> set l \<Longrightarrow> takeWhile (\<lambda>c. c \<noteq> newline) (l @ newline # rest) = l"
  by (induction l) auto

lemma fgets_line_cut:
  assumes "newline \<notin> set l" "Suc (length l) < n"
  shows "fgets_line n (l @ newline # rest) = l @ [newline]"
  using assms by (simp add: fgets_line_def takeWhile_line)

lemma fgets_line_bound: "length (fgets_line n src) \<le> n - 1"
  by (simp add: fgets_line_def)

lemma fgets_clean:
  assumes "w_faults w = []" "newline \<notin> set l" "Suc (length l) < n" "n \<le> length b"
  shows "fgets b n (l @ newline # rest) w = Some (True, l @ newline # NUL # drop (length l + 2) b, rest, w)"
  using assms by (simp add: fgets_def fgets_line_cut Let_def overlay_def)

lemma fgets_end:
  assumes "w_faults w = []"
  shows "fgets b n [] w = Some (False, b, [], w)"
  using assms by (simp add: fgets_def fgets_line_def Let_def buf_write_def overlay_def)

lemma fgets_total:
  assumes "0 < n" "n \<le> length b"
  obtains got b' rest w' where "fgets b n src w = Some (got, b', rest, w')" "length b' = length b" "io_frame w w'"
    "got \<Longrightarrow> NUL \<in> set b'"
proof -
  let ?l = "fgets_line n src"
  obtain k w' where t: "transfer (length ?l) w = (k, w')" by fastforce
  have len: "length ?l < n" using fgets_line_bound [of n src] assms(1) by simp
  note le = transfer_le [OF t] and frame = transfer_frame [OF t]
  show ?thesis
  proof (cases "?l = [] \<or> k < length ?l")
    case True
    then have "fgets b n src w = Some (False, overlay b 0 (take k ?l), drop k src, w')"
      using t len assms(2) by (simp add: fgets_def Let_def)
    then show ?thesis by (rule that) (use len assms(2) frame in auto)
  next
    case False
    then have "fgets b n src w = Some (True, overlay b 0 (?l @ [NUL]), drop k src, w')"
      using t len assms(2) by (simp add: fgets_def Let_def)
    then show ?thesis by (rule that) (use len assms(2) frame in \<open>auto simp: overlay_def\<close>)
  qed
qed

lemma isspace_newline [simp]: "isspace newline" by (simp add: isspace_def)

lemma trim_newline [simp]: "trim (l @ [newline]) = trim l"
proof (cases "\<forall>x\<in>set l. isspace x")
  case True
  then have "dropWhile isspace l = []" by (rule dropWhile_eq_Nil_conv [THEN iffD2])
  moreover from True have "dropWhile isspace (l @ [newline]) = dropWhile isspace [newline]" by (intro dropWhile_append2) blast
  ultimately show ?thesis by (simp only: trim_def dropWhile.simps isspace_newline if_True)
next
  case False
  then have "dropWhile isspace (l @ [newline]) = dropWhile isspace l @ [newline]" by (metis dropWhile_append1)
  then show ?thesis by (simp add: trim_def)
qed

section \<open>The service file\<close>

definition service_line :: "string \<Rightarrow> string" where
  "service_line user = ''auth required pam_succeed_if.so user = '' @ user"

text \<open>A line that does not call for a password.\<close>

definition harmless :: "string \<Rightarrow> string \<Rightarrow> bool" where
  "harmless user l \<longleftrightarrow> trim l = '''' \<or> hd (trim l) = CHR ''#'' \<or> trim l = service_line user"

definition text_of :: "string list \<Rightarrow> string" where
  "text_of ls = concat (map (\<lambda>l. l @ [newline]) ls)"

definition short_line :: "string \<Rightarrow> bool" where
  "short_line l \<longleftrightarrow> length l < 511 \<and> newline \<notin> set l \<and> NUL \<notin> set l"

lemma text_of_simps [simp]: "text_of [] = []" "text_of (l # ls) = l @ newline # text_of ls"
  by (simp_all add: text_of_def)

lemma service_loop_lines:
  assumes "w_faults w = []" "\<forall>l\<in>set ls. short_line l" "length b = 512"
  shows "service_loop (service_line user) b (text_of ls) w =
    Some (if \<forall>l\<in>set ls. harmless user l then 1 else 0, w)"
  using assms(2,3)
proof (induction ls arbitrary: b)
  case Nil
  then show ?case using assms(1) by (subst service_loop.simps) (simp add: fgets_end)
next
  case (Cons l ls)
  then have l: "newline \<notin> set l" "NUL \<notin> set l" "length l < 511" by (auto simp: short_line_def)
  let ?b = "l @ newline # NUL # drop (length l + 2) b"
  have "fgets b 512 (l @ newline # text_of ls) w = Some (True, ?b, text_of ls, w)"
    by (rule fgets_clean) (use assms(1) l Cons.prems in auto)
  moreover have "c_string ?b = Some (l @ [newline])"
    using c_string_cut [of "l @ [newline]" "drop (length l + 2) b"] l by simp
  moreover have "service_loop (service_line user) ?b (text_of ls) w = Some (if \<forall>l\<in>set ls. harmless user l then 1 else 0, w)"
    by (rule Cons.IH) (use Cons.prems l in auto)
  ultimately show ?case
    by (subst service_loop.simps) (auto simp: harmless_def)
qed

lemma service_loop_total:
  assumes "length b = 512"
  obtains r w' where "service_loop expected b src w = Some (r, w')" "r = 0 \<or> r = 1" "io_frame w w'"
proof -
  have "\<exists>r w'. service_loop expected b src w = Some (r, w') \<and> (r = 0 \<or> r = 1) \<and> io_frame w w'"
    using assms
  proof (induction expected b src w rule: service_loop.induct)
    case (1 expected b src w)
    obtain got b' rest w' where f: "fgets b 512 src w = Some (got, b', rest, w')" "length b' = length b" "io_frame w w'" "got \<Longrightarrow> NUL \<in> set b'"
      by (rule fgets_total [of 512 b src w]) (use 1 in auto)
    show ?case
    proof (cases got)
      case False
      then show ?thesis using f by (subst service_loop.simps) simp
    next
      case True
      then obtain s where s: "c_string b' = Some s" using f(4) by (auto simp: c_string_def)
      have len: "length b' = 512" using f(2) 1 by simp
      show ?thesis
        using 1(1) [OF f(1) refl refl refl _ s _ len] 1(2) [OF f(1) refl refl refl _ s _ _ len] f(1,3) s True
        by (subst service_loop.simps) (auto 4 4 dest: io_frame_trans [OF f(3)])
    qed
  qed
  then show ?thesis using that by blast
qed

lemma service_total:
  obtains r w' where "pam_service_is_passwordless_for_user user w = Some (r, w')" "r = 0 \<or> r = 1" "io_frame w w'"
proof -
  have fclose: "io_frame w2 (snd (fclose f w1))" if "io_frame (w2\<lparr>w_open := Suc (w_open w2)\<rparr>) w1" "f_wbuf f = []" for f w1 w2
  proof -
    obtain ok w3 where a: "attempt w1 = (ok, w3)" by fastforce
    then have "snd (fclose f w1) = w3\<lparr>w_open := w_open w3 - 1\<rparr>" using that(2) by (simp add: fclose_def fflush_def)
    then show ?thesis using io_frame_trans [OF that(1) attempt_frame [OF a]] by (simp add: io_frame_def)
  qed
  show ?thesis
  proof (cases "user = None \<or> user = Some ''''")
    case True
    then show ?thesis using that [of 0 w] by (auto simp: pam_service_is_passwordless_for_user_def)
  next
    case False
    then obtain u where u: "user = Some u" "u \<noteq> ''''" by auto
    obtain fo w1 where o: "fopen ''/etc/pam.d/padlock'' ''r'' w = (fo, w1)" by fastforce
    show ?thesis
    proof (cases fo)
      case None
      then have "io_frame w w1" using o by (auto simp: fopen_def split: prod.splits bool.splits option.splits dest: attempt_frame intro: io_frame_trans)
      then show ?thesis using that [of 0 w1] u o None by (simp add: pam_service_is_passwordless_for_user_def)
    next
      case (Some f)
      then obtain w2 where w2: "io_frame w w2" "w1 = w2\<lparr>w_open := Suc (w_open w2)\<rparr>" "f_wbuf f = []"
        using o by (auto simp: fopen_def stream_def split: prod.splits bool.splits option.splits dest: attempt_frame)
      obtain n e where n: "snprintf 384 (''auth required pam_succeed_if.so user = '' @ u) = (n, e)" by fastforce
      obtain r w3 where l: "service_loop e (chars (junk w1 512)) (chars (file_data w1 (f_path f))) w1 = Some (r, w3)" "r = 0 \<or> r = 1" "io_frame w1 w3"
        by (rule service_loop_total [of "chars (junk w1 512)"]) auto
      show ?thesis
      proof (cases "n \<le> 0 \<or> n \<ge> 384")
        case True
        then show ?thesis using that [of 0 "snd (fclose f w1)"] u o Some n fclose [of w2 w1 f] w2
          by (auto simp: pam_service_is_passwordless_for_user_def intro: io_frame_trans)
      next
        case False
        then show ?thesis using that [of r "snd (fclose f w3)"] u o Some n l fclose [of w2 w3 f] w2
          by (auto simp: pam_service_is_passwordless_for_user_def intro: io_frame_trans)
      qed
    qed
  qed
qed

text \<open>
  A line that calls for a password is found whatever fails, as long as the reads up to it do not.
\<close>

abbreviation passed :: "world \<Rightarrow> world" where
  "passed w \<equiv> w\<lparr>w_faults := tl (w_faults w)\<rparr>"

lemma fgets_passed:
  assumes "set (take 1 (w_faults w)) \<subseteq> {Pass}" "newline \<notin> set l" "Suc (length l) < n" "n \<le> length b"
  shows "fgets b n (l @ newline # rest) w = Some (True, l @ newline # NUL # drop (length l + 2) b, rest, passed w)"
  using assms by (cases "w_faults w") (simp_all add: fgets_def fgets_line_cut Let_def overlay_def transfer_def poll_def)

lemma service_loop_asks:
  assumes "\<forall>x\<in>set (ls @ [l]). short_line x" "\<not> harmless user l" "length b = 512"
    and "set (take (Suc (length ls)) (w_faults w)) \<subseteq> {Pass}"
  shows "\<exists>w'. service_loop (service_line user) b (text_of (ls @ [l]) @ rest) w = Some (0, w')"
  using assms(1,3,4)
proof (induction ls arbitrary: b w)
  case Nil
  then have x: "newline \<notin> set l" "NUL \<notin> set l" "length l < 511" by (auto simp: short_line_def)
  let ?b = "l @ newline # NUL # drop (length l + 2) b"
  have "fgets b 512 (l @ newline # rest) w = Some (True, ?b, rest, passed w)"
    by (rule fgets_passed) (use x Nil.prems in auto)
  moreover have "c_string ?b = Some (l @ [newline])"
    using c_string_cut [of "l @ [newline]" "drop (length l + 2) b"] x by simp
  ultimately show ?case using assms(2) by (subst service_loop.simps) (auto simp: harmless_def)
next
  case (Cons x ls)
  then have x: "newline \<notin> set x" "NUL \<notin> set x" "length x < 511" by (auto simp: short_line_def)
  let ?b = "x @ newline # NUL # drop (length x + 2) b" and ?rest = "text_of (ls @ [l]) @ rest"
  have f: "set (take 1 (w_faults w)) \<subseteq> {Pass}" "set (take (Suc (length ls)) (tl (w_faults w))) \<subseteq> {Pass}"
    using Cons.prems(3) by (cases "w_faults w"; simp)+
  have "fgets b 512 (x @ newline # ?rest) w = Some (True, ?b, ?rest, passed w)"
    by (rule fgets_passed) (use x Cons.prems f in auto)
  moreover have "c_string ?b = Some (x @ [newline])"
    using c_string_cut [of "x @ [newline]" "drop (length x + 2) b"] x by simp
  moreover have "\<exists>w'. service_loop (service_line user) ?b ?rest (passed w) = Some (0, w')"
    by (rule Cons.IH) (use Cons.prems f x in auto)
  ultimately show ?case by (subst service_loop.simps) auto
qed

lemma expected_line:
  assumes "length user < 345"
  shows "snprintf 384 (''auth required pam_succeed_if.so user = '' @ user) = (int (length (service_line user)), service_line user)"
    "length (service_line user) < 384" "0 < int (length (service_line user))"
  using assms by (simp_all add: service_line_def snprintf_def)

lemma service_lines:
  assumes "w_faults w = []" "w_files w ''/etc/pam.d/padlock'' = Some n" "fn_data n = bytes (text_of ls)"
    and "\<forall>l\<in>set ls. short_line l" "user \<noteq> ''''" "length user < 345"
  shows "pam_service_is_passwordless_for_user (Some user) w = Some (if \<forall>l\<in>set ls. harmless user l then 1 else 0, w)"
proof -
  let ?w = "w\<lparr>w_open := Suc (w_open w)\<rparr>"
  have loop: "service_loop (service_line user) (chars (junk ?w 512)) (text_of ls) ?w =
      Some (if \<forall>l\<in>set ls. harmless user l then 1 else 0, ?w)"
    by (rule service_loop_lines) (use assms in auto)
  have op: "fopen ''/etc/pam.d/padlock'' ''r'' w = (Some (stream ''/etc/pam.d/padlock'' False), ?w)"
    using assms(1,2) by (simp add: fopen_def)
  have fd: "chars (file_data ?w ''/etc/pam.d/padlock'') = text_of ls" using assms(2,3) by (simp add: file_data_def)
  show ?thesis
    using assms(1,5) op loop fd expected_line [OF assms(6)]
    by (simp add: pam_service_is_passwordless_for_user_def stream_def fclose_def fflush_def)
qed

lemma service_read_error:
  assumes "w_files w ''/etc/pam.d/padlock'' = Some n" "w_faults w = Pass # Fail e # fs" "user \<noteq> ''''" "length user < 345"
  shows "\<exists>w'. pam_service_is_passwordless_for_user (Some user) w = Some (1, w')"
proof -
  let ?w = "w\<lparr>w_faults := Fail e # fs, w_open := Suc (w_open w)\<rparr>"
  have op: "fopen ''/etc/pam.d/padlock'' ''r'' w = (Some (stream ''/etc/pam.d/padlock'' False), ?w)"
    using assms(1,2) by (simp add: fopen_def attempt_def poll_def)
  have "fgets b 512 src ?w = Some (False, b, src, set_errno e (?w\<lparr>w_faults := fs\<rparr>))" for b src
    by (simp add: fgets_def Let_def transfer_def poll_def buf_write_def overlay_def)
  then have "service_loop (service_line user) b src ?w = Some (1, set_errno e (?w\<lparr>w_faults := fs\<rparr>))" for b src
    by (subst service_loop.simps) simp
  then show ?thesis
    using assms(3) op expected_line [OF assms(4)] by (simp add: pam_service_is_passwordless_for_user_def stream_def)
qed

section \<open>Arrays of the program\<close>

lemma secure_zero_all [simp]: "length b = n \<Longrightarrow> secure_zero b n = Some (replicate n NUL)"
proof -
  have "secure_zero_loop (replicate i NUL @ b) i (length b) = Some (replicate (i + length b) NUL)" for i
  proof (induction b arbitrary: i)
    case (Cons x b)
    have "buf_write (replicate i NUL @ x # b) i [NUL] = Some (replicate (Suc i) NUL @ b)"
      by (simp add: buf_write_def overlay_def replicate_append_same [symmetric])
    then show ?case using Cons.IH [of "Suc i"] by simp
  qed simp
  from this [of 0] show "length b = n \<Longrightarrow> secure_zero b n = Some (replicate n NUL)" by (auto simp: secure_zero_def)
qed

lemma bytes_zero [simp]: "bytes (replicate n NUL) = replicate n 0"
  by (simp add: bytes_def)

text \<open>An array of \<open>n\<close> characters that holds a string.\<close>

definition holds_text :: "nat \<Rightarrow> string option \<Rightarrow> bool" where
  "holds_text n buffer \<longleftrightarrow> (\<exists>b. buffer = Some b \<and> length b = n \<and> NUL \<in> set b)"

lemma snprintf_to_text:
  assumes "length b = n" "0 < n"
  obtains r b' where "snprintf_to b n s = Some (r, b')" "holds_text n (Some b')"
proof -
  obtain r t where t: "snprintf n s = (r, t)" by fastforce
  then have len: "length t < n" using assms(2) by (auto simp: snprintf_def split: if_splits)
  with t have "snprintf_to b n s = Some (r, overlay b 0 (t @ [NUL]))" using assms(1) by (simp add: snprintf_to_def)
  then show ?thesis by (rule that) (use len assms in \<open>auto simp: holds_text_def overlay_def\<close>)
qed

lemma copy_message_text:
  assumes "length b = n" "0 < n"
  obtains b' where "copy_message (Some b) n m = Some b'" "holds_text n b'"
proof (cases m)
  case None
  have "copy_message (Some b) n m = Some (Some (overlay b 0 [NUL]))" using None assms by (simp add: copy_message_def)
  then show ?thesis by (rule that) (use assms in \<open>auto simp: holds_text_def overlay_def\<close>)
next
  case (Some s)
  obtain r b' where "snprintf_to b n s = Some (r, b')" "holds_text n (Some b')" by (rule snprintf_to_text [OF assms])
  then show ?thesis using that [of "Some b'"] Some assms(2) by (simp add: copy_message_def)
qed

lemma copy_pam_message_text:
  assumes "length b = n" "0 < n"
  obtains b' where "copy_pam_message pam (Some b) n code = Some b'" "holds_text n b'"
proof -
  let ?m = "case PAM_strerror pam code of Some (ch # message) \<Rightarrow> ''PAM '' @ show_int code @ '': '' @ ch # message
    | _ \<Rightarrow> ''PAM '' @ show_int code"
  obtain r b' where "snprintf_to b n ?m = Some (r, b')" "holds_text n (Some b')" by (rule snprintf_to_text [OF assms])
  then show ?thesis using that [of "Some b'"] assms(2) by (simp add: copy_pam_message_def)
qed

lemma holds_textE: "holds_text n b \<Longrightarrow> (\<And>a s. b = Some a \<Longrightarrow> length a = n \<Longrightarrow> c_string a = Some s \<Longrightarrow> P) \<Longrightarrow> P"
  by (auto simp: holds_text_def c_string_def)

section \<open>The prompt\<close>

text \<open>What the functions of the program leave unchanged besides the world: the user, the terminal, the output.\<close>

definition con_frame :: "console \<Rightarrow> console \<Rightarrow> bool" where
  "con_frame c c' \<longleftrightarrow> c_user c' = c_user c \<and> c_tty c' = c_tty c \<and> c_out c' = c_out c \<and> c_pam c' = c_pam c \<and>
     file_frame (c_world c) (c_world c')"

lemma con_frame_refl [simp]: "con_frame c c"
  by (simp add: con_frame_def)

lemma con_frame_trans [trans]: "con_frame c c' \<Longrightarrow> con_frame c' c'' \<Longrightarrow> con_frame c c''"
  by (auto simp: con_frame_def intro: file_frame_trans)

lemma con_frame_world: "file_frame (c_world c) w \<Longrightarrow> con_frame c (upd_cworld (\<lambda>_. w) c)"
  by (simp add: con_frame_def)

lemma con_frame_simps [simp]:
  "con_frame c (eprint s c') = con_frame c c'" "con_frame c (leave_login b c') = con_frame c c'"
  "con_frame c (c'\<lparr>c_stdin := rest\<rparr>) = con_frame c c'" "con_frame c (c'\<lparr>c_echo := e\<rparr>) = con_frame c c'"
  "con_frame c (upd_cworld (set_errno n) c') = con_frame c c'"
  "con_frame c (c'\<lparr>c_tworld := tw\<lparr>t_world := set_errno n w\<rparr>\<rparr>) = con_frame c (c'\<lparr>c_tworld := tw\<lparr>t_world := w\<rparr>\<rparr>)"
  by (simp_all add: con_frame_def eprint_def leave_login_def leave_def file_frame_def)

lemma file_frame_errno [simp]: "file_frame w (set_errno e w') \<longleftrightarrow> file_frame w w'"
  by (simp add: file_frame_def)

lemma tcattr_frame:
  "con_frame c (snd (tcgetattr c))" "con_frame c (snd (tcsetattr e c))"
  "fst (tcsetattr e c) \<Longrightarrow> c_echo (snd (tcsetattr e c)) = e"
  "\<not> fst (tcsetattr e c) \<Longrightarrow> c_echo (snd (tcsetattr e c)) = c_echo c"
  "c_echo (snd (tcgetattr c)) = c_echo c" "c_stdin (snd (tcgetattr c)) = c_stdin c" "c_stdin (snd (tcsetattr e c)) = c_stdin c"
  by (auto simp: tcgetattr_def tcsetattr_def con_frame_def split: prod.splits bool.splits
      dest!: attempt_frame intro: io_frame_file_frame file_frame_trans)

text \<open>
  \<open>prompt_password\<close> on any input and with any failing calls: it returns, the array keeps its size, and on
  success it holds a string that is not empty. The echo is as before, unless the call that restores it fails.
\<close>

lemma c_string_some: "NUL \<in> set b \<Longrightarrow> c_string b = Some (takeWhile (\<lambda>c. c \<noteq> NUL) b)"
  by (simp add: c_string_def)

lemma c_string_cons: "c_string (x # b) = (if x = NUL then Some [] else map_option (Cons x) (c_string b))"
  by (auto simp: c_string_def)

lemma c_string_length: "c_string b = Some s \<Longrightarrow> length s < length b"
proof (induction b arbitrary: s)
  case Nil
  then show ?case by (simp add: c_string_def)
next
  case (Cons x b)
  then show ?case by (auto simp: c_string_cons split: if_splits)
qed

lemma prompt_total:
  assumes "length b = n" "0 < n"
  obtains rc b' c' where "prompt_password prompt (Some b) n c = Some (rc, Some b', c')" "length b' = n" "con_frame c c'"
    "rc = 0 \<or> rc = -1" "rc = 0 \<Longrightarrow> \<exists>s. c_string b' = Some s \<and> s \<noteq> ''''"
proof -
  define c1 where "c1 = eprint prompt c"
  obtain old c2 where g: "tcgetattr c1 = (old, c2)" by fastforce
  obtain changed c3 where st: "(case old of None \<Rightarrow> (False, c2) | Some _ \<Rightarrow> tcsetattr False c2) = (changed, c3)" by fastforce
  obtain got b1 rest w where f: "fgets b n (c_stdin c3) (c_world c3) = Some (got, b1, rest, w)" "length b1 = length b"
    "io_frame (c_world c3) w" "got \<Longrightarrow> NUL \<in> set b1"
    by (rule fgets_total [of n b]) (use assms in auto)
  define c4 where "c4 = upd_cworld (\<lambda>_. w) (c3\<lparr>c_stdin := rest\<rparr>)"
  define c5 where "c5 = eprint [newline] (if changed then snd (tcsetattr (the old) c4) else c4)"
  have "con_frame c c2" using tcattr_frame(1) [of c1] g by (simp add: c1_def con_frame_def eprint_def)
  moreover have "con_frame c2 c3" using st tcattr_frame(2) [of c2 False] by (auto split: option.splits)
  moreover have "con_frame c3 c4" using io_frame_file_frame [OF f(3)] by (simp add: c4_def con_frame_def)
  moreover have "con_frame c4 c5" using tcattr_frame(2) by (simp add: c5_def)
  ultimately have frame: "con_frame c c5" by (blast intro: con_frame_trans)
  note run = prompt_password_def c1_def [symmetric] g st f(1) c4_def [symmetric] c5_def [symmetric]
  show ?thesis
  proof (cases got)
    case False
    then have "prompt_password prompt (Some b) n c = Some (-1, Some b1, c5)" using assms(2) run by simp
    then show ?thesis by (rule that) (use f(2) assms frame in auto)
  next
    case True
    then obtain s where s: "c_string b1 = Some s" "NUL \<in> set b1" using f(4) by (auto simp: c_string_def)
    then have len: "length s < length b1" by (intro c_string_length)
    define b2 where "b2 = (if s \<noteq> [] \<and> last s = newline then overlay b1 (length s - 1) [NUL] else b1)"
    have b2: "(if s \<noteq> [] \<and> last s = newline then buf_write b1 (length s - 1) [NUL] else Some b1) = Some b2"
      "length b2 = n" using len f(2) assms by (auto simp: b2_def)
    have nul: "NUL \<in> set b2" using s(2) by (auto simp: b2_def overlay_def)
    obtain x b3 where x: "b2 = x # b3" using assms(2) b2(2) by (cases b2) auto
    have "prompt_password prompt (Some b) n c = Some (if x = NUL then -1 else 0, Some b2, c5)"
      using assms(2) True run s(1) b2(1) x by (simp add: window_def)
    then show ?thesis
      by (rule that) (use b2 nul frame x in \<open>auto simp: c_string_def split: if_splits\<close>)
  qed
qed

definition typable :: "string \<Rightarrow> bool" where
  "typable l \<longleftrightarrow> l \<noteq> '''' \<and> length l < 511 \<and> newline \<notin> set l \<and> NUL \<notin> set l"

text \<open>Without failing calls the line that is typed, up to 510 characters, is the password.\<close>

lemma tcattr_clean:
  assumes "w_faults (c_world c) = []"
  shows "tcgetattr c = (if c_tty c then (Some (c_echo c), c) else (None, upd_cworld (set_errno ENOTTY) c))"
    "c_tty c \<Longrightarrow> tcsetattr e c = (True, c\<lparr>c_echo := e\<rparr>)"
  using assms by (simp_all add: tcgetattr_def tcsetattr_def)

lemma prompt_clean:
  assumes nf: "w_faults (c_world c) = []" and l: "typable l" "c_stdin c = l @ newline # rest" and b: "length b = 512"
  obtains b' c' where "prompt_password prompt (Some b) 512 c = Some (0, Some b', c')" "length b' = 512" "c_string b' = Some l"
    "con_frame c c'" "c_stdin c' = rest" "c_echo c' = c_echo c" "c_tworld c' = c_tworld c \<or> c_tworld c' = upd_world (set_errno ENOTTY) (c_tworld c)"
proof -
  let ?b1 = "l @ newline # NUL # drop (length l + 2) b" and ?b2 = "l @ NUL # NUL # drop (length l + 2) b"
  have ty: "newline \<notin> set l" "NUL \<notin> set l" "length l < 511" "l \<noteq> ''''" using l(1) by (simp_all add: typable_def)
  have fg: "fgets b 512 (l @ newline # rest) w = Some (True, ?b1, rest, w)" if "w_faults w = []" for w
    by (rule fgets_clean [OF that ty(1)]) (use ty b in auto)
  have s: "c_string ?b1 = Some (l @ [newline])" using c_string_cut [of "l @ [newline]" "drop (length l + 2) b"] ty by simp
  have wr: "buf_write ?b1 (length l) [NUL] = Some ?b2" by (simp add: buf_write_def overlay_def)
  obtain x k where x: "l = x # k" "x \<noteq> NUL" using ty by (cases l) auto
  have rd: "buf_read ?b2 0 1 = Some [x]" using x by (simp add: window_def)
  let ?w = "if c_tty c then c_world c else set_errno ENOTTY (c_world c)"
  have "\<exists>c'. prompt_password prompt (Some b) 512 c = Some (0, Some ?b2, c') \<and> con_frame c c' \<and> c_stdin c' = rest \<and>
    c_echo c' = c_echo c \<and> c_tworld c' = upd_world (\<lambda>_. ?w) (c_tworld c)"
    using nf l(2) fg s wr rd x(2)
    by (simp add: prompt_password_def tcattr_clean eprint_def con_frame_def file_frame_def)
  then obtain c' where c': "prompt_password prompt (Some b) 512 c = Some (0, Some ?b2, c')" "con_frame c c'" "c_stdin c' = rest"
    "c_echo c' = c_echo c" "c_tworld c' = upd_world (\<lambda>_. ?w) (c_tworld c)" by blast
  show ?thesis
    by (rule that [OF c'(1) _ c_string_cut c'(2-4)]) (use ty b c'(5) in auto)
qed

section \<open>Conversations\<close>

text \<open>The number of answers among the first \<open>k\<close>.\<close>

definition answers :: "nat \<Rightarrow> byte list option list \<Rightarrow> nat" where
  "answers k rs = length (filter (\<lambda>r. r \<noteq> None) (take k rs))"

lemma answers_Suc: "k < length rs \<Longrightarrow> answers (Suc k) (rs[k := r]) = answers k rs + (if r = None then 0 else 1)"
  by (simp add: answers_def take_Suc_conv_app_nth)

lemma live_free: "w_live (free name p w) = w_live w - (if p = None then 0 else 1)"
  by (simp add: free_def split: option.splits)

lemma free_answers:
  assumes "k \<le> length rs"
  shows "w_live (free_responses k rs w) = w_live w - Suc (answers k rs)" "file_frame w (free_responses k rs w)"
proof -
  let ?f = "\<lambda>k. fold (\<lambda>cleanup. free ''resp'' (rs ! cleanup)) [0..<k] w"
  have "w_live (?f k) = w_live w - answers k rs \<and> file_frame w (?f k)" using assms
  proof (induction k)
    case (Suc k)
    then have "answers (Suc k) rs = answers k rs + (if rs ! k = None then 0 else 1)"
      using answers_Suc [of k rs "rs ! k"] by simp
    with Suc show ?case by (simp add: live_free)
  qed (simp add: answers_def)
  then show "w_live (free_responses k rs w) = w_live w - Suc (answers k rs)" "file_frame w (free_responses k rs w)"
    by (simp_all add: free_responses_def live_free)
qed

text \<open>
  The conversation function, called with as many messages as it is told: it answers every prompt with the
  password and every other message with nothing, or it fails and has freed everything it allocated.
\<close>

abbreviation prompts :: "int \<Rightarrow> bool" where "prompts style \<equiv> style = PAM_PROMPT_ECHO_OFF \<or> style = PAM_PROMPT_ECHO_ON"
abbreviation informs :: "int \<Rightarrow> bool" where "informs style \<equiv> style = PAM_ERROR_MSG \<or> style = PAM_TEXT_INFO"

definition answer_to :: "string \<Rightarrow> int \<Rightarrow> byte list option" where
  "answer_to password style = (if prompts style then Some (bytes password @ [0]) else None)"

definition answered :: "string \<Rightarrow> int list \<Rightarrow> world \<Rightarrow> int \<times> byte list option list option \<Rightarrow> world \<Rightarrow> bool" where
  "answered password msg w r w' \<longleftrightarrow> file_frame w w' \<and>
     (case r of
        (code, Some rs) \<Rightarrow> code = PAM_SUCCESS \<and> rs = map (answer_to password) msg \<and>
          w_live w' = Suc (w_live w + length (filter prompts msg))
      | (code, None) \<Rightarrow> (code = PAM_BUF_ERR \<or> code = PAM_CONV_ERR) \<and> w_live w' = w_live w)"

lemma conversation_loop_spec:
  assumes "index + left = length msg" "length rs = length msg" "take index rs = map (answer_to password) (take index msg)"
    and "w_live w = Suc (m + answers index rs)"
  shows "\<exists>r w'. conversation_loop password msg index left rs w = Some (r, w') \<and> file_frame w w' \<and>
    (case r of
       (code, Some rs) \<Rightarrow> code = PAM_SUCCESS \<and> rs = map (answer_to password) msg \<and>
         w_live w' = Suc (m + length (filter (\<lambda>r. r \<noteq> None) rs))
     | (code, None) \<Rightarrow> (code = PAM_BUF_ERR \<or> code = PAM_CONV_ERR) \<and> w_live w' = m)"
  using assms
proof (induction left arbitrary: index rs w)
  case 0
  then show ?case by (simp add: answers_def)
next
  case (Suc left)
  have i: "index < length msg" using Suc.prems(1) by simp
  have rd: "buf_read msg index 1 = Some [msg ! index]" using i by (simp add: window_def take_Suc_conv_app_nth hd_drop_conv_nth take_Suc)
  have upd: "take (Suc index) (rs[index := a]) = map (answer_to password) (take (Suc index) msg)" if "a = answer_to password (msg ! index)" for a
    using Suc.prems(2,3) i that by (simp add: take_Suc_conv_app_nth)
  have idx: "index \<le> length rs" using Suc.prems(2) i by simp
  have stop: "file_frame w (free_responses index rs w1) \<and> w_live (free_responses index rs w1) = m" if "file_frame w w1" "w_live w1 = w_live w" for w1
    using free_answers [OF idx, of w1] that Suc.prems(4) by (simp add: file_frame_trans [OF that(1)])
  show ?case
  proof (cases "prompts (msg ! index)")
    case True
    obtain p w1 where ml: "malloc (length password + 1) w = (p, w1)" by fastforce
    show ?thesis
    proof (cases p)
      case None
      then have "w_live w1 = w_live w \<and> file_frame w w1"
        using ml by (auto simp: malloc_def file_frame_def io_frame_def split: prod.splits bool.splits dest!: attempt_frame)
      then show ?thesis using stop [of w1] rd True ml None by auto
    next
      case (Some b)
      then have w1: "w_live w1 = Suc (w_live w)" "file_frame w w1" "length b = length password + 1"
        using ml by (auto simp: malloc_def file_frame_def io_frame_def split: prod.splits bool.splits dest!: attempt_frame)
      let ?b = "bytes password @ [0]"
      have "\<exists>r w'. conversation_loop password msg (Suc index) left (rs[index := Some ?b]) w1 = Some (r, w') \<and> file_frame w1 w' \<and>
        (case r of (code, Some rs) \<Rightarrow> code = PAM_SUCCESS \<and> rs = map (answer_to password) msg \<and>
             w_live w' = Suc (m + length (filter (\<lambda>r. r \<noteq> None) rs))
         | (code, None) \<Rightarrow> (code = PAM_BUF_ERR \<or> code = PAM_CONV_ERR) \<and> w_live w' = m)"
        using Suc.prems i w1(1) True
        by (intro Suc.IH upd) (simp_all add: answer_to_def answers_Suc)
      then show ?thesis using rd True ml Some w1(2,3) by (auto intro: file_frame_trans)
    qed
  next
    case False
    show ?thesis
    proof (cases "informs (msg ! index)")
      case True
      have "\<exists>r w'. conversation_loop password msg (Suc index) left (rs[index := None]) w = Some (r, w') \<and> file_frame w w' \<and>
        (case r of (code, Some rs) \<Rightarrow> code = PAM_SUCCESS \<and> rs = map (answer_to password) msg \<and>
             w_live w' = Suc (m + length (filter (\<lambda>r. r \<noteq> None) rs))
         | (code, None) \<Rightarrow> (code = PAM_BUF_ERR \<or> code = PAM_CONV_ERR) \<and> w_live w' = m)"
        using Suc.prems i False by (intro Suc.IH upd) (simp_all add: answer_to_def answers_Suc)
      then show ?thesis using rd True False by auto
    next
      case other: False
      then show ?thesis using stop [of w] rd False by auto
    qed
  qed
qed

lemma conversation_answers:
  assumes "num = int (length msg)"
  obtains r w' where "pam_password_conversation (Some (Some password)) num (Some msg) resp w = Some (r, w')" "answered password msg w r w'"
proof (cases "msg = [] \<or> \<not> resp")
  case True
  then have "pam_password_conversation (Some (Some password)) num (Some msg) resp w = Some ((PAM_CONV_ERR, None), w)"
    using assms by (auto simp: pam_password_conversation_def)
  then show ?thesis by (rule that) (simp add: answered_def)
next
  case False
  obtain p w1 where ca: "calloc (16 * length msg) w = (p, w1)" by fastforce
  then have w1: "file_frame w w1" "w_live w1 = (if p = None then w_live w else Suc (w_live w))"
    by (auto simp: calloc_def file_frame_def io_frame_def split: prod.splits bool.splits dest!: attempt_frame)
  show ?thesis
  proof (cases p)
    case None
    then have "pam_password_conversation (Some (Some password)) num (Some msg) resp w = Some ((PAM_BUF_ERR, None), w1)"
      using assms False ca by (simp add: pam_password_conversation_def)
    then show ?thesis by (rule that) (use w1 None in \<open>simp add: answered_def\<close>)
  next
    case (Some b)
    obtain r w' where run: "conversation_loop password msg 0 (length msg) (replicate (length msg) None) w1 = Some (r, w')" "file_frame w1 w'"
      and r: "case r of (code, Some rs) \<Rightarrow> code = PAM_SUCCESS \<and> rs = map (answer_to password) msg \<and>
           w_live w' = Suc (w_live w + length (filter (\<lambda>r. r \<noteq> None) rs))
         | (code, None) \<Rightarrow> (code = PAM_BUF_ERR \<or> code = PAM_CONV_ERR) \<and> w_live w' = w_live w"
      using conversation_loop_spec [of 0 "length msg" msg "replicate (length msg) None" password w1 "w_live w"] w1(2) Some
      by (auto simp: answers_def simp del: not_None_eq)
    have "filter (\<lambda>r. r \<noteq> None) (map (answer_to password) msg) = map (answer_to password) (filter prompts msg)"
      by (simp add: filter_map comp_def answer_to_def)
    then have "answered password msg w r w'"
      using r file_frame_trans [OF w1(1) run(2)] by (auto simp: answered_def split: prod.splits option.splits)
    moreover have "pam_password_conversation (Some (Some password)) num (Some msg) resp w = Some (r, w')"
      using assms False ca Some run(1) by (simp add: pam_password_conversation_def)
    ultimately show ?thesis using that by blast
  qed
qed

end
