(* ===== verification/Padlock_Seal.thy ===== *)
theory Padlock_Seal
  imports Padlock_Tpm
begin

text \<open>
  What the sealed key functions do: every path closes what it opened, for every sequence of failing
  calls; a sealed key is unsealed again, the same one on every call; and the header password is the
  hexadecimal digest.
\<close>

section \<open>Resources\<close>

named_theorems counts \<open>open descriptors and live blocks after a call\<close>

text \<open>\<open>counts w o l w'\<close>: \<open>o\<close> more descriptors and \<open>l\<close> more blocks than in \<open>w\<close>.\<close>

definition holds :: "world \<Rightarrow> nat \<Rightarrow> nat \<Rightarrow> world \<Rightarrow> bool" where
  "holds w p l w' \<longleftrightarrow> w_open w' = w_open w + p \<and> w_live w' = w_live w + l \<and> (w_faults w = [] \<longrightarrow> w_faults w' = [])"

lemma holds_refl: "holds w 0 0 w" by (simp add: holds_def)

lemma holds_frame: "holds w p l w1 \<Longrightarrow> io_frame w1 w2 \<Longrightarrow> holds w p l w2"
  by (auto simp: holds_def io_frame_def)

lemma holds_attempt [counts]: "holds w p l w1 \<Longrightarrow> attempt w1 = (ok, w2) \<Longrightarrow> holds w p l w2"
  by (blast intro: holds_frame attempt_frame)

lemma holds_transfer: "holds w p l w1 \<Longrightarrow> transfer n w1 = (k, w2) \<Longrightarrow> holds w p l w2"
  by (blast intro: holds_frame transfer_frame)

lemma holds_put_file [simp]: "holds w p l (put_file path off s w1) = holds w p l w1"
  by (simp add: holds_def put_file_def split: option.splits)

lemma holds_files [simp]: "holds w p l (w1\<lparr>w_files := x\<rparr>) = holds w p l w1" "holds w p l (w1\<lparr>w_errno := e\<rparr>) = holds w p l w1"
  "holds w p l (w1\<lparr>w_dirs := y\<rparr>) = holds w p l w1" "holds w p l (w1\<lparr>w_rpos := k\<rparr>) = holds w p l w1"
  "holds w p l (w1\<lparr>w_residue := z\<rparr>) = holds w p l w1"
  by (simp_all add: holds_def)

lemma holds_fflush: "holds w p l w1 \<Longrightarrow> fflush f w1 = (rc, f', w2) \<Longrightarrow> holds w p l w2"
  by (auto simp: fflush_def split: if_splits prod.splits dest: holds_transfer)

lemma holds_fseeko [counts]: "holds w p l w1 \<Longrightarrow> fseeko f off w1 = (rc, f', w2) \<Longrightarrow> holds w p l w2"
  by (auto simp: fseeko_def split: if_splits prod.splits bool.splits dest: holds_fflush holds_attempt)

lemma holds_fread [counts]: "holds w p l w1 \<Longrightarrow> fread f n w1 = (bs, f', w2) \<Longrightarrow> holds w p l w2"
  by (auto simp: fread_def split: prod.splits dest: holds_transfer)

lemma holds_fwrite [counts]: "holds w p l w1 \<Longrightarrow> fwrite bs f w1 = (k, f', w2) \<Longrightarrow> holds w p l w2"
  by (auto simp: fwrite_def split: prod.splits if_splits dest: holds_transfer)

lemma holds_fclose [counts]: "holds w (Suc p) l w1 \<Longrightarrow> fclose f w1 = (rc, w2) \<Longrightarrow> holds w p l w2"
proof -
  assume h: "holds w (Suc p) l w1" and "fclose f w1 = (rc, w2)"
  then obtain rc' f' w3 ok w4 where "fflush f w1 = (rc', f', w3)" "attempt w3 = (ok, w4)" "w2 = w4\<lparr>w_open := w_open w4 - 1\<rparr>"
    by (auto simp: fclose_def split: prod.splits)
  moreover from this h have "holds w (Suc p) l w4" by (blast intro: holds_fflush holds_attempt)
  ultimately show ?thesis by (simp add: holds_def)
qed

lemma holds_fopen [counts]:
  "holds w p l w1 \<Longrightarrow> fopen path mode w1 = (f, w2) \<Longrightarrow> holds w (if f = None then p else Suc p) l w2"
  "holds w p l w1 \<Longrightarrow> fopen_wb path w1 = (f, w2) \<Longrightarrow> holds w (if f = None then p else Suc p) l w2"
  by (auto simp: fopen_def fopen_wb_def holds_def split: prod.splits bool.splits option.splits if_splits
      dest!: attempt_frame simp: io_frame_def)

lemma holds_alloc [counts]:
  "holds w p l w1 \<Longrightarrow> calloc n w1 = (b, w2) \<Longrightarrow> holds w p (if b = None then l else Suc l) w2"
  "holds w p l w1 \<Longrightarrow> malloc n w1 = (b, w2) \<Longrightarrow> holds w p (if b = None then l else Suc l) w2"
  by (auto simp: calloc_def malloc_def holds_def split: prod.splits bool.splits
      dest!: attempt_frame simp: io_frame_def)

lemma holds_free: "holds w p (Suc l) w1 \<Longrightarrow> holds w p l (free name (Some b) w1)"
  by (simp add: holds_def free_def)

text \<open>What the code relies on from the marshalling functions: they stay inside the buffer they are given.\<close>

definition marshal_bounded :: "('o, 'p) tss2 \<Rightarrow> bool" where
  "marshal_bounded tss \<longleftrightarrow>
     (\<forall>b n bs. PUBLIC_Marshal tss b n = Some bs \<longrightarrow> length bs \<le> n) \<and> (\<forall>b n bs. PRIVATE_Marshal tss b n = Some bs \<longrightarrow> length bs \<le> n)"

lemma write_blob_holds:
  assumes "\<And>bs. marshal b n = Some bs \<Longrightarrow> length bs \<le> n" "holds w p l w1"
  obtains rc f' w2 where "padlock_tpm_write_blob f b n marshal w1 = Some (rc, f', w2)" "holds w p l w2"
proof (cases "calloc n w1")
  case (Pair c w2)
  show ?thesis
  proof (cases c)
    case None
    then show ?thesis using that Pair holds_alloc(1) [OF assms(2) Pair] by (simp add: padlock_tpm_write_blob_def)
  next
    case (Some buffer)
    then have b: "length buffer = n" "holds w p (Suc l) w2"
      using Pair holds_alloc(1) [OF assms(2) Pair] by (auto simp: calloc_def split: prod.splits bool.splits)
    show ?thesis
    proof (cases "marshal b n")
      case None
      then show ?thesis using that b Pair Some holds_free [OF b(2)] by (simp add: padlock_tpm_write_blob_def)
    next
      case m: (Some bs)
      then have len: "length bs \<le> length buffer" using assms(1) b by blast
      obtain k f' w3 where fw: "fwrite bs f w2 = (k, f', w3)" by (metis prod_cases3)
      have w: "window (overlay buffer 0 bs) 0 (length bs) = bs" using len by (simp add: window_overlay_same)
      show ?thesis
        using that b Pair Some m len fw w holds_free [OF holds_fwrite [OF b(2) fw]]
        by (simp add: padlock_tpm_write_blob_def)
    qed
  qed
qed

lemma public_blob_holds:
  assumes "marshal_bounded tss" "holds w p l w1"
  obtains rc f' w2 where "padlock_tpm_write_public_blob tss f b w1 = Some (rc, f', w2)" "holds w p l w2"
proof -
  have *: "length bs \<le> sizeof_PUBLIC tss" if "PUBLIC_Marshal tss b (sizeof_PUBLIC tss) = Some bs" for bs
    using assms(1) that by (auto simp: marshal_bounded_def)
  show ?thesis
    by (rule write_blob_holds [where marshal = "PUBLIC_Marshal tss" and b = b and n = "sizeof_PUBLIC tss" and f = f,
          OF * assms(2), folded padlock_tpm_write_public_blob_def]) (assumption, rule that)
qed

lemma private_blob_holds:
  assumes "marshal_bounded tss" "holds w p l w1"
  obtains rc f' w2 where "padlock_tpm_write_private_blob tss f b w1 = Some (rc, f', w2)" "holds w p l w2"
proof -
  have *: "length bs \<le> sizeof_PRIVATE tss" if "PRIVATE_Marshal tss b (sizeof_PRIVATE tss) = Some bs" for bs
    using assms(1) that by (auto simp: marshal_bounded_def)
  show ?thesis
    by (rule write_blob_holds [where marshal = "PRIVATE_Marshal tss" and b = b and n = "sizeof_PRIVATE tss" and f = f,
          OF * assms(2), folded padlock_tpm_write_private_blob_def]) (assumption, rule that)
qed

lemma read_blob_holds:
  assumes "holds w p l w1"
  obtains r f' w2 where "padlock_tpm_read_blob f n unmarshal w1 = Some (r, f', w2)" "holds w p l w2"
proof -
  obtain rc f1 w2 where 1: "fseeko f (int (length (file_data w1 (f_path f)))) w1 = (rc, f1, w2)" by (metis prod_cases3)
  note h2 = holds_fseeko [OF assms 1]
  obtain told w3 where 2: "attempt w2 = (told, w3)" by (metis prod.exhaust)
  note h3 = holds_attempt [OF h2 2]
  define size where "size = (if told then int (f_pos f1) else -1)"
  obtain rc' f2 w4 where 3: "fseeko f1 0 w3 = (rc', f2, w4)" by (metis prod_cases3)
  note h4 = holds_fseeko [OF h3 3]
  show ?thesis
  proof (cases "rc \<noteq> 0 \<or> size \<le> 0 \<or> nat size > n \<or> rc' \<noteq> 0")
    case True
    then have "\<exists>f' w'. padlock_tpm_read_blob f n unmarshal w1 = Some (None, f', w') \<and> holds w p l w'"
      using h2 h3 h4 by (auto simp: padlock_tpm_read_blob_def 1 2 3 Let_def size_def)
    then show ?thesis using that by blast
  next
    case False
    obtain c w5 where 4: "malloc (nat size) w4 = (c, w5)" by (metis prod.exhaust)
    note h5 = holds_alloc(2) [OF h4 4]
    show ?thesis
    proof (cases c)
      case None
      then show ?thesis using that h5 False by (simp add: padlock_tpm_read_blob_def 1 2 3 4 Let_def size_def [symmetric])
    next
      case (Some buffer)
      have len: "length buffer = nat size" using 4 Some by (auto simp: malloc_def junk_def split: prod.splits bool.splits)
      obtain bs f3 w6 where 5: "fread f2 (nat size) w5 = (bs, f3, w6)" by (metis prod_cases3)
      have bs: "length bs \<le> nat size"
      proof -
        obtain k w7 where t: "transfer (length (window (file_data w5 (f_path f2)) (f_pos f2) (nat size))) w5 = (k, w7)"
          by (metis prod.exhaust)
        then have "k \<le> nat size"
          by (auto simp: transfer_def length_window intro: min.coboundedI1 min.coboundedI2 split: prod.splits fault.splits)
        then show ?thesis using 5 t by (auto simp: fread_def length_window)
      qed
      have "holds w p (Suc l) w6" using holds_fread [OF h5 5] Some by simp
      then show ?thesis using that holds_free [of w p l w6] False len bs Some
        by (simp add: padlock_tpm_read_blob_def 1 2 3 4 5 Let_def size_def [symmetric])
    qed
  qed
qed

section \<open>Objects and contexts\<close>

text \<open>
  As \<open>holds\<close>, with the contexts and objects of the TPM: \<open>c\<close> connections and \<open>h\<close> objects more, besides those
  whose flush failed.
\<close>

definition objects_held :: "tworld \<Rightarrow> nat \<Rightarrow> tworld \<Rightarrow> bool" where
  "objects_held s h s' \<longleftrightarrow> t_unflushed s \<le> t_unflushed s' \<and> t_handles s' = t_handles s + (t_unflushed s' - t_unflushed s) + h \<and>
     (w_faults (t_world s) = [] \<longrightarrow> t_unflushed s' = t_unflushed s)"

definition tholds :: "tworld \<Rightarrow> nat \<Rightarrow> nat \<Rightarrow> nat \<Rightarrow> nat \<Rightarrow> tworld \<Rightarrow> bool" where
  "tholds s c h p l s' \<longleftrightarrow> t_tcti s' = t_tcti s + c \<and> t_esys s' = t_esys s + c \<and> objects_held s h s' \<and>
     holds (t_world s) p l (t_world s')"

lemma tholds_world: "tholds s c h p l (s'\<lparr>t_world := w'\<rparr>) \<longleftrightarrow>
    t_tcti s' = t_tcti s + c \<and> t_esys s' = t_esys s + c \<and> objects_held s h s' \<and> holds (t_world s) p l w'"
  by (simp add: tholds_def objects_held_def)

lemma esys_call_holds: "tholds s c h p l s1 \<Longrightarrow> esys_call s1 = (ok, s2) \<Longrightarrow> tholds s c h p l s2"
  by (auto simp: esys_call_def tholds_def objects_held_def split: prod.splits dest: holds_attempt)

lemma esys_answer_holds:
  assumes "tholds s c h p l s1" "esys_answer m b a s1 = (r, s2)"
  shows "tholds s c (if r = None then h else h + m) p (if r = None then l else l + b) s2"
proof -
  obtain ok s3 where e: "esys_call s1 = (ok, s3)" by (metis prod.exhaust)
  note h = esys_call_holds [OF assms(1) e]
  then show ?thesis
    using assms(2) by (cases ok; cases a) (auto simp: esys_answer_def e tholds_def holds_def objects_held_def)
qed

lemma connect_holds:
  assumes "tholds s 0 h p l s1" "padlock_tpm_connect s1 = (ok, s2)"
  shows "tholds s (if ok then 1 else 0) h p l s2"
proof -
  obtain r1 s3 where 1: "esys_call s1 = (r1, s3)" by (metis prod.exhaust)
  obtain r2 s4 where 2: "(if r1 then (r1, s3) else esys_call s3) = (r2, s4)" by (metis prod.exhaust)
  obtain r3 s5 where 3: "esys_call s4 = (r3, s5)" by (metis prod.exhaust)
  have t4: "tholds s 0 h p l s4"
    using esys_call_holds [OF assms(1) 1] 2 by (auto split: if_splits dest: esys_call_holds)
  note t5 = esys_call_holds [OF t4 3]
  have "t_tcti s5 = t_tcti s4" "esys_call (s4\<lparr>t_tcti := x\<rparr>) = (r3, s5\<lparr>t_tcti := x\<rparr>)" for x
    using 3 by (auto simp: esys_call_def split: prod.splits)
  then show ?thesis
    using assms(2) 1 2 t4 t5
    by (auto simp: padlock_tpm_connect_def padlock_tpm_free_tcti_def tholds_def objects_held_def Let_def split: if_splits)
qed

lemma disconnect_holds: "tholds s 1 h p l s1 \<Longrightarrow> tholds s 0 h p l (padlock_tpm_disconnect True True s1)"
  by (simp add: tholds_def objects_held_def padlock_tpm_disconnect_def padlock_tpm_free_tcti_def)

lemma tholds_fclose:
  "tholds s c h (p + (if f = None then 0 else 1)) l s1 \<Longrightarrow>
     tholds s c h p l (case f of None \<Rightarrow> s1 | Some x \<Rightarrow> upd_world (\<lambda>w. snd (fclose x w)) s1)"
  by (cases f) (auto simp: tholds_def objects_held_def intro: holds_fclose prod.collapse [symmetric])

lemma flush_holds:
  assumes "tholds s c (h + (if loaded then 1 else 0)) p l s1"
  shows "tholds s c h p l (Esys_FlushContext loaded s1)"
proof (cases loaded)
  case True
  obtain ok w where a: "attempt (t_world s1) = (ok, w)" by (metis prod.exhaust)
  have h: "holds (t_world s) p l w" using assms holds_attempt [OF _ a] by (auto simp: tholds_def)
  have "ok" if "w_faults (t_world s) = []" using assms that a by (auto simp: tholds_def holds_def)
  with assms True a h show ?thesis
    by (cases ok) (auto simp: Esys_FlushContext_def esys_call_def tholds_def objects_held_def)
qed (use assms in \<open>simp add: Esys_FlushContext_def\<close>)

lemma create_done_holds:
  assumes "tholds s c (h + (if primary then 1 else 0)) (p + (if f = None then 0 else 1) + (if g = None then 0 else 1)) (l + b) s1"
  shows "tholds s c h p l (snd (create_done r f g primary b s1))"
proof -
  let ?s2 = "case f of None \<Rightarrow> s1 | Some x \<Rightarrow> upd_world (\<lambda>w. snd (fclose x w)) s1"
  let ?s3 = "case g of None \<Rightarrow> ?s2 | Some x \<Rightarrow> upd_world (\<lambda>w. snd (fclose x w)) ?s2"
  have "tholds s c (h + (if primary then 1 else 0)) (p + (if g = None then 0 else 1)) (l + b) ?s2"
    by (rule tholds_fclose) (use assms in \<open>simp add: ac_simps\<close>)
  then have "tholds s c (h + (if primary then 1 else 0)) p (l + b) ?s3" by (rule tholds_fclose)
  then have "tholds s c h p (l + b) (Esys_FlushContext primary ?s3)" by (rule flush_holds)
  then show ?thesis by (simp add: create_done_def Let_def Esys_Free_def tholds_def holds_def objects_held_def)
qed

lemma unseal_done_holds:
  assumes "tholds s c (h + (if primary then 1 else 0) + (if loaded then 1 else 0))
      (p + (if f = None then 0 else 1) + (if g = None then 0 else 1))
      (l + (if primary then 4 else 0) + (if u = None then 0 else 1) + b) s1"
  shows "tholds s c h p l (snd (unseal_done r f g primary loaded u b s1))"
proof -
  let ?s2 = "case f of None \<Rightarrow> s1 | Some x \<Rightarrow> upd_world (\<lambda>w. snd (fclose x w)) s1"
  let ?s3 = "case g of None \<Rightarrow> ?s2 | Some x \<Rightarrow> upd_world (\<lambda>w. snd (fclose x w)) ?s2"
  let ?h = "h + (if primary then 1 else 0) + (if loaded then 1 else 0)" and ?l = "l + (if primary then 4 else 0) + (if u = None then 0 else 1) + b"
  have "tholds s c ?h (p + (if g = None then 0 else 1)) ?l ?s2"
    by (rule tholds_fclose) (use assms in \<open>simp add: ac_simps\<close>)
  then have "tholds s c ?h p ?l ?s3" by (rule tholds_fclose)
  then have "tholds s c (h + (if loaded then 1 else 0)) p ?l (Esys_FlushContext primary ?s3)"
    by (rule_tac flush_holds) (simp add: ac_simps)
  then have "tholds s c h p ?l (Esys_FlushContext loaded (Esys_FlushContext primary ?s3))" by (rule flush_holds)
  then show ?thesis
    by (cases u) (auto simp: unseal_done_def Let_def Esys_Free_def free_def tholds_def holds_def objects_held_def)
qed


section \<open>Every path releases what it took\<close>

lemma create_write_holds:
  assumes b: "marshal_bounded tss" and h: "tholds s 1 1 0 9 s1"
  obtains rc s2 where "create_write tss pp qp priv pub s1 = Some (rc, s2)" "tholds s 1 0 0 0 s2"
proof -
  let ?w = "t_world s"
  have t: "tholds s 1 1 x y (s1\<lparr>t_world := w\<rparr>) = holds ?w x y w" for x y w
    using h by (simp add: tholds_def objects_held_def)
  obtain f w1 where 1: "fopen_wb pp (t_world s1) = (f, w1)" by (metis prod.exhaust)
  obtain g w2 where 2: "fopen_wb qp w1 = (g, w2)" by (metis prod.exhaust)
  have h1: "holds ?w (if f = None then 0 else 1) 9 w1" using holds_fopen(2) [OF _ 1, of ?w 0 9] h by (auto simp: tholds_def objects_held_def split: if_splits)
  have h2: "holds ?w ((if f = None then 0 else 1) + (if g = None then 0 else 1)) 9 w2"
    using holds_fopen(2) [OF h1 2] by (cases f; cases g) simp_all
  show ?thesis
  proof (cases "f = None \<or> g = None")
    case True
    then have "create_write tss pp qp priv pub s1 = Some (create_done (-1) f g True 9 (s1\<lparr>t_world := w2\<rparr>))"
      by (auto simp: create_write_def 1 2 split: option.splits)
    moreover have "tholds s 1 0 0 0 (snd (create_done (-1) f g True 9 (s1\<lparr>t_world := w2\<rparr>)))"
      by (rule create_done_holds) (use h2 t in simp)
    ultimately show ?thesis using that by (metis prod.collapse)
  next
    case False
    then obtain f' g' where fg: "f = Some f'" "g = Some g'" by auto
    have done2: "tholds s 1 0 0 0 (snd (create_done r (Some x) (Some y) True 9 (s1\<lparr>t_world := w\<rparr>)))" if "holds ?w 2 9 w" for r x y w
      by (rule create_done_holds) (use that t in \<open>simp add: numeral_2_eq_2\<close>)
    have hw2: "holds ?w 2 9 w2" using h2 fg by (simp add: numeral_2_eq_2)
    obtain rc f2 w3 where 3: "padlock_tpm_write_public_blob tss f' pub w2 = Some (rc, f2, w3)" "holds ?w 2 9 w3"
      by (rule public_blob_holds [OF b hw2])
    obtain rc' g2 w4 where 4: "padlock_tpm_write_private_blob tss g' priv w3 = Some (rc', g2, w4)" "holds ?w 2 9 w4"
      by (rule private_blob_holds [OF b 3(2)])
    have "create_write tss pp qp priv pub s1 =
        (if rc \<noteq> 0 then Some (create_done (-1) (Some f2) (Some g') True 9 (s1\<lparr>t_world := w3\<rparr>))
         else Some (create_done (if rc' \<noteq> 0 then -1 else 0) (Some f2) (Some g2) True 9 (s1\<lparr>t_world := w4\<rparr>)))"
      by (simp add: create_write_def 1 2 fg 3(1) 4(1))
    then show ?thesis
      using that done2 [OF 3(2), of "-1" f2 g'] done2 [OF 4(2), of "if rc' \<noteq> 0 then -1 else 0" f2 g2]
      by (cases "rc = 0") (metis prod.collapse)+
  qed
qed

lemma create_sealed_secret_holds:
  assumes b: "marshal_bounded tss" and h: "tholds s 1 0 0 0 s1" and len: "length secret = 32"
  obtains rc s2 where "padlock_tpm_create_sealed_secret tss pp qp secret s1 = Some (rc, s2)" "tholds s 1 0 0 0 s2"
proof -
  obtain x y where xy: "padlock_tpm_build_seal_template secret = Some (x, y)"
    using len by (simp add: padlock_tpm_build_seal_template_def)
  note d = padlock_tpm_create_sealed_secret_def xy Let_def
  have fin: "tholds s 1 0 0 0 (snd (create_done r None None p n z))" if "tholds s 1 (if p then 1 else 0) 0 n z" for r p n z
    by (rule create_done_holds) (use that in simp)
  obtain ok s2 where 1: "esys_call s1 = (ok, s2)" by (metis prod.exhaust)
  note h2 = esys_call_holds [OF h 1]
  obtain o1 s3 where 2: "esys_answer 1 4 (TPM_CreatePrimary tss \<lparr>userAuth = [], sensitive_data = []\<rparr> padlock_tpm_build_primary_template) s2 = (o1, s3)"
    by (metis prod.exhaust)
  note h3 = esys_answer_holds [OF h2 2]
  obtain ok' s4 where 3: "esys_call s3 = (ok', s4)" by (metis prod.exhaust)
  note h4 = esys_call_holds [OF h3 3]
  consider "\<not> ok" | "ok" "o1 = None" | p where "ok" "o1 = Some p" "\<not> ok'" | p where "ok" "o1 = Some p" "ok'" by (cases o1) auto
  then show ?thesis
  proof cases
    case 1
    then show ?thesis using that h2 \<open>esys_call s1 = (ok, s2)\<close> by (simp add: d)
  next
    case c: 2
    then show ?thesis using that [of _ "snd (create_done (-1) None None False 0 s3)"] fin [of False 0 s3 "-1"] h3 1 2
      by (simp add: d) (metis prod.collapse)
  next
    case c: (3 p)
    then show ?thesis using that [of _ "snd (create_done (-1) None None True 4 s4)"] fin [of True 4 s4 "-1"] h4 1 2 3
      by (simp add: d) (metis prod.collapse)
  next
    case c: (4 p)
    obtain o2 s5 where 4: "esys_answer 0 5 (TPM_Create tss p x y) s4 = (o2, s5)" by (metis prod.exhaust)
    have h5: "tholds s 1 1 0 (if o2 = None then 4 else 9) s5" using esys_answer_holds [OF h4 4] c by (simp split: if_splits)
    show ?thesis
    proof (cases o2)
      case None
      then show ?thesis using that [of _ "snd (create_done (-1) None None True 4 s5)"] fin [of True 4 s5 "-1"] h5 1 2 3 4 c
        by (simp add: d) (metis prod.collapse)
    next
      case (Some z)
      obtain priv pub where z: "z = (priv, pub)" by (cases z)
      obtain rc s6 where "create_write tss pp qp priv pub s5 = Some (rc, s6)" "tholds s 1 0 0 0 s6"
        by (rule create_write_holds [OF b, of s s5 pp qp priv pub]) (use h5 Some in simp_all)
      then show ?thesis using that 1 2 3 4 c Some by (simp add: d z)
    qed
  qed
qed


lemma unseal_object_holds:
  assumes h: "tholds s 1 0 2 2 s1"
  shows "tholds s 1 0 0 0 (snd (unseal_object tss f g priv pub s1))"
proof -
  have fin: "tholds s 1 0 0 0 (snd (unseal_done r (Some f) (Some g) p q u 2 z))"
    if "tholds s 1 ((if p then 1 else 0) + (if q then 1 else 0)) 2 ((if p then 4 else 0) + (if u = None then 0 else 1) + 2) z" for r :: "byte list option" and p q u z
    by (rule unseal_done_holds) (use that in \<open>simp add: eval_nat_numeral\<close>)
  obtain ok s2 where 1: "esys_call s1 = (ok, s2)" by (metis prod.exhaust)
  note h2 = esys_call_holds [OF h 1]
  obtain o1 s3 where 2: "esys_answer 1 4 (TPM_CreatePrimary tss \<lparr>userAuth = [], sensitive_data = []\<rparr> padlock_tpm_build_primary_template) s2 = (o1, s3)"
    by (metis prod.exhaust)
  note h3 = esys_answer_holds [OF h2 2]
  obtain ok' s4 where 3: "esys_call s3 = (ok', s4)" by (metis prod.exhaust)
  note h4 = esys_call_holds [OF h3 3]
  obtain o2 s5 where 4: "esys_answer 1 0 (TPM_Load tss (the o1) priv pub) s4 = (o2, s5)" by (metis prod.exhaust)
  note h5 = esys_answer_holds [OF h4 4]
  obtain ok'' s6 where 5: "esys_call s5 = (ok'', s6)" by (metis prod.exhaust)
  note h6 = esys_call_holds [OF h5 5]
  obtain o3 s7 where 6: "esys_answer 0 1 (TPM_Unseal tss (the o2)) s6 = (o3, s7)" by (metis prod.exhaust)
  note h7 = esys_answer_holds [OF h6 6]
  note d = unseal_object_def 1 2 3 4 5 6
  consider "\<not> ok" | "ok" "o1 = None" | p where "ok" "o1 = Some p" "\<not> ok'" | p where "ok" "o1 = Some p" "ok'" "o2 = None"
    | p q where "ok" "o1 = Some p" "ok'" "o2 = Some q" "\<not> ok''" | p q where "ok" "o1 = Some p" "ok'" "o2 = Some q" "ok''" "o3 = None"
    | p q u where "ok" "o1 = Some p" "ok'" "o2 = Some q" "ok''" "o3 = Some u" by fastforce
  then show ?thesis
  proof cases
    case a: 1
    then show ?thesis using 1 fin [of False False None s2] h2 by (simp add: unseal_object_def eval_nat_numeral)
  next
    case a: 2
    then show ?thesis using 1 2 fin [of False False None s3] h3 by (simp add: unseal_object_def eval_nat_numeral)
  next
    case a: (3 p)
    then show ?thesis using 1 2 3 fin [of True False None s4] h4 by (simp add: unseal_object_def eval_nat_numeral)
  next
    case a: (4 p)
    then show ?thesis using 1 2 3 4 fin [of True False None s5] h5 by (simp add: unseal_object_def eval_nat_numeral)
  next
    case a: (5 p q)
    then show ?thesis using 1 2 3 4 5 fin [of True True None s6] h6 by (simp add: unseal_object_def eval_nat_numeral)
  next
    case a: (6 p q)
    then show ?thesis using 1 2 3 4 5 6 fin [of True True None s7] h7 by (simp add: unseal_object_def eval_nat_numeral)
  next
    case a: (7 p q u)
    then show ?thesis using 1 2 3 4 5 6 fin [of True True "Some u" s7] h7 by (simp add: unseal_object_def eval_nat_numeral)
  qed
qed

lemma unseal_secret_holds:
  assumes h: "tholds s 1 0 0 0 s1"
  obtains r s2 where "padlock_tpm_unseal_secret tss pp qp s1 = Some (r, s2)" "tholds s 1 0 0 0 s2"
proof -
  let ?w = "t_world s"
  have t: "tholds s 1 0 x y (s1\<lparr>t_world := w\<rparr>) = holds ?w x y w" for x y w
    using h by (simp add: tholds_def objects_held_def)
  have fin: "tholds s 1 0 0 0 (snd (unseal_done (None :: byte list option) f g False False None b (s1\<lparr>t_world := w\<rparr>)))"
    if "holds ?w ((if f = None then 0 else 1) + (if g = None then 0 else 1)) b w" for f g b w
    by (rule unseal_done_holds) (use that t in simp)
  obtain f w1 where 1: "fopen pp ''rb'' (t_world s1) = (f, w1)" by (metis prod.exhaust)
  obtain g w2 where 2: "fopen qp ''rb'' w1 = (g, w2)" by (metis prod.exhaust)
  have "holds ?w (if f = None then 0 else 1) 0 w1" using holds_fopen(1) [OF _ 1, of ?w 0 0] h by (auto simp: tholds_def objects_held_def split: if_splits)
  then have h2: "holds ?w ((if f = None then 0 else 1) + (if g = None then 0 else 1)) 0 w2"
    using holds_fopen(1) [OF _ 2, of ?w _ 0] by (cases f; cases g) auto
  obtain c1 w3 where 3: "calloc (sizeof_PUBLIC tss) w2 = (c1, w3)" by (metis prod.exhaust)
  note h3 = holds_alloc(1) [OF h2 3]
  obtain c2 w4 where 4: "calloc (sizeof_PRIVATE tss) w3 = (c2, w4)" by (metis prod.exhaust)
  note h4 = holds_alloc(1) [OF h3 4]
  consider "f = None \<or> g = None" | f' g' where "f = Some f'" "g = Some g'" "c1 = None \<or> c2 = None"
    | f' g' where "f = Some f'" "g = Some g'" "c1 \<noteq> None" "c2 \<noteq> None" by (cases f; cases g; blast)
  then show ?thesis
  proof cases
    case a: 1
    then have "padlock_tpm_unseal_secret tss pp qp s1 = Some (unseal_done None f g False False None 0 (s1\<lparr>t_world := w2\<rparr>))"
      by (auto simp: padlock_tpm_unseal_secret_def 1 2 split: option.splits)
    then show ?thesis using that fin [OF h2] by (metis prod.collapse)
  next
    case a: (2 f' g')
    let ?n = "(if c1 = None then 0 else 1) + (if c2 = None then 0 else 1) :: nat"
    have "padlock_tpm_unseal_secret tss pp qp s1 = Some (unseal_done None f g False False None ?n (s1\<lparr>t_world := w4\<rparr>))"
      using a by (simp add: padlock_tpm_unseal_secret_def 1 2 3 4)
    moreover have "holds ?w ((if f = None then 0 else 1) + (if g = None then 0 else 1)) ?n w4"
      using h4 a by (cases c1; cases c2) simp_all
    ultimately show ?thesis using that fin by (metis prod.collapse)
  next
    case a: (3 f' g')
    have h4': "holds ?w 2 2 w4" using h4 a by (simp add: numeral_2_eq_2)
    have fin': "tholds s 1 0 0 0 (snd (unseal_done (None :: byte list option) (Some x) (Some y) False False None 2 (s1\<lparr>t_world := w\<rparr>)))" if "holds ?w 2 2 w" for x y w
      using fin [of "Some x" "Some y" 2 w] that by (simp add: numeral_2_eq_2)
    obtain r f2 w5 where 5: "padlock_tpm_read_public_blob tss f' w4 = Some (r, f2, w5)" "holds ?w 2 2 w5"
      unfolding padlock_tpm_read_public_blob_def by (rule read_blob_holds [OF h4'])
    obtain r' g2 w6 where 6: "padlock_tpm_read_private_blob tss g' w5 = Some (r', g2, w6)" "holds ?w 2 2 w6"
      unfolding padlock_tpm_read_private_blob_def by (rule read_blob_holds [OF 5(2)])
    have run: "padlock_tpm_unseal_secret tss pp qp s1 =
      (case r of None \<Rightarrow> Some (unseal_done None (Some f2) (Some g') False False None 2 (s1\<lparr>t_world := w5\<rparr>))
       | Some pub \<Rightarrow> (case r' of None \<Rightarrow> Some (unseal_done None (Some f2) (Some g2) False False None 2 (s1\<lparr>t_world := w6\<rparr>))
         | Some priv \<Rightarrow> Some (unseal_object tss f2 g2 priv pub (s1\<lparr>t_world := w6\<rparr>))))"
    proof -
      from a obtain x1 x2 where "c1 = Some x1" "c2 = Some x2" by blast
      then show ?thesis using a 5(1) 6(1) by (cases r; cases r') (simp_all add: padlock_tpm_unseal_secret_def 1 2 3 4)
    qed
    have ob: "tholds s 1 0 0 0 (snd (unseal_object tss f2 g2 priv pub (s1\<lparr>t_world := w6\<rparr>)))" for priv pub
      by (rule unseal_object_holds) (use t 6(2) in simp)
    show ?thesis using that run fin' [OF 5(2)] fin' [OF 6(2)] ob by (cases r; cases r') (auto, (metis prod.collapse)+)
  qed
qed

lemma unseal_key_holds:
  assumes h: "tholds s 0 0 0 0 s1"
  obtains r s2 where "unseal_key tss pp qp s1 = Some (r, s2)" "tholds s 0 0 0 0 s2"
proof -
  obtain ok s2 where 1: "padlock_tpm_connect s1 = (ok, s2)" by (metis prod.exhaust)
  note h2 = connect_holds [OF h 1]
  show ?thesis
  proof (cases ok)
    case True
    then have h2': "tholds s 1 0 0 0 s2" using h2 by simp
    obtain r s3 where "padlock_tpm_unseal_secret tss pp qp s2 = Some (r, s3)" "tholds s 1 0 0 0 s3"
      by (rule unseal_secret_holds [OF h2'])
    then show ?thesis using that 1 True disconnect_holds [of s 0 0 0 s3] by (simp add: unseal_key_def)
  qed (use that 1 h2 in \<open>simp add: unseal_key_def\<close>)
qed

lemma tholds_leave [simp]: "tholds s c h p l (upd_world (leave name b) s1) = tholds s c h p l s1"
  by (simp add: tholds_def objects_held_def holds_def leave_def)

lemma seal_new_key_holds:
  assumes b: "marshal_bounded tss" and h: "tholds s 0 0 0 0 s1"
  obtains r s2 where "seal_new_key tss pp qp s1 = Some (r, s2)" "tholds s 0 0 0 0 s2"
proof -
  obtain r w2 where 1: "RAND_bytes 32 (t_world s1) = (r, w2)" by (metis prod.exhaust)
  have "holds (t_world s1) 0 0 w2"
    using 1 by (auto simp: RAND_bytes_def draw_def holds_def io_frame_def split: prod.splits bool.splits dest!: attempt_frame)
  then have h2: "tholds s 0 0 0 0 (s1\<lparr>t_world := w2\<rparr>)" using h by (simp add: tholds_def objects_held_def holds_def)
  show ?thesis
  proof (cases r)
    case None
    then show ?thesis using that 1 h2 by (simp add: seal_new_key_def)
  next
    case (Some k)
    then have k: "length k = 32" using 1 by (auto simp: RAND_bytes_def draw_def split: prod.splits bool.splits)
    obtain ok s3 where 2: "padlock_tpm_connect (s1\<lparr>t_world := w2\<rparr>) = (ok, s3)" by (metis prod.exhaust)
    note h3 = connect_holds [OF h2 2]
    show ?thesis
    proof (cases ok)
      case True
      then have h3': "tholds s 1 0 0 0 s3" using h3 by simp
      obtain rc s4 where "padlock_tpm_create_sealed_secret tss pp qp k s3 = Some (rc, s4)" "tholds s 1 0 0 0 s4"
        by (rule create_sealed_secret_holds [OF b h3' k])
      then show ?thesis using that 1 2 Some True k disconnect_holds [of s 0 0 0 s4] by (simp add: seal_new_key_def Let_def)
    qed (use that 1 2 Some h3 k in \<open>simp add: seal_new_key_def\<close>)
  qed
qed

lemma make_directory_holds: "holds w p l w1 \<Longrightarrow> make_directory path w1 = (ok, w2) \<Longrightarrow> holds w p l w2"
proof -
  assume h: "holds w p l w1" and m: "make_directory path w1 = (ok, w2)"
  obtain rc w3 where 1: "mkdir path mode_0700 w1 = (rc, w3)" by (metis prod.exhaust)
  have h3: "holds w p l w3" using h 1 by (auto simp: mkdir_def split: prod.splits bool.splits if_splits dest: holds_attempt)
  moreover have "holds w p l (snd (chmod path mode_0700 w3))"
    using h3 by (auto simp: chmod_def split: prod.splits bool.splits dest: holds_attempt)
  ultimately show ?thesis using m by (auto simp: make_directory_def 1 split: if_splits)
qed

lemma tree_loop_holds: "holds w p l w1 \<Longrightarrow> tree_loop path i w1 = (ok, w2) \<Longrightarrow> holds w p l w2"
proof (induction path i w1 rule: tree_loop.induct)
  case (1 copy cursor w1)
  show ?case
  proof (cases "cursor < length copy")
    case False
    then show ?thesis using "1.prems" by (simp add: tree_loop.simps [of copy])
  next
    case lt: True
    obtain b w3 where m: "make_directory (take cursor copy) w1 = (b, w3)" by (metis prod.exhaust)
    have h3: "holds w p l w3" using make_directory_holds [OF "1.prems"(1) m] .
    show ?thesis
      using "1.IH"(1) [OF lt] "1.IH"(2) [OF lt _ m [symmetric]] "1.prems" lt m h3
      by (cases "copy ! cursor = CHR ''/''"; cases b) (simp_all add: tree_loop.simps [of copy cursor])
  qed
qed

lemma ensure_directory_tree_holds: "ensure_directory_tree path w = (rc, w') \<Longrightarrow> holds w 0 0 w'"
  using holds_refl [of w]
  by (auto simp: ensure_directory_tree_def split: option.splits if_splits prod.splits bool.splits
      dest: tree_loop_holds make_directory_holds)

lemma access_ok_holds: "holds w p l w1 \<Longrightarrow> access_ok path w1 = (ok, w2) \<Longrightarrow> holds w p l w2"
  by (auto simp: access_ok_def split: prod.splits bool.splits if_splits dest: holds_attempt)

lemma ensure_sealed_key_holds:
  assumes b: "marshal_bounded tss"
  obtains r s' where "padlock_tpm_ensure_sealed_key tss s = Some (r, s')" "tholds s 0 0 0 0 s'"
proof (cases "padlock_tpm_paths (t_world s)")
  case None
  then show ?thesis using that by (simp add: padlock_tpm_ensure_sealed_key_def tholds_def objects_held_def holds_def)
next
  case (Some x)
  obtain d pp qp where x: "x = (d, pp, qp)" by (metis prod_cases3)
  obtain rc w1 where 1: "ensure_directory_tree (Some d) (t_world s) = (rc, w1)" by (metis prod.exhaust)
  note h1 = ensure_directory_tree_holds [OF 1]
  obtain a w2 where 2: "access_ok pp w1 = (a, w2)" by (metis prod.exhaust)
  note h2 = access_ok_holds [OF h1 2]
  obtain a' w3 where 3: "(if a then access_ok qp w2 else (False, w2)) = (a', w3)" by (metis prod.exhaust)
  have h3: "holds (t_world s) 0 0 w3" using h2 3 by (auto split: if_splits dest: access_ok_holds)
  then have t3: "tholds s 0 0 0 0 (s\<lparr>t_world := w3\<rparr>)" by (simp add: tholds_def objects_held_def)
  have t1: "tholds s 0 0 0 0 (s\<lparr>t_world := w1\<rparr>)" using h1 by (simp add: tholds_def objects_held_def)
  obtain r2 s2 where u: "unseal_key tss pp qp (s\<lparr>t_world := w3\<rparr>) = Some (r2, s2)" "tholds s 0 0 0 0 s2"
    by (rule unseal_key_holds [OF t3])
  obtain rc' s4 where c: "seal_new_key tss pp qp (s\<lparr>t_world := w3\<rparr>) = Some (rc', s4)" "tholds s 0 0 0 0 s4"
    by (rule seal_new_key_holds [OF b t3])
  obtain r5 s5 where v: "unseal_key tss pp qp s4 = Some (r5, s5)" "tholds s 0 0 0 0 s5"
    by (rule unseal_key_holds [OF c(2)])
  have "padlock_tpm_ensure_sealed_key tss s =
    (if rc \<noteq> 0 then Some (None, s\<lparr>t_world := w1\<rparr>) else if a' then Some (r2, s2) else if rc' \<noteq> 0 then Some (None, s4) else Some (r5, s5))"
    using Some 1 2 3 u(1) c(1) v(1) by (simp add: padlock_tpm_ensure_sealed_key_def x Let_def)
  then show ?thesis using that t1 u(2) c(2) v(2) by (auto split: if_splits)
qed


section \<open>Sealed and unsealed again\<close>

text \<open>
  What the key relies on from the library and the TPM: what was marshalled is unmarshalled, and an
  object created under a primary object is loaded and unsealed under it with the data it was given.
\<close>

definition tss_laws :: "('o, 'p) tss2 \<Rightarrow> bool" where
  "tss_laws tss \<longleftrightarrow> marshal_bounded tss \<and>
     (\<forall>b n bs. PUBLIC_Marshal tss b n = Some bs \<longrightarrow> bs \<noteq> [] \<and> PUBLIC_Unmarshal tss bs = Some (b, length bs)) \<and>
     (\<forall>b n bs. PRIVATE_Marshal tss b n = Some bs \<longrightarrow> bs \<noteq> [] \<and> PRIVATE_Unmarshal tss bs = Some (b, length bs)) \<and>
     (\<forall>p sens t priv pub. TPM_Create tss p sens t = Some (priv, pub) \<longrightarrow>
        (\<exists>x. TPM_Load tss p priv pub = Some x \<and> TPM_Unseal tss x = Some (sensitive_data sens)))"

abbreviation tpm_primary :: "('o, 'p) tss2 \<Rightarrow> 'o option" where
  "tpm_primary tss \<equiv> TPM_CreatePrimary tss \<lparr>userAuth = [], sensitive_data = []\<rparr> padlock_tpm_build_primary_template"

text \<open>The TPM does its part: a key of 32 bytes can be sealed and the blobs fit.\<close>

definition tpm_works :: "('o, 'p) tss2 \<Rightarrow> bool" where
  "tpm_works tss \<longleftrightarrow> (\<exists>p. tpm_primary tss = Some p \<and>
     (\<forall>key sens t. length key = 32 \<longrightarrow> padlock_tpm_build_seal_template key = Some (sens, t) \<longrightarrow>
        (\<exists>priv pub. TPM_Create tss p sens t = Some (priv, pub) \<and>
           PUBLIC_Marshal tss pub (sizeof_PUBLIC tss) \<noteq> None \<and> PRIVATE_Marshal tss priv (sizeof_PRIVATE tss) \<noteq> None)))"

text \<open>The two files hold blobs that unseal to the key.\<close>

definition sealed_in :: "('o, 'p) tss2 \<Rightarrow> byte list \<Rightarrow> byte list \<Rightarrow> byte list \<Rightarrow> bool" where
  "sealed_in tss pb qb key \<longleftrightarrow> pb \<noteq> [] \<and> length pb \<le> sizeof_PUBLIC tss \<and> qb \<noteq> [] \<and> length qb \<le> sizeof_PRIVATE tss \<and>
     (\<exists>p pub priv x d. tpm_primary tss = Some p \<and> PUBLIC_Unmarshal tss pb = Some (pub, length pb) \<and>
        PRIVATE_Unmarshal tss qb = Some (priv, length qb) \<and> TPM_Load tss p priv pub = Some x \<and>
        TPM_Unseal tss x = Some d \<and> 32 \<le> length d \<and> key = take 32 d)"

lemma file_data_live [simp]: "file_data (w\<lparr>w_live := n\<rparr>) = file_data w"
  by (simp add: file_data_def fun_eq_iff)

lemma read_blob_clean:
  assumes "w_faults w = []" "f_wbuf f = []" "d = file_data w (f_path f)" "d \<noteq> []" "length d \<le> n" "unmarshal d = Some (b, length d)"
  obtains f' w' where "padlock_tpm_read_blob f n unmarshal w = Some (Some b, f', w')" "file_frame w w'" "f_wbuf f' = []"
proof -
  have j: "length (junk w (length d)) = length d" by (simp add: junk_def)
  have "padlock_tpm_read_blob f n unmarshal w =
    Some (Some b, f\<lparr>f_pos := length d\<rparr>, free ''buffer'' (Some (replicate (length d) 0)) (w\<lparr>w_live := Suc (w_live w)\<rparr>))"
    using assms j by (simp add: padlock_tpm_read_blob_def fseeko_def fflush_def malloc_def fread_def Let_def assms(3) [symmetric] junk_def)
  then show ?thesis by (rule that) (simp_all add: assms(2) file_frame_def free_def)
qed

lemma write_blob_clean:
  assumes "w_faults w = []" "f_write f" "f_wbuf f = []" "marshal b n = Some bs" "length bs \<le> n"
  obtains w' where "padlock_tpm_write_blob f b n marshal w = Some (0, f\<lparr>f_wpos := f_pos f, f_wbuf := bs, f_pos := f_pos f + length bs\<rparr>, w')"
    "file_frame w w'"
proof -
  have "padlock_tpm_write_blob f b n marshal w = Some (0, f\<lparr>f_wpos := f_pos f, f_wbuf := bs, f_pos := f_pos f + length bs\<rparr>,
      free ''buffer'' (Some (replicate n 0)) (w\<lparr>w_live := Suc (w_live w)\<rparr>))"
    using assms by (simp add: padlock_tpm_write_blob_def calloc_def fwrite_def window_overlay_same)
  then show ?thesis by (rule that) (simp add: file_frame_def free_def)
qed

lemma connect_clean:
  "w_faults (t_world s) = [] \<Longrightarrow> padlock_tpm_connect s = (True, s\<lparr>t_tcti := Suc (t_tcti s), t_esys := Suc (t_esys s)\<rparr>)"
  by (simp add: padlock_tpm_connect_def esys_call_def Let_def)

lemma disconnect_world [simp]: "t_world (padlock_tpm_disconnect a b s) = t_world s"
  by (simp add: padlock_tpm_disconnect_def padlock_tpm_free_tcti_def)

lemma flush_clean:
  "w_faults (t_world s) = [] \<Longrightarrow> Esys_FlushContext True s = s\<lparr>t_handles := t_handles s - 1\<rparr>"
  "file_frame (t_world s) (t_world (Esys_FlushContext loaded s))"
proof -
  show "w_faults (t_world s) = [] \<Longrightarrow> Esys_FlushContext True s = s\<lparr>t_handles := t_handles s - 1\<rparr>"
    by (simp add: Esys_FlushContext_def esys_call_def)
  obtain ok w where "attempt (t_world s) = (ok, w)" by (metis prod.exhaust)
  with io_frame_file_frame [OF attempt_frame [OF this]] show "file_frame (t_world s) (t_world (Esys_FlushContext loaded s))"
    by (cases ok) (simp_all add: Esys_FlushContext_def esys_call_def)
qed

lemma unseal_done_frame:
  assumes "f_wbuf f = []" "f_wbuf g = []"
  shows "fst (unseal_done r (Some f) (Some g) p q u b s) = r"
    "file_frame (t_world s) (t_world (snd (unseal_done r (Some f) (Some g) p q u b s)))"
proof -
  let ?w = "snd (fclose g (snd (fclose f (t_world s))))" and ?s = "s\<lparr>t_world := snd (fclose g (snd (fclose f (t_world s))))\<rparr>"
  have "file_frame (t_world s) ?w" by (rule file_frame_trans [OF fclose_clean [OF assms(1)] fclose_clean [OF assms(2)]])
  then have "file_frame (t_world s) (t_world (Esys_FlushContext q (Esys_FlushContext p ?s)))"
    using flush_clean(2) [of ?s p] flush_clean(2) [of "Esys_FlushContext p ?s" q] by (auto intro: file_frame_trans)
  then show "file_frame (t_world s) (t_world (snd (unseal_done r (Some f) (Some g) p q u b s)))"
    by (auto simp: unseal_done_def Let_def Esys_Free_def file_frame_def free_def split: option.splits)
qed (simp add: unseal_done_def Let_def)

lemma unseal_secret_clean:
  assumes nf: "w_faults (t_world s) = []" and files: "w_files (t_world s) pp = Some pn" "w_files (t_world s) qp = Some qn"
    and sealed: "sealed_in tss (fn_data pn) (fn_data qn) key"
  obtains s' where "padlock_tpm_unseal_secret tss pp qp s = Some (Some key, s')" "file_frame (t_world s) (t_world s')"
proof -
  let ?w = "t_world s"
  obtain p pub priv x d where l: "tpm_primary tss = Some p" "PUBLIC_Unmarshal tss (fn_data pn) = Some (pub, length (fn_data pn))"
    "PRIVATE_Unmarshal tss (fn_data qn) = Some (priv, length (fn_data qn))" "TPM_Load tss p priv pub = Some x"
    "TPM_Unseal tss x = Some d" "32 \<le> length d" "key = take 32 d" using sealed by (auto simp: sealed_in_def)
  define w4 where "w4 = ?w\<lparr>w_open := Suc (Suc (w_open ?w)), w_live := Suc (Suc (w_live ?w))\<rparr>"
  have w4: "w_faults w4 = []" "file_data w4 pp = fn_data pn" "file_data w4 qp = fn_data qn" "file_frame ?w w4"
    using nf files by (simp_all add: w4_def file_data_def file_frame_def)
  have n: "fn_data pn \<noteq> []" "length (fn_data pn) \<le> sizeof_PUBLIC tss" "fn_data qn \<noteq> []" "length (fn_data qn) \<le> sizeof_PRIVATE tss"
    using sealed by (simp_all add: sealed_in_def)
  obtain f w5 where 5: "padlock_tpm_read_public_blob tss (stream pp False) w4 = Some (Some pub, f, w5)" "file_frame w4 w5" "f_wbuf f = []"
    unfolding padlock_tpm_read_public_blob_def
    by (rule read_blob_clean [OF w4(1) _ HOL.refl, of "stream pp False" "sizeof_PUBLIC tss" "PUBLIC_Unmarshal tss" pub])
      (use w4(2) n l(2) in simp_all)
  have w5: "w_faults w5 = []" "file_data w5 qp = fn_data qn"
    using file_frame_no_faults [OF 5(2) w4(1)] file_frame_data [OF 5(2)] w4(3) by simp_all
  obtain g w6 where 6: "padlock_tpm_read_private_blob tss (stream qp False) w5 = Some (Some priv, g, w6)" "file_frame w5 w6" "f_wbuf g = []"
    unfolding padlock_tpm_read_private_blob_def
    by (rule read_blob_clean [OF w5(1) _ HOL.refl, of "stream qp False" "sizeof_PRIVATE tss" "PRIVATE_Unmarshal tss" priv])
      (use w5(2) n l(3) in simp_all)
  have w6: "w_faults w6 = []" by (rule file_frame_no_faults [OF 6(2) w5(1)])
  have f6: "file_frame ?w w6" using w4(4) 5(2) 6(2) by (blast intro: file_frame_trans)
  have run: "padlock_tpm_unseal_secret tss pp qp s = Some (unseal_object tss f g priv pub (s\<lparr>t_world := w6\<rparr>))"
    using nf files 5(1) 6(1) by (simp add: padlock_tpm_unseal_secret_def fopen_def calloc_def w4_def)
  have "\<exists>s7. unseal_object tss f g priv pub (s\<lparr>t_world := w6\<rparr>) = unseal_done (Some key) (Some f) (Some g) True True (Some d) 2 s7 \<and>
      file_frame ?w (t_world s7)"
    using l w6 f6
    by (intro exI [of _ "s\<lparr>t_handles := Suc (Suc (t_handles s)), t_world := w6\<lparr>w_live := 5 + w_live w6\<rparr>\<rparr>"])
      (simp add: unseal_object_def esys_call_def esys_answer_def file_frame_def)
  then obtain s7 where "unseal_object tss f g priv pub (s\<lparr>t_world := w6\<rparr>) = unseal_done (Some key) (Some f) (Some g) True True (Some d) 2 s7"
    "file_frame ?w (t_world s7)" by blast
  then show ?thesis
    using that run unseal_done_frame [OF 5(3) 6(3), where r = "Some key" and p = True and q = True and u = "Some d" and b = 2 and s = s7]
      file_frame_trans by (metis prod.collapse)
qed

lemma unseal_key_clean:
  assumes nf: "w_faults (t_world s) = []" and files: "w_files (t_world s) pp = Some pn" "w_files (t_world s) qp = Some qn"
    and sealed: "sealed_in tss (fn_data pn) (fn_data qn) key"
  obtains s' where "unseal_key tss pp qp s = Some (Some key, s')" "file_frame (t_world s) (t_world s')"
proof -
  let ?s = "s\<lparr>t_tcti := Suc (t_tcti s), t_esys := Suc (t_esys s)\<rparr>"
  obtain s' where "padlock_tpm_unseal_secret tss pp qp ?s = Some (Some key, s')" "file_frame (t_world s) (t_world s')"
    by (rule unseal_secret_clean [of ?s pp pn qp qn tss key]) (use assms in simp_all)
  then show ?thesis using that connect_clean [OF nf] by (simp add: unseal_key_def)
qed


text \<open>Writing the two blobs, without failing calls: the files hold them afterwards and nothing else changed.\<close>

definition blobs_in :: "string \<Rightarrow> string \<Rightarrow> byte list \<Rightarrow> byte list \<Rightarrow> world \<Rightarrow> world \<Rightarrow> bool" where
  "blobs_in pp qp pb qb w w' \<longleftrightarrow> w_faults w' = [] \<and> w_dirs w' = w_dirs w \<and> w_env w' = w_env w \<and> w_suffixes w' = w_suffixes w \<and>
     (\<exists>pn qn. w_files w' = (w_files w)(pp \<mapsto> pn, qp \<mapsto> qn) \<and> fn_data pn = pb \<and> fn_data qn = qb)"

lemma parent_exists_simps [simp]:
  "parent_exists p (w\<lparr>w_open := x\<rparr>) = parent_exists p w" "parent_exists p (w\<lparr>w_files := y\<rparr>) = parent_exists p w"
  "parent_exists p (w\<lparr>w_live := z\<rparr>) = parent_exists p w"
  by (simp_all add: parent_exists_def split: option.splits)

lemma fopen_wb_clean:
  assumes "w_faults w = []" "w_dirs w path = None" "parent_exists path w"
  obtains n where "fopen_wb path w = (Some (stream path True), w\<lparr>w_open := Suc (w_open w), w_files := (w_files w)(path \<mapsto> n)\<rparr>)" "fn_data n = []"
  using assms that [of "case w_files w path of None \<Rightarrow> \<lparr>fn_data = [], fn_mode = 420\<rparr> | Some n \<Rightarrow> n\<lparr>fn_data := []\<rparr>"]
  by (simp add: fopen_wb_def split: option.splits)

lemma fclose_pending:
  assumes "w_faults w = []" "w_files w path = Some n" "fn_data n = []"
  shows "fclose (stream path True\<lparr>f_wpos := 0, f_wbuf := bs, f_pos := k\<rparr>) w =
    (0, w\<lparr>w_files := (w_files w)(path \<mapsto> n\<lparr>fn_data := bs\<rparr>), w_open := w_open w - 1\<rparr>)"
  using assms by (cases "bs = []")
    (auto simp: fclose_def fflush_def put_file_def write_at_def fun_upd_idem stream_def intro: fun_upd_idem [symmetric])

lemma create_write_clean:
  assumes nf: "w_faults (t_world s) = []" and d: "w_dirs (t_world s) pp = None" "w_dirs (t_world s) qp = None"
    and par: "parent_exists pp (t_world s)" "parent_exists qp (t_world s)" and ne: "pp \<noteq> qp"
    and m: "PUBLIC_Marshal tss pub (sizeof_PUBLIC tss) = Some pb" "PRIVATE_Marshal tss priv (sizeof_PRIVATE tss) = Some qb"
    and b: "marshal_bounded tss"
  obtains s' where "create_write tss pp qp priv pub s = Some (0, s')" "blobs_in pp qp pb qb (t_world s) (t_world s')"
proof -
  let ?w = "t_world s"
  have len: "length pb \<le> sizeof_PUBLIC tss" "length qb \<le> sizeof_PRIVATE tss" using b m by (auto simp: marshal_bounded_def)
  obtain pn where 1: "fopen_wb pp ?w = (Some (stream pp True), ?w\<lparr>w_open := Suc (w_open ?w), w_files := (w_files ?w)(pp \<mapsto> pn)\<rparr>)" "fn_data pn = []"
    by (rule fopen_wb_clean [OF nf d(1) par(1)])
  let ?w1 = "?w\<lparr>w_open := Suc (w_open ?w), w_files := (w_files ?w)(pp \<mapsto> pn)\<rparr>"
  obtain qn where 2: "fopen_wb qp ?w1 = (Some (stream qp True), ?w1\<lparr>w_open := Suc (w_open ?w1), w_files := (w_files ?w1)(qp \<mapsto> qn)\<rparr>)" "fn_data qn = []"
    by (rule fopen_wb_clean [of ?w1 qp]) (use nf d(2) par(2) in simp_all)
  let ?w2 = "?w1\<lparr>w_open := Suc (w_open ?w1), w_files := (w_files ?w1)(qp \<mapsto> qn)\<rparr>"
  let ?f = "stream pp True\<lparr>f_wpos := 0, f_wbuf := pb, f_pos := length pb\<rparr>" and ?g = "stream qp True\<lparr>f_wpos := 0, f_wbuf := qb, f_pos := length qb\<rparr>"
  obtain w3 where 3: "padlock_tpm_write_public_blob tss (stream pp True) pub ?w2 = Some (0, ?f, w3)" "file_frame ?w2 w3"
    unfolding padlock_tpm_write_public_blob_def
    by (rule write_blob_clean [of ?w2 "stream pp True" "PUBLIC_Marshal tss" pub "sizeof_PUBLIC tss" pb]) (use nf m(1) len(1) in simp_all)
  have w3: "w_faults w3 = []" using file_frame_no_faults [OF 3(2)] nf by simp
  obtain w4 where 4: "padlock_tpm_write_private_blob tss (stream qp True) priv w3 = Some (0, ?g, w4)" "file_frame w3 w4"
    unfolding padlock_tpm_write_private_blob_def
    by (rule write_blob_clean [of w3 "stream qp True" "PRIVATE_Marshal tss" priv "sizeof_PRIVATE tss" qb]) (use w3 m(2) len(2) in simp_all)
  have w4: "w_faults w4 = []" "w_files w4 = (w_files ?w)(pp \<mapsto> pn, qp \<mapsto> qn)" "w_dirs w4 = w_dirs ?w" "w_env w4 = w_env ?w" "w_suffixes w4 = w_suffixes ?w"
    using file_frame_no_faults [OF 4(2) w3] 3(2) 4(2) by (simp_all add: file_frame_def)
  have c1: "fclose ?f w4 = (0, w4\<lparr>w_files := (w_files w4)(pp \<mapsto> pn\<lparr>fn_data := pb\<rparr>), w_open := w_open w4 - 1\<rparr>)"
    by (rule fclose_pending [OF w4(1) _ 1(2)]) (simp add: w4(2) ne)
  let ?w5 = "w4\<lparr>w_files := (w_files w4)(pp \<mapsto> pn\<lparr>fn_data := pb\<rparr>), w_open := w_open w4 - 1\<rparr>"
  have c2: "fclose ?g ?w5 = (0, ?w5\<lparr>w_files := (w_files ?w5)(qp \<mapsto> qn\<lparr>fn_data := qb\<rparr>), w_open := w_open ?w5 - 1\<rparr>)"
    by (rule fclose_pending [OF _ _ 2(2)]) (use ne in \<open>simp_all add: w4\<close>)
  let ?w6 = "?w5\<lparr>w_files := (w_files ?w5)(qp \<mapsto> qn\<lparr>fn_data := qb\<rparr>), w_open := w_open ?w5 - 1\<rparr>"
  have "w_files ?w6 = (w_files ?w)(pp \<mapsto> pn\<lparr>fn_data := pb\<rparr>, qp \<mapsto> qn\<lparr>fn_data := qb\<rparr>)"
    using ne by (auto simp: w4(2) fun_eq_iff)
  then have bl: "blobs_in pp qp pb qb ?w ?w6"
    unfolding blobs_in_def using w4(1,3,4,5)
    by (intro conjI exI [of _ "pn\<lparr>fn_data := pb\<rparr>"] exI [of _ "qn\<lparr>fn_data := qb\<rparr>"]) simp_all
  have run: "create_write tss pp qp priv pub s = Some (create_done 0 (Some ?f) (Some ?g) True 9 (s\<lparr>t_world := w4\<rparr>))"
    using 3(1) 4(1) by (simp add: create_write_def 1(1) 2(1))
  have "create_done 0 (Some ?f) (Some ?g) True 9 (s\<lparr>t_world := w4\<rparr>) =
      (0, s\<lparr>t_handles := t_handles s - 1, t_world := Esys_Free 9 ?w6\<rparr>)"
    unfolding create_done_def Let_def option.case using c1 c2 w4(1) by (simp add: flush_clean(1))
  with run that show ?thesis using bl by (simp add: blobs_in_def Esys_Free_def)
qed

lemma create_sealed_secret_clean:
  assumes nf: "w_faults (t_world s) = []" and d: "w_dirs (t_world s) pp = None" "w_dirs (t_world s) qp = None"
    and par: "parent_exists pp (t_world s)" "parent_exists qp (t_world s)" and ne: "pp \<noteq> qp"
    and laws: "tss_laws tss" "tpm_works tss" and key: "length key = 32"
  obtains s' pb qb where "padlock_tpm_create_sealed_secret tss pp qp key s = Some (0, s')"
    "blobs_in pp qp pb qb (t_world s) (t_world s')" "sealed_in tss pb qb key"
proof -
  obtain sens t where t: "padlock_tpm_build_seal_template key = Some (sens, t)" "sensitive_data sens = key"
    using key by (auto simp: padlock_tpm_build_seal_template_def window_def)
  obtain p priv pub pb qb where w: "tpm_primary tss = Some p" "TPM_Create tss p sens t = Some (priv, pub)"
    "PUBLIC_Marshal tss pub (sizeof_PUBLIC tss) = Some pb" "PRIVATE_Marshal tss priv (sizeof_PRIVATE tss) = Some qb"
    using laws(2) key t unfolding tpm_works_def by blast
  let ?s = "s\<lparr>t_handles := Suc (t_handles s), t_world := (t_world s)\<lparr>w_live := w_live (t_world s) + 9\<rparr>\<rparr>"
  obtain s' where s': "create_write tss pp qp priv pub ?s = Some (0, s')" "blobs_in pp qp pb qb (t_world ?s) (t_world s')"
    by (rule create_write_clean [of ?s pp qp tss pub pb priv qb])
      (use nf d par ne w(3,4) laws(1) in \<open>simp_all add: tss_laws_def\<close>)
  have "padlock_tpm_create_sealed_secret tss pp qp key s = Some (0, s')"
    using s'(1) w(1,2) t nf by (simp add: padlock_tpm_create_sealed_secret_def esys_call_def esys_answer_def Let_def add.commute)
  moreover have "blobs_in pp qp pb qb (t_world s) (t_world s')" using s'(2) by (simp add: blobs_in_def)
  moreover have "sealed_in tss pb qb key"
    using laws(1) w t(2) key unfolding sealed_in_def tss_laws_def marshal_bounded_def by (metis order_refl take_all_iff)
  ultimately show ?thesis by (rule that)
qed


section \<open>The key is kept\<close>

text \<open>
  The home directory is set and short enough, no file is in the way of the directories and no
  directory in the way of the two files.
\<close>

definition tpm_ready :: "world \<Rightarrow> string \<Rightarrow> string \<Rightarrow> string \<Rightarrow> bool" where
  "tpm_ready w d pp qp \<longleftrightarrow> padlock_tpm_paths w = Some (d, pp, qp) \<and>
     (\<forall>i. dir_prefix d i \<longrightarrow> w_files w (take i d) = None) \<and> w_dirs w pp = None \<and> w_dirs w qp = None"

lemma tpm_paths_shape:
  assumes "padlock_tpm_paths w = Some (d, pp, qp)"
  shows "pp = d @ ''/header-hmac.pub''" "qp = d @ ''/header-hmac.priv''" "d \<noteq> ''''" "length d < 4096"
proof -
  obtain h where h: "getenv ''HOME'' w = Some h" using assms by (auto simp: padlock_tpm_paths_def split: option.splits)
  show "pp = d @ ''/header-hmac.pub''" "qp = d @ ''/header-hmac.priv''" "d \<noteq> ''''" "length d < 4096"
    using assms h by (auto simp: padlock_tpm_paths_def snprintf_def split: if_splits)
qed


lemma before_last_slash_append: "CHR ''/'' \<notin> set b \<Longrightarrow> before_last_slash (a @ CHR ''/'' # b) = Some a"
proof -
  assume "CHR ''/'' \<notin> set b"
  then have "dropWhile (\<lambda>c. c \<noteq> CHR ''/'') (rev b @ CHR ''/'' # rev a) = CHR ''/'' # rev a"
    by (subst dropWhile_append2) auto
  then show ?thesis by (simp add: before_last_slash_def)
qed

lemma ensure_sealed_key_cases:
  assumes nf: "w_faults (t_world s) = []" and ready: "tpm_ready (t_world s) d pp qp"
  obtains w where "tree_made (t_world s) d (Suc (length d)) w" "parent_exists pp w" "parent_exists qp w"
    "w_dirs w pp = None" "w_dirs w qp = None" "pp \<noteq> qp"
    "\<exists>e. padlock_tpm_ensure_sealed_key tss s =
      (if w_files w pp \<noteq> None \<and> w_files w qp \<noteq> None then unseal_key tss pp qp (s\<lparr>t_world := w\<rparr>)
       else do {
         (rc, s) \<leftarrow> seal_new_key tss pp qp (s\<lparr>t_world := set_errno e w\<rparr>);
         if rc \<noteq> 0 then Some (None, s) else unseal_key tss pp qp s
       })"
proof -
  note paths = tpm_paths_shape [of "t_world s" d pp qp]
  have p: "padlock_tpm_paths (t_world s) = Some (d, pp, qp)" using ready by (simp add: tpm_ready_def)
  note sh = paths [OF p]
  obtain w where w: "ensure_directory_tree (Some d) (t_world s) = (0, w)" "tree_made (t_world s) d (Suc (length d)) w"
    by (rule ensure_tree [OF nf, of d]) (use sh ready in \<open>auto simp: tpm_ready_def\<close>)
  have dirs: "w_dirs w q = (if \<exists>i. dir_prefix d i \<and> q = take i d then Some mode_0700 else w_dirs (t_world s) q)" for q
    using w(2) dir_prefix_bound [of d q] by (simp add: tree_made_def)
  have long: "\<not> (\<exists>i. dir_prefix d i \<and> d @ c # x = take i d)" for c x
  proof
    assume "\<exists>i. dir_prefix d i \<and> d @ c # x = take i d"
    then obtain i where "d @ c # x = take i d" by blast
    then have "length (d @ c # x) \<le> length d" by (metis length_take min.cobounded1)
    then show False by simp
  qed
  have no: "w_dirs w pp = None" "w_dirs w qp = None"
    using ready dirs [of pp] dirs [of qp] long by (auto simp: tpm_ready_def sh(1,2))
  have "w_dirs w d = Some mode_0700" using sh(3) by (subst dirs) (auto simp: dir_prefix_def intro!: exI [of _ "length d"])
  then have par: "parent_exists pp w" "parent_exists qp w"
    using before_last_slash_append [of "''header-hmac.pub''" d] before_last_slash_append [of "''header-hmac.priv''" d]
    by (simp_all add: parent_exists_def sh(1,2))
  have nf': "w_faults w = []" using w(2) by (simp add: tree_made_def)
  let ?rest = "\<lambda>w. do {
         (rc, s) \<leftarrow> seal_new_key tss pp qp (s\<lparr>t_world := w\<rparr>);
         if rc \<noteq> 0 then Some (None, s) else unseal_key tss pp qp s
       }"
  have "padlock_tpm_ensure_sealed_key tss s =
    (if w_files w pp \<noteq> None \<and> w_files w qp \<noteq> None then unseal_key tss pp qp (s\<lparr>t_world := w\<rparr>) else ?rest (set_errno ENOENT w))"
    using p w(1) nf' by (auto simp: padlock_tpm_ensure_sealed_key_def access_ok_def Let_def)
  then show ?thesis using that [OF w(2) par no] sh(1,2) by blast
qed


lemma ensure_kept:
  assumes nf: "w_faults (t_world s) = []" and ready: "tpm_ready (t_world s) d pp qp"
    and files: "w_files (t_world s) pp = Some pn" "w_files (t_world s) qp = Some qn" and sealed: "sealed_in tss (fn_data pn) (fn_data qn) key"
  obtains s' where "padlock_tpm_ensure_sealed_key tss s = Some (Some key, s')" "w_files (t_world s') = w_files (t_world s)"
    "w_faults (t_world s') = []" "tpm_ready (t_world s') d pp qp"
proof -
  obtain w e where w: "tree_made (t_world s) d (Suc (length d)) w" "w_dirs w pp = None" "w_dirs w qp = None"
    and run: "padlock_tpm_ensure_sealed_key tss s =
      (if w_files w pp \<noteq> None \<and> w_files w qp \<noteq> None then unseal_key tss pp qp (s\<lparr>t_world := w\<rparr>)
       else do {
         (rc, s) \<leftarrow> seal_new_key tss pp qp (s\<lparr>t_world := set_errno e w\<rparr>);
         if rc \<noteq> 0 then Some (None, s) else unseal_key tss pp qp s
       })"
    by (rule ensure_sealed_key_cases [OF nf ready, of tss]) blast
  have f: "w_files w = w_files (t_world s)" "w_faults w = []" "w_env w = w_env (t_world s)" using w(1) by (simp_all add: tree_made_def)
  obtain s' where "unseal_key tss pp qp (s\<lparr>t_world := w\<rparr>) = Some (Some key, s')" "file_frame w (t_world s')"
    by (rule unseal_key_clean [of "s\<lparr>t_world := w\<rparr>" pp pn qp qn tss key]) (use f files sealed in simp_all)
  then show ?thesis using that run f files w(2,3) ready
    by (simp add: file_frame_def tpm_ready_def padlock_tpm_paths_def getenv_def)
qed

lemma ensure_fresh:
  assumes laws: "tss_laws tss" "tpm_works tss" and nf: "w_faults (t_world s) = []" and ready: "tpm_ready (t_world s) d pp qp"
    and missing: "w_files (t_world s) pp = None \<or> w_files (t_world s) qp = None"
    and key: "key = map (\<lambda>i. w_rand (t_world s) (w_rpos (t_world s) + i)) [0..<32]"
  obtains s' pn qn where "padlock_tpm_ensure_sealed_key tss s = Some (Some key, s')" "w_faults (t_world s') = []"
    "w_files (t_world s') = (w_files (t_world s))(pp \<mapsto> pn, qp \<mapsto> qn)" "sealed_in tss (fn_data pn) (fn_data qn) key"
    "w_env (t_world s') = w_env (t_world s)" "pp \<noteq> qp" "w_dirs (t_world s') pp = None" "w_dirs (t_world s') qp = None"
    "w_suffixes (t_world s') = w_suffixes (t_world s)"
    "\<And>q. w_dirs (t_world s') q = (if \<exists>i. dir_prefix d i \<and> q = take i d then Some mode_0700 else w_dirs (t_world s) q)"
proof -
  obtain w e where w: "tree_made (t_world s) d (Suc (length d)) w"
    and p: "parent_exists pp w" "parent_exists qp w" "w_dirs w pp = None" "w_dirs w qp = None" "pp \<noteq> qp"
    and run: "padlock_tpm_ensure_sealed_key tss s =
      (if w_files w pp \<noteq> None \<and> w_files w qp \<noteq> None then unseal_key tss pp qp (s\<lparr>t_world := w\<rparr>)
       else do {
         (rc, s) \<leftarrow> seal_new_key tss pp qp (s\<lparr>t_world := set_errno e w\<rparr>);
         if rc \<noteq> 0 then Some (None, s) else unseal_key tss pp qp s
       })"
    by (rule ensure_sealed_key_cases [OF nf ready, of tss]) blast
  have f: "w_files w = w_files (t_world s)" "w_faults w = []" "w_rand w = w_rand (t_world s)" "w_rpos w = w_rpos (t_world s)"
    "w_env w = w_env (t_world s)" "w_suffixes w = w_suffixes (t_world s)" using w by (simp_all add: tree_made_def)
  have dirs: "w_dirs w q = (if \<exists>i. dir_prefix d i \<and> q = take i d then Some mode_0700 else w_dirs (t_world s) q)" for q
    using w dir_prefix_bound [of d q] by (simp add: tree_made_def)
  have len: "length key = 32" using key by simp
  define w1 where "w1 = w\<lparr>w_errno := e, w_rpos := w_rpos w + 32\<rparr>"
  let ?s = "s\<lparr>t_world := w1, t_tcti := Suc (t_tcti s), t_esys := Suc (t_esys s)\<rparr>"
  have w1: "w_faults w1 = []" "w_dirs w1 = w_dirs w" "w_files w1 = w_files w" "w_env w1 = w_env w" "w_suffixes w1 = w_suffixes w" using f by (simp_all add: w1_def)
  have par: "parent_exists pp w1" "parent_exists qp w1" using p by (simp_all add: parent_exists_def w1_def split: option.splits)
  obtain s' pb qb where c: "padlock_tpm_create_sealed_secret tss pp qp key ?s = Some (0, s')"
    "blobs_in pp qp pb qb (t_world ?s) (t_world s')" "sealed_in tss pb qb key"
    by (rule create_sealed_secret_clean [of ?s pp qp tss key]) (use w1 par p laws len in simp_all)
  let ?s2 = "upd_world (leave ''random_key'' (replicate 32 0)) (padlock_tpm_disconnect True True s')"
  have "RAND_bytes 32 (set_errno e w) = (Some key, w1)" using f key by (simp add: RAND_bytes_def draw_def w1_def)
  then have seal: "seal_new_key tss pp qp (s\<lparr>t_world := set_errno e w\<rparr>) = Some (0, ?s2)"
    using c(1) len w1(1) connect_clean [of "s\<lparr>t_world := w1\<rparr>"] by (simp add: seal_new_key_def Let_def)
  obtain pn qn where n: "w_files (t_world s') = (w_files w1)(pp \<mapsto> pn, qp \<mapsto> qn)" "fn_data pn = pb" "fn_data qn = qb"
    and b: "w_faults (t_world s') = []" "w_dirs (t_world s') = w_dirs w1" "w_env (t_world s') = w_env w1" "w_suffixes (t_world s') = w_suffixes w1"
    using c(2) by (auto simp: blobs_in_def)
  obtain s3 where u: "unseal_key tss pp qp ?s2 = Some (Some key, s3)" "file_frame (t_world ?s2) (t_world s3)"
    by (rule unseal_key_clean [of ?s2 pp pn qp qn tss key]) (use n b c(3) p(5) in \<open>simp_all add: leave_def\<close>)
  have fin: "w_files (t_world s3) = w_files (t_world s')" "w_dirs (t_world s3) = w_dirs (t_world s')" "w_env (t_world s3) = w_env (t_world s')"
    "w_faults (t_world s3) = []" "w_suffixes (t_world s3) = w_suffixes (t_world s')" using u(2) b by (simp_all add: file_frame_def leave_def)
  show ?thesis
    by (rule that [of s3 pn qn]) (use run seal u(1) missing f n c(3) b w1 p fin dirs in auto)
qed

section \<open>Hexadecimal digits\<close>

definition hex :: "byte list \<Rightarrow> string" where
  "hex bs = concat (map (\<lambda>b. [hex_digit (drop_bit 4 b AND 0x0f), hex_digit (b AND 0x0f)]) bs)"

lemma hex_simps [simp]: "hex [] = []" "hex (b # bs) = hex_digit (drop_bit 4 b AND 0x0f) # hex_digit (b AND 0x0f) # hex bs" "length (hex bs) = 2 * length bs"
  by (simp_all add: hex_def length_concat comp_def sum_list_triv)

lemma hex_append [simp]: "hex (a @ b) = hex a @ hex b"
  by (simp add: hex_def)

lemma hex_loop_spec:
  "i + k \<le> length d \<Longrightarrow> 2 * (i + k) \<le> length out \<Longrightarrow>
     hex_loop d k i out = Some (overlay out (2 * i) (hex (window d i k)))"
proof (induction k arbitrary: i out)
  case 0
  then show ?case by (simp add: overlay_def)
next
  case (Suc k)
  let ?b = "d ! i"
  let ?hi = "hex_digit (drop_bit 4 ?b AND 0x0f)" and ?lo = "hex_digit (?b AND 0x0f)"
  let ?out = "overlay (overlay out (2 * i) [?hi]) (2 * i + 1) [?lo]"
  have i: "i < length d" "2 * i + 1 < length out" using Suc.prems by auto
  have w: "window d i (Suc 0) = [?b]" using i(1) by (simp add: window_def take_Suc_conv_app_nth hd_drop_conv_nth Cons_nth_drop_Suc [symmetric])
  have two: "?out = overlay out (2 * i) [?hi, ?lo]"
    using i(2) by (intro nth_equalityI) (auto simp: nth_overlay)
  have "window d i (Suc k) = ?b # window d (Suc i) k" using i(1) by (simp add: window_def Cons_nth_drop_Suc [symmetric])
  then have h: "hex (window d i (Suc k)) = [?hi, ?lo] @ hex (window d (Suc i) k)" by simp
  have "hex_loop d (Suc k) i out = hex_loop d k (Suc i) ?out"
    using i w by (simp add: mult.commute)
  also have "\<dots> = Some (overlay ?out (2 * Suc i) (hex (window d (Suc i) k)))"
    by (rule Suc.IH) (use Suc.prems in auto)
  also have "overlay ?out (2 * Suc i) (hex (window d (Suc i) k)) = overlay out (2 * i) (hex (window d i (Suc k)))"
    unfolding two h using Suc.prems by (auto simp: overlay_def min_def add.commute)
  finally show ?case .
qed

lemma hex_digit_inject: "unat (a :: byte) < 16 \<Longrightarrow> unat b < 16 \<Longrightarrow> hex_digit a = hex_digit b \<Longrightarrow> a = b"
proof -
  assume "unat a < 16" "unat b < 16" "hex_digit a = hex_digit b"
  moreover have "distinct ''0123456789abcdef''" by simp
  ultimately have "unat a = unat b" by (simp add: hex_digit_def nth_eq_iff_index_eq)
  then show "a = b" by (simp add: word_unat_eq_iff)
qed

lemma nibbles: "drop_bit 4 (a :: byte) AND 0x0f = drop_bit 4 b AND 0x0f \<Longrightarrow> a AND 0x0f = b AND 0x0f \<Longrightarrow> a = b"
proof (rule bit_eqI)
  fix n assume h: "drop_bit 4 a AND 0x0f = drop_bit 4 b AND 0x0f" "a AND 0x0f = b AND 0x0f"
  have m: "(0x0f :: byte) = mask 4" by (simp add: mask_eq_exp_minus_1)
  show "bit a n = bit b n"
  proof (cases "n < 4")
    case True
    then show ?thesis using arg_cong [OF h(2), of "\<lambda>x. bit x n"] by (simp add: m bit_simps)
  next
    case False
    then show ?thesis
      using arg_cong [OF h(1), of "\<lambda>x. bit x (n - 4)"] bit_imp_le_length [of a n] bit_imp_le_length [of b n]
      by (auto simp: m bit_simps)
  qed
qed

lemma unat_and_15: "unat (x AND 0x0f :: byte) < 16"
proof -
  have "x AND 0x0f \<le> (0x0f :: byte)" by (rule word_and_le1)
  then have "unat (x AND 0x0f) \<le> unat (0x0f :: byte)" unfolding word_le_nat_alt .
  then show ?thesis by simp
qed

lemma hex_inject: "length a = length b \<Longrightarrow> hex a = hex b \<longleftrightarrow> a = b"
proof (induction a b rule: list_induct2)
  case (Cons x xs y ys)
  then show ?case
    using hex_digit_inject [OF unat_and_15 unat_and_15] nibbles [of x y] by auto
qed simp

end
