(* ===== verification/Padlock_Key_Theorems.thy ===== *)
theory Padlock_Key_Theorems
  imports Padlock_Seal Padlock_Sample
begin

text \<open>
  The properties of the sealed key and of the header password derived from it, applied to a small
  TPM whose objects are the sealed data itself.
\<close>

section \<open>A sample TPM\<close>

definition seal_template :: TPM2B_PUBLIC where
  "seal_template = snd (the (padlock_tpm_build_seal_template (replicate 32 0)))"

definition sample_tss :: "(byte list, byte list) tss2" where
  "sample_tss = \<lparr>sizeof_PUBLIC = 100, sizeof_PRIVATE = 100,
     PUBLIC_Marshal = (\<lambda>b n. if b = seal_template \<and> 1 \<le> n then Some [1] else None),
     PRIVATE_Marshal = (\<lambda>d n. if d \<noteq> [] \<and> length d \<le> n then Some d else None),
     PUBLIC_Unmarshal = (\<lambda>bs. if bs = [1] then Some (seal_template, 1) else None),
     PRIVATE_Unmarshal = (\<lambda>bs. Some (bs, length bs)),
     TPM_CreatePrimary = (\<lambda>_ _. Some []),
     TPM_Create = (\<lambda>_ sens t. if t = seal_template then Some (sensitive_data sens, t) else None),
     TPM_Load = (\<lambda>_ priv _. Some priv), TPM_Unseal = Some\<rparr>"

definition sample_tworld :: tworld where
  "sample_tworld = \<lparr>t_tcti = 0, t_esys = 0, t_handles = 0, t_unflushed = 0, t_world = home_world\<rparr>"

abbreviation "sample_dir \<equiv> ''/h/.padlock/tpm''"
abbreviation "sample_pub \<equiv> ''/h/.padlock/tpm/header-hmac.pub''"
abbreviation "sample_priv \<equiv> ''/h/.padlock/tpm/header-hmac.priv''"

lemma sample_bounded: "marshal_bounded sample_tss"
  by (simp add: marshal_bounded_def sample_tss_def)

lemma sample_tss_laws: "tss_laws sample_tss"
  using sample_bounded by (auto simp: tss_laws_def sample_tss_def)

lemma sample_works: "tpm_works sample_tss"
  by (auto simp: tpm_works_def sample_tss_def padlock_tpm_build_seal_template_def seal_template_def window_def)

lemma sample_ready:
  "w_faults (t_world sample_tworld) = []" "tpm_ready (t_world sample_tworld) sample_dir sample_pub sample_priv"
  "w_files (t_world sample_tworld) p = None"
  by (simp_all add: sample_tworld_def home_world_def tpm_ready_def padlock_tpm_paths_def snprintf_def getenv_def)

section \<open>The key\<close>

text \<open>
  C16: the sealed key is made once and kept: with a working TPM and without failing calls, the first
  \<open>padlock_tpm_ensure_sealed_key\<close> returns the next 32 bytes of the random source, and every later call on
  the same files returns the same key and leaves the files alone.
\<close>

theorem sealed_key_stable:
  assumes "tss_laws tss" "tpm_works tss" "w_faults (t_world s) = []" "tpm_ready (t_world s) d pp qp"
    and "w_files (t_world s) pp = None \<or> w_files (t_world s) qp = None"
  shows "\<exists>key s1. padlock_tpm_ensure_sealed_key tss s = Some (Some key, s1) \<and>
    key = map (\<lambda>i. w_rand (t_world s) (w_rpos (t_world s) + i)) [0..<32] \<and>
    (\<forall>s2. w_faults (t_world s2) = [] \<and> w_files (t_world s2) = w_files (t_world s1) \<and>
        tpm_ready (t_world s2) d pp qp \<longrightarrow>
      (\<exists>s3. padlock_tpm_ensure_sealed_key tss s2 = Some (Some key, s3) \<and> w_files (t_world s3) = w_files (t_world s2)))"
proof -
  let ?key = "map (\<lambda>i. w_rand (t_world s) (w_rpos (t_world s) + i)) [0..<32]"
  obtain s1 pn qn where s1: "padlock_tpm_ensure_sealed_key tss s = Some (Some ?key, s1)"
    "w_files (t_world s1) = (w_files (t_world s))(pp \<mapsto> pn, qp \<mapsto> qn)" "sealed_in tss (fn_data pn) (fn_data qn) ?key" "pp \<noteq> qp"
    by (rule ensure_fresh [OF assms HOL.refl]) (rule that)
  have "\<exists>s3. padlock_tpm_ensure_sealed_key tss s2 = Some (Some ?key, s3) \<and> w_files (t_world s3) = w_files (t_world s2)"
    if "w_faults (t_world s2) = []" "w_files (t_world s2) = w_files (t_world s1)" "tpm_ready (t_world s2) d pp qp" for s2
  proof -
    have f: "w_files (t_world s2) pp = Some pn" "w_files (t_world s2) qp = Some qn" using that(2) s1(2,4) by simp_all
    show ?thesis by (rule ensure_kept [OF that(1,3) f s1(3)]) blast
  qed
  then show ?thesis using s1(1) by blast
qed

theorem sealed_key_stable_witness:
  "\<exists>s1. padlock_tpm_ensure_sealed_key sample_tss sample_tworld = Some (Some (replicate 32 0), s1)"
  using sealed_key_stable [OF sample_tss_laws sample_works sample_ready(1,2)] sample_ready(3)
  by (auto simp: sample_tworld_def home_world_def map_replicate_const)

text \<open>
  C17: whatever call fails, \<open>padlock_tpm_ensure_sealed_key\<close> returns without undefined behaviour, closes every
  stream, frees every block and closes every context it opened, and calls \<open>Esys_FlushContext\<close> on every object
  it loaded: the objects left in the TPM are exactly those for which that call itself failed, and none
  if no call fails.
\<close>

theorem key_functions_release:
  assumes "marshal_bounded tss"
  shows "\<exists>r s'. padlock_tpm_ensure_sealed_key tss s = Some (r, s') \<and> t_tcti s' = t_tcti s \<and> t_esys s' = t_esys s \<and>
    w_open (t_world s') = w_open (t_world s) \<and> w_live (t_world s') = w_live (t_world s) \<and>
    t_unflushed s \<le> t_unflushed s' \<and> t_handles s' = t_handles s + (t_unflushed s' - t_unflushed s) \<and>
    (w_faults (t_world s) = [] \<longrightarrow> t_handles s' = t_handles s)"
proof -
  obtain r s' where "padlock_tpm_ensure_sealed_key tss s = Some (r, s')" "tholds s 0 0 0 0 s'"
    by (rule ensure_sealed_key_holds [OF assms])
  then show ?thesis by (simp add: tholds_def holds_def objects_held_def)
qed

theorem key_functions_release_witness:
  "\<exists>r s'. padlock_tpm_ensure_sealed_key sample_tss (upd_world (\<lambda>w. w\<lparr>w_faults := replicate 13 Pass @ [Fail EIO]\<rparr>) sample_tworld) = Some (r, s') \<and>
    t_handles s' = t_unflushed s' \<and> w_open (t_world s') = 0 \<and> w_live (t_world s') = 0"
  using key_functions_release [OF sample_bounded, of "upd_world (\<lambda>w. w\<lparr>w_faults := replicate 13 Pass @ [Fail EIO]\<rparr>) sample_tworld"]
  by (auto simp: sample_tworld_def home_world_def)

lemma read_empty_blob:
  assumes "w_faults w = []" "f_wbuf f = []" "file_data w (f_path f) = []"
  shows "padlock_tpm_read_blob f n unmarshal w = Some (None, f\<lparr>f_pos := 0\<rparr>, w)"
  using assms by (simp add: padlock_tpm_read_blob_def fseeko_def fflush_def)

lemma unseal_empty:
  assumes "w_faults (t_world s) = []" "w_files (t_world s) pp = Some pn" "w_files (t_world s) qp = Some qn" "fn_data pn = []"
  shows "\<exists>s'. padlock_tpm_unseal_secret tss pp qp s = Some (None, s') \<and> w_files (t_world s') = w_files (t_world s)"
proof -
  let ?w = "(t_world s)\<lparr>w_open := Suc (Suc (w_open (t_world s))), w_live := Suc (Suc (w_live (t_world s)))\<rparr>"
  let ?f = "stream pp False\<lparr>f_pos := 0\<rparr>" and ?g = "stream qp False"
  have "padlock_tpm_read_public_blob tss (stream pp False) ?w = Some (None, ?f, ?w)"
    unfolding padlock_tpm_read_public_blob_def by (rule read_empty_blob) (use assms in \<open>simp_all add: file_data_def\<close>)
  then have run: "padlock_tpm_unseal_secret tss pp qp s = Some (unseal_done None (Some ?f) (Some ?g) False False None 2 (s\<lparr>t_world := ?w\<rparr>))"
    using assms by (simp add: padlock_tpm_unseal_secret_def fopen_def calloc_def)
  have c: "f_wbuf ?f = []" "f_wbuf ?g = []" by simp_all
  let ?d = "unseal_done (None :: byte list option) (Some ?f) (Some ?g) False False None 2 (s\<lparr>t_world := ?w\<rparr>)"
  have "fst ?d = None" "w_files (t_world (snd ?d)) = w_files (t_world s)"
    using unseal_done_frame [OF c, where r = "None :: byte list option" and p = False and q = False and u = None and b = 2
      and s = "s\<lparr>t_world := ?w\<rparr>"] by (simp_all add: file_frame_def)
  then have "?d = (None, snd ?d)" by (metis prod.collapse)
  with run \<open>w_files (t_world (snd ?d)) = w_files (t_world s)\<close> show ?thesis by metis
qed

text \<open>
  C36: an empty blob is never repaired: when both files exist and the public one is empty, as after a
  write that was lost, every call fails and leaves the files as they are, since only a missing file
  leads to a new key.
\<close>

theorem empty_blob_is_permanent:
  assumes "w_faults (t_world s) = []" "tpm_ready (t_world s) d pp qp"
    and "w_files (t_world s) pp = Some pn" "fn_data pn = []" "w_files (t_world s) qp = Some qn"
  shows "\<exists>s'. padlock_tpm_ensure_sealed_key tss s = Some (None, s') \<and> w_files (t_world s') = w_files (t_world s)"
proof -
  obtain w e where w: "tree_made (t_world s) d (Suc (length d)) w"
    and run: "padlock_tpm_ensure_sealed_key tss s =
      (if w_files w pp \<noteq> None \<and> w_files w qp \<noteq> None then unseal_key tss pp qp (s\<lparr>t_world := w\<rparr>)
       else do {
         (rc, s) \<leftarrow> seal_new_key tss pp qp (s\<lparr>t_world := set_errno e w\<rparr>);
         if rc \<noteq> 0 then Some (None, s) else unseal_key tss pp qp s
       })"
    by (rule ensure_sealed_key_cases [OF assms(1,2), of tss]) blast
  have f: "w_files w = w_files (t_world s)" "w_faults w = []" using w by (simp_all add: tree_made_def)
  let ?s = "s\<lparr>t_world := w\<rparr>" let ?c = "?s\<lparr>t_tcti := Suc (t_tcti s), t_esys := Suc (t_esys s)\<rparr>"
  obtain s' where "padlock_tpm_unseal_secret tss pp qp ?c = Some (None, s')" "w_files (t_world s') = w_files w"
    using unseal_empty [of ?c pp pn qp qn tss] f assms by auto
  then show ?thesis using run f assms connect_clean [of ?s] by (simp add: unseal_key_def)
qed

theorem empty_blob_is_permanent_witness:
  "\<exists>s'. padlock_tpm_ensure_sealed_key sample_tss (upd_world (\<lambda>w. w\<lparr>w_files :=
      [sample_pub \<mapsto> \<lparr>fn_data = [], fn_mode = 420\<rparr>, sample_priv \<mapsto> \<lparr>fn_data = [], fn_mode = 420\<rparr>]\<rparr>) sample_tworld) = Some (None, s')"
proof -
  let ?s = "upd_world (\<lambda>w. w\<lparr>w_files :=
      [sample_pub \<mapsto> \<lparr>fn_data = [], fn_mode = 420\<rparr>, sample_priv \<mapsto> \<lparr>fn_data = [], fn_mode = 420\<rparr>]\<rparr>) sample_tworld"
  have paths: "padlock_tpm_paths (t_world ?s) = Some (sample_dir, sample_pub, sample_priv)"
    by (simp add: sample_tworld_def home_world_def padlock_tpm_paths_def snprintf_def getenv_def)
  have no: "w_files (t_world ?s) (take i sample_dir) = None" if "dir_prefix sample_dir i" for i
  proof -
    have "length (take i sample_dir) < length sample_pub" "length (take i sample_dir) < length sample_priv"
      using that by (auto simp: dir_prefix_def)
    then have "take i sample_dir \<noteq> sample_pub" "take i sample_dir \<noteq> sample_priv" by (metis less_irrefl)+
    then show ?thesis by simp
  qed
  have "tpm_ready (t_world ?s) sample_dir sample_pub sample_priv"
    using paths no by (simp add: tpm_ready_def sample_tworld_def home_world_def)
  then show ?thesis
    using empty_blob_is_permanent [of ?s sample_dir sample_pub sample_priv "\<lparr>fn_data = [], fn_mode = 420\<rparr>" "\<lparr>fn_data = [], fn_mode = 420\<rparr>" sample_tss]
    by (auto simp: sample_tworld_def home_world_def)
qed

section \<open>The header password\<close>

lemma derive_password_spec:
  assumes key: "padlock_tpm_ensure_sealed_key tss s = Some (Some key, s1)" "length key = 32"
    and md: "HMAC_sha256 ssl key (bytes text) = Some md" "length md = 32"
    and args: "text \<noteq> ''''" "65 \<le> n" "n \<le> length out"
  shows "derive_password ssl tss (Some text) (Some out) n s =
    Some (0, Some (hex md @ CHR 0x00 # drop 65 out),
      upd_world (\<lambda>w. leave ''hmac_key'' (replicate 32 0) (leave ''digest'' (replicate 64 0) w)) s1)"
proof -
  let ?digest = "overlay (junk (t_world s1) 64) 0 md"
  have d: "buf_write (junk (t_world s1) 64) 0 md = Some ?digest" "length ?digest = 64" "window ?digest 0 32 = md"
    using md(2) by (simp_all add: junk_def window_overlay_same)
  have h: "hex_loop ?digest 32 0 out = Some (hex md @ drop 64 out)"
    using hex_loop_spec [of 0 32 ?digest out] args d md(2) by (simp add: overlay_def)
  have o: "buf_write (hex md @ drop 64 out) 64 [CHR 0x00] = Some (hex md @ CHR 0x00 # drop 65 out)"
    using args md(2) by (simp add: buf_write_def overlay_def)
  show ?thesis using assms d h o by (simp add: derive_password_def)
qed

text \<open>
  C18: \<open>padlock_derive_header_password\<close> and \<open>padlock_derive_user_header_password\<close>, once the key is there,
  leave the 64 hexadecimal digits of the keyed digest and a terminator at the start of the caller's
  array and do not touch the rest; different digests give different passwords, and the key and
  the digest are zero when their frame is left.
\<close>

theorem header_password_is_hex_digest:
  assumes "padlock_tpm_ensure_sealed_key tss s = Some (Some key, s1)" "length key = 32"
    and "HMAC_sha256 ssl key (bytes text) = Some md" "length md = 32" "text \<noteq> ''''" "65 \<le> n" "n \<le> length out"
  shows "\<exists>s2. padlock_derive_header_password ssl tss (Some text) (Some out) n s = Some (0, Some (hex md @ CHR 0x00 # drop 65 out), s2) \<and>
    padlock_derive_user_header_password ssl tss (Some text) (Some out) n s = Some (0, Some (hex md @ CHR 0x00 # drop 65 out), s2) \<and>
    length (hex md) = 64 \<and> (\<forall>md'. length md' = 32 \<longrightarrow> hex md' = hex md \<longrightarrow> md' = md) \<and>
    w_residue (t_world s2) = (''hmac_key'', replicate 32 0) # (''digest'', replicate 64 0) # w_residue (t_world s1)"
  unfolding padlock_derive_header_password_def padlock_derive_user_header_password_def derive_password_spec [OF assms]
  using assms(4) hex_inject by (auto simp: leave_def)

theorem header_password_is_hex_digest_witness:
  "\<exists>s2 p. padlock_derive_header_password (sample_ssl\<lparr>HMAC_sha256 := (\<lambda>k m. Some (replicate 32 0xa5))\<rparr>) sample_tss (Some ''me'')
      (Some (replicate 65 CHR ''?'')) 65 sample_tworld = Some (0, Some p, s2) \<and> take 4 p = ''a5a5''"
proof -
  let ?ssl = "sample_ssl\<lparr>HMAC_sha256 := (\<lambda>k m. Some (replicate 32 0xa5))\<rparr>"
  obtain s1 where "padlock_tpm_ensure_sealed_key sample_tss sample_tworld = Some (Some (replicate 32 0), s1)"
    by (rule ensure_fresh [OF sample_tss_laws sample_works sample_ready(1,2) _ HOL.refl])
      (use sample_ready(3) in \<open>auto simp: sample_tworld_def home_world_def map_replicate_const\<close>)
  from header_password_is_hex_digest [OF this, of ?ssl "''me''" "replicate 32 0xa5" 65 "replicate 65 CHR ''?''"]
  obtain s2 where "padlock_derive_header_password ?ssl sample_tss (Some ''me'') (Some (replicate 65 CHR ''?'')) 65 sample_tworld =
    Some (0, Some (hex (replicate 32 0xa5) @ CHR 0x00 # drop 65 (replicate 65 CHR ''?'')), s2)" by auto
  moreover have "take 4 (hex (replicate 32 0xa5)) = ''a5a5''"
  proof -
    have "hex_digit (drop_bit 4 (0xa5 :: byte) AND 0x0f) = CHR ''a''" "hex_digit ((0xa5 :: byte) AND 0x0f) = CHR ''5''"
      by (simp_all add: hex_digit_def)
    moreover have "replicate 32 (0xa5 :: byte) = 0xa5 # 0xa5 # replicate 30 0xa5" by (simp add: eval_nat_numeral)
    ultimately show ?thesis by (simp only: hex_simps) simp
  qed
  ultimately show ?thesis
    by (rule_tac exI [of _ s2], rule_tac exI [of _ "hex (replicate 32 0xa5) @ CHR 0x00 # drop 65 (replicate 65 CHR ''?'')"]) simp
qed

end
