(* ===== verification/Padlock_Login.thy ===== *)
theory Padlock_Login
  imports Padlock_Cli_Lemmas Padlock_Keystore Padlock_Key_Theorems
begin

text \<open>
  The command line program as a whole: what it does when PAM refuses the user, when the service file
  asks for no password, and when the user logs in. In the last case the commands \<open>set\<close> and \<open>get\<close> are a
  keystore again: the interpretation \<open>cli\<close> is of the interface \<open>keystore\<close> of the library underneath.
\<close>

section \<open>Authentication\<close>

text \<open>
  What the program relies on of PAM: called with a conversation function that answers well-formed calls, it
  returns, and it changes no file of the user. The conversations of the program are such functions.
\<close>

definition conv_ok :: "conversation \<Rightarrow> bool" where
  "conv_ok conv \<longleftrightarrow> (\<forall>msg w. \<exists>r w'. conv (int (length msg)) (Some msg) True w = Some (r, w') \<and> file_frame w w')"

definition pam_laws :: "pam \<Rightarrow> bool" where
  "pam_laws pam \<longleftrightarrow> (\<forall>service user conv w. conv_ok conv \<longrightarrow>
     (\<exists>r w'. PAM_authenticate pam service user conv w = Some (r, w') \<and> file_frame w w'))"

lemma conversations_ok: "conv_ok pam_no_prompt_conversation" "conv_ok (pam_password_conversation (Some (Some password)))"
proof -
  show "conv_ok pam_no_prompt_conversation" by (simp add: conv_ok_def pam_no_prompt_conversation_def)
  have "\<exists>r w'. pam_password_conversation (Some (Some password)) (int (length msg)) (Some msg) True w = Some (r, w') \<and> file_frame w w'" for msg w
    by (rule conversation_answers [OF refl, of password msg True w]) (auto simp: answered_def)
  then show "conv_ok (pam_password_conversation (Some (Some password)))" by (simp add: conv_ok_def)
qed

text \<open>PAM never lets the user in, or lets him in with the password.\<close>

definition refuses :: "pam \<Rightarrow> string \<Rightarrow> bool" where
  "refuses pam user \<longleftrightarrow> PAM_start pam ''padlock'' user \<noteq> PAM_SUCCESS \<or>
     (\<forall>conv w r w'. PAM_authenticate pam ''padlock'' user conv w = Some (r, w') \<longrightarrow> r \<noteq> PAM_SUCCESS)"

definition admits :: "pam \<Rightarrow> string \<Rightarrow> string \<Rightarrow> bool" where
  "admits pam user password \<longleftrightarrow> PAM_start pam ''padlock'' user = PAM_SUCCESS \<and>
     (\<forall>w. w_faults w = [] \<longrightarrow> (\<exists>w'. PAM_authenticate pam ''padlock'' user (pam_password_conversation (Some (Some password))) w = Some (PAM_SUCCESS, w') \<and>
        file_frame w w'))"

lemma authenticate_total:
  assumes "pam_laws pam" "length reason = n" "0 < n" "user \<noteq> ''''" "password \<noteq> ''''"
  obtains rc reason' c' where "authenticate_with_pam pam (Some user) (Some password) False (Some reason) n c = Some (rc, reason', c')"
    "holds_text n reason'" "con_frame c c'" "rc = 0 \<or> rc = -1" "refuses pam user \<Longrightarrow> rc = -1" "admits pam user password \<Longrightarrow> w_faults (c_world c) = [] \<Longrightarrow> rc = 0"
proof -
  let ?r = "overlay reason 0 [NUL]" and ?conv = "pam_password_conversation (Some (Some password))"
  have r: "buf_write reason 0 [NUL] = Some ?r" "length ?r = n" "holds_text n (Some ?r)"
    using assms(2,3) by (auto simp: holds_text_def overlay_def)
  obtain res w1 where a: "PAM_authenticate pam ''padlock'' user ?conv (c_world c) = Some (res, w1)" "file_frame (c_world c) w1"
    using assms(1) conversations_ok(2) unfolding pam_laws_def by blast
  show ?thesis
  proof (cases "PAM_start pam ''padlock'' user = PAM_SUCCESS")
    case start: False
    obtain r' where "copy_pam_message pam (Some ?r) n (PAM_start pam ''padlock'' user) = Some r'" "holds_text n r'"
      by (rule copy_pam_message_text [OF r(2) assms(3)])
    then show ?thesis
      using that [of "-1" r' "upd_cworld (set_errno EACCES) c"] start r(1) assms
      by (simp add: authenticate_with_pam_def admits_def)
  next
    case start: True
    let ?c = "upd_cworld (\<lambda>_. w1) c"
    show ?thesis
    proof (cases "res = PAM_SUCCESS")
      case True
      have "authenticate_with_pam pam (Some user) (Some password) False (Some reason) n c = Some (0, Some ?r, ?c)"
        using start a(1) True r(1) assms by (simp add: authenticate_with_pam_def)
      moreover have "\<not> refuses pam user" using start a(1) True by (auto simp: refuses_def)
      ultimately show ?thesis using that r(3) con_frame_world [OF a(2)] by blast
    next
      case False
      obtain r' where r': "copy_pam_message pam (Some ?r) n res = Some r'" "holds_text n r'"
        by (rule copy_pam_message_text [OF r(2) assms(3)])
      have "authenticate_with_pam pam (Some user) (Some password) False (Some reason) n c = Some (-1, r', upd_cworld (set_errno EACCES) ?c)"
        using start a(1) False r(1) r'(1) assms by (simp add: authenticate_with_pam_def)
      moreover have "\<not> (admits pam user password \<and> w_faults (c_world c) = [])"
        using a(1) False unfolding admits_def by (metis option.inject prod.inject)
      ultimately show ?thesis using that [of "-1" r' "upd_cworld (set_errno EACCES) ?c"] r'(2) con_frame_world [OF a(2)] by auto
    qed
  qed
qed

text \<open>The service file asks for a password, or does not, whatever \<open>errno\<close> is.\<close>

definition asks_password :: "string \<Rightarrow> world \<Rightarrow> bool" where
  "asks_password user w \<longleftrightarrow> (\<forall>e. \<exists>w'. pam_service_is_passwordless_for_user (Some user) (set_errno e w) = Some (0, w'))"

definition passwordless :: "string \<Rightarrow> world \<Rightarrow> bool" where
  "passwordless user w \<longleftrightarrow> (\<forall>e. \<exists>w'. pam_service_is_passwordless_for_user (Some user) (set_errno e w) = Some (1, w'))"

text \<open>
  The service file calls for a password, and the check sees it: there is no such file, or the name does not
  fit in the expected line, or a line does not let the user in without a password and the reads up to it do
  not fail. The first call, which opens the file, and every later one may fail.
\<close>

definition service_demands :: "string \<Rightarrow> world \<Rightarrow> bool" where
  "service_demands user w \<longleftrightarrow> 345 \<le> length user \<or>
     (case w_files w ''/etc/pam.d/padlock'' of
        None \<Rightarrow> True
      | Some n \<Rightarrow> (\<exists>ls l rest. fn_data n = bytes (text_of (ls @ [l]) @ rest) \<and> (\<forall>x\<in>set (ls @ [l]). short_line x) \<and>
          \<not> harmless user l \<and> set (take (Suc (length ls)) (tl (w_faults w))) \<subseteq> {Pass}))"

lemma long_expected: "345 \<le> length user \<Longrightarrow> length user < 2 ^ 31 - 39 \<Longrightarrow>
    384 \<le> fst (snprintf 384 (''auth required pam_succeed_if.so user = '' @ user))"
  by (simp add: snprintf_def)

lemma service_demands_password:
  assumes "service_demands user w" "user \<noteq> ''''" "length user < 2 ^ 31 - 39"
  shows "asks_password user w"
  unfolding asks_password_def
proof
  fix e
  let ?p = "''/etc/pam.d/padlock''"
  obtain ok w1 where a: "attempt (set_errno e w) = (ok, w1)" by (metis prod.exhaust)
  have w1: "w_files w1 = w_files w" using attempt_frame [OF a] by (simp add: io_frame_def)
  show "\<exists>w'. pam_service_is_passwordless_for_user (Some user) (set_errno e w) = Some (0, w')"
  proof (cases "ok \<and> w_files w ?p \<noteq> None")
    case False
    then show ?thesis using a w1 assms(2) by (cases ok) (auto simp: pam_service_is_passwordless_for_user_def fopen_def)
  next
    case True
    then obtain n where n: "w_files w ?p = Some n" by auto
    let ?w2 = "w1\<lparr>w_open := Suc (w_open w1)\<rparr>"
    have op: "fopen ?p ''r'' (set_errno e w) = (Some (stream ?p False), ?w2)" using True a w1 n by (simp add: fopen_def)
    show ?thesis
    proof (cases "345 \<le> length user")
      case True
      then show ?thesis
        using op assms(2) long_expected [OF True assms(3)] by (auto simp: pam_service_is_passwordless_for_user_def split: prod.splits)
    next
      case False
      then obtain ls l rest where s: "fn_data n = bytes (text_of (ls @ [l]) @ rest)" "\<forall>x\<in>set (ls @ [l]). short_line x"
        "\<not> harmless user l" "set (take (Suc (length ls)) (tl (w_faults w))) \<subseteq> {Pass}"
        using assms(1) n by (auto simp: service_demands_def)
      have "w_faults w1 = tl (w_faults w)" using a by (cases "w_faults w") (auto simp: attempt_def poll_def split: fault.splits)
      then have "\<exists>w'. service_loop (service_line user) (chars (junk ?w2 512)) (text_of (ls @ [l]) @ rest) ?w2 = Some (0, w')"
        by (intro service_loop_asks) (use s in auto)
      moreover have "chars (file_data ?w2 ?p) = text_of (ls @ [l]) @ rest" using n w1 by (simp add: file_data_def s(1) bytes_append [symmetric] del: bytes_append)
      ultimately show ?thesis
        using op assms(2) expected_line [of user] False by (auto simp: pam_service_is_passwordless_for_user_def stream_def)
    qed
  qed
qed

lemma prompt_text:
  assumes "length user < 2 ^ 31 - 27"
  obtains k prompt where "snprintf 128 (''Enter the password for '' @ [CHR 0x27] @ user @ [CHR 0x27] @ '': '') = (k, prompt)" "0 < k"
  using assms that by (simp add: snprintf_def)

lemma derive_refused:
  assumes "pam_laws pam" "refuses pam user" "asks_password user (c_world c)" "user \<noteq> ''''" "length user < 2 ^ 31 - 27"
    and "length reason = n" "0 < n"
  obtains reason' c' where "derive_header_password ssl tss pam (Some user) hp m (Some reason) n (upd_cworld (set_errno e) c) = Some (-1, hp, reason', c')"
    "holds_text n reason'" "con_frame c c'"
proof -
  obtain w where w: "pam_service_is_passwordless_for_user (Some user) (set_errno e (c_world c)) = Some (0, w)"
    using assms(3) by (auto simp: asks_password_def)
  then have "io_frame (set_errno e (c_world c)) w" by (rule_tac service_total [of "Some user" "set_errno e (c_world c)"]) simp
  then have c1: "con_frame c (upd_cworld (\<lambda>_. w) c)" (is "con_frame c ?c1")
    by (intro con_frame_world) (metis file_frame_errno file_frame_refl file_frame_trans io_frame_file_frame)
  obtain k prompt where k: "snprintf 128 (''Enter the password for '' @ [CHR 0x27] @ user @ [CHR 0x27] @ '': '') = (k, prompt)" "0 < k"
    by (rule prompt_text [OF assms(5)])
  let ?login = "chars (junk (c_world c) 512)"
  have j: "junk (set_errno e (c_world c)) 512 = junk (c_world c) 512" by (simp add: junk_def)
    obtain rc b' c2 where p: "prompt_password prompt (Some ?login) 512 ?c1 = Some (rc, Some b', c2)" "length b' = 512" "con_frame ?c1 c2"
      "rc = 0 \<or> rc = -1" "rc = 0 \<Longrightarrow> \<exists>s. c_string b' = Some s \<and> s \<noteq> ''''"
      by (rule prompt_total [of ?login 512 prompt ?c1]) auto
    have c2: "con_frame c c2" using con_frame_trans [OF c1 p(3)] .
    show ?thesis
    proof (cases "rc = 0")
      case False
      obtain r' where r': "copy_message (Some reason) n (Some ''could not read password'') = Some r'" "holds_text n r'"
        by (rule copy_message_text [OF assms(6,7)])
      show ?thesis
        by (rule that [of r' "leave_login b' (upd_cworld (set_errno EIO) c2)"])
          (use False k w j assms(4) p(1) r' c2 in \<open>auto simp: derive_header_password_def\<close>)
    next
      case True
      then obtain s where s: "c_string b' = Some s" "s \<noteq> ''''" using p(5) by blast
      obtain r' c3 where a: "authenticate_with_pam pam (Some user) (Some s) False (Some reason) n c2 = Some (-1, r', c3)"
        "holds_text n r'" "con_frame c2 c3"
        by (rule authenticate_total [OF assms(1,6,7,4) s(2), of c2]) (use assms(2) in simp)
      show ?thesis
        by (rule that [of r' "leave_login (replicate 512 NUL) c3"])
          (use True k w j assms(4) p(1,2) s a con_frame_trans [OF c2 a(3)] in
            \<open>auto simp: derive_header_password_def derive_with_login_def\<close>)
    qed
qed

lemma resolve_path_errno: "\<exists>rc path e. resolve_path argv index n w = (rc, path, set_errno e w)"
proof -
  have id: "set_errno (w_errno w) w = w" by simp
  obtain rc path w' where "resolve_path argv index n w = (rc, path, w')" by (metis prod.exhaust)
  moreover from this have "w' = w \<or> w' = set_errno EINVAL w"
    by (auto simp: resolve_path_def padlock_default_store_path_def Let_def split: if_splits option.splits list.splits prod.splits)
  ultimately show ?thesis using id by metis
qed

lemma authorize_refused:
  assumes "pam_laws pam" "refuses pam user" "asks_password user (c_world c)" "user \<noteq> ''''" "length user < 2 ^ 31 - 27"
  obtains c' where "authorize ssl tss pam user argv index (upd_cworld (set_errno e) c) = Some (Inl (1, c'))" "con_frame c c'"
proof -
  obtain rc path e' where r: "resolve_path argv index 4096 (set_errno e (c_world c)) = (rc, path, set_errno e' (c_world c))"
    using resolve_path_errno [of argv index 4096 "set_errno e (c_world c)"] by auto
  show ?thesis
  proof (cases "rc = 0")
    case False
    show ?thesis
      by (rule that [of "eprint (''padlock: could not resolve store path'' @ [newline]) (upd_cworld (set_errno e') c)"])
        (use False r in \<open>simp_all add: authorize_def\<close>)
  next
    case True
    let ?hp = "Some (chars (junk (c_world c) 65))" and ?r = "chars (junk (c_world c) 256)"
    obtain r' c1 where d: "derive_header_password ssl tss pam (Some user) ?hp 65 (Some ?r) 256 (upd_cworld (set_errno e') c) = Some (-1, ?hp, r', c1)"
      "holds_text 256 r'" "con_frame c c1"
      by (rule derive_refused [OF assms, of ?r 256]) auto
    obtain a t where t: "r' = Some a" "c_string a = Some t" using d(2) by (rule holds_textE)
    let ?c2 = "upd_cworld (leave ''header_password'' (replicate 65 0)) c1"
    have "con_frame c ?c2" using d(3) by (simp add: con_frame_def)
    moreover obtain c3 where "report_failure_with_detail ''authentication'' r' ?c2 = Some c3" "con_frame ?c2 c3"
      using t by (auto simp: report_failure_with_detail_def report_failure_def)
    ultimately show ?thesis
      using that [of c3] True r d(1)
      by (auto simp: authorize_def zero_header_password_def junk_def intro: con_frame_trans)
  qed
qed

lemma main_refused:
  assumes "pam_laws pam" "c_user c = Some user" "refuses pam user" "asks_password user (c_world c)" "user \<noteq> ''''" "length user < 2 ^ 31 - 27"
  obtains rc c' where "main ssl tss pam argv c = Some (rc, c')" "rc = 1 \<or> rc = 2" "con_frame c c'"
proof -
  have auth: "\<exists>c'. authorize ssl tss pam user argv index (upd_cworld (set_errno e) c) = Some (Inl (1, c')) \<and> con_frame c c'" for index e
    by (rule authorize_refused [OF assms(1,3-6), of ssl tss argv index e]) blast
  have id: "upd_cworld (set_errno (w_errno (c_world c))) c = c" by simp
  have auth0: "\<exists>c'. authorize ssl tss pam user argv index c = Some (Inl (1, c')) \<and> con_frame c c'" for index
    using auth [of index "w_errno (c_world c)"] unfolding id .
  have u: "con_frame c (usage c')" if "con_frame c c'" for c' using that by (simp add: usage_def)
  obtain rc sz w' where p: "padlock_parse_size (Some (argv ! 2)) True (c_world c) = (rc, sz, w')" by (metis prod.exhaust)
  then obtain e where "w' = set_errno e (c_world c)" and sz: "rc = 0 \<longrightarrow> sz \<noteq> None"
    by (auto simp: padlock_parse_size_def Let_def split: if_splits option.splits prod.splits)
  then have "\<exists>rc c'. allocate_command ssl tss pam user argv c = Some (rc, c') \<and> (rc = 1 \<or> rc = 2) \<and> con_frame c c'"
    using p u auth [of 3 e] by (auto simp: allocate_command_def con_frame_world)
  moreover have "\<exists>rc c'. set_command ssl tss pam user argv c = Some (rc, c') \<and> (rc = 1 \<or> rc = 2) \<and> con_frame c c'"
    using u auth0 [of 4] by (auto simp: set_command_def)
  moreover have "\<exists>rc c'. get_command ssl tss pam user argv c = Some (rc, c') \<and> (rc = 1 \<or> rc = 2) \<and> con_frame c c'"
    using u auth0 [of 3] by (auto simp: get_command_def)
  ultimately have "\<exists>rc c'. main ssl tss pam argv c = Some (rc, c') \<and> (rc = 1 \<or> rc = 2) \<and> con_frame c c'"
    using assms(2) u by (auto simp: main_def)
  then show ?thesis using that by blast
qed

section \<open>Users without a password\<close>

lemma authorize_passwordless:
  assumes "passwordless user (c_world c)" "user \<noteq> ''''"
  shows "authorize ssl tss pam user argv index (upd_cworld (set_errno e) c) = authorize ssl tss pam' user argv index (upd_cworld (set_errno e) c)"
proof -
  obtain rc path e' where r: "resolve_path argv index 4096 (set_errno e (c_world c)) = (rc, path, set_errno e' (c_world c))"
    using resolve_path_errno [of argv index 4096 "set_errno e (c_world c)"] by auto
  obtain w where "pam_service_is_passwordless_for_user (Some user) (set_errno e' (c_world c)) = Some (1, w)"
    using assms(1) by (auto simp: passwordless_def)
  then have "derive_header_password ssl tss pam (Some user) hp m reason n (upd_cworld (set_errno e') c) =
      derive_header_password ssl tss pam' (Some user) hp m reason n (upd_cworld (set_errno e') c)" for hp m reason n
    using assms(2) by (simp add: derive_header_password_def)
  then show ?thesis using r by (simp add: authorize_def Let_def)
qed

lemma main_passwordless:
  assumes "c_user c = Some user" "passwordless user (c_world c)" "user \<noteq> ''''"
  shows "main ssl tss pam argv c = main ssl tss pam' argv c"
proof -
  note auth = authorize_passwordless [OF assms(2,3), of ssl tss pam argv _ _ pam']
  have id: "upd_cworld (set_errno (w_errno (c_world c))) c = c" by simp
  note auth0 = auth [of _ "w_errno (c_world c)", unfolded id]
  obtain rc sz w' where p: "padlock_parse_size (Some (argv ! 2)) True (c_world c) = (rc, sz, w')" by (metis prod.exhaust)
  then obtain e where "w' = set_errno e (c_world c)"
    by (auto simp: padlock_parse_size_def Let_def split: if_splits option.splits prod.splits)
  then have "allocate_command ssl tss pam user argv c = allocate_command ssl tss pam' user argv c"
    using p auth [of 3 e] by (simp add: allocate_command_def)
  moreover have "set_command ssl tss pam user argv c = set_command ssl tss pam' user argv c"
    "get_command ssl tss pam user argv c = get_command ssl tss pam' user argv c"
    using auth0 by (simp_all add: set_command_def get_command_def)
  ultimately show ?thesis using assms(1) by (simp add: main_def)
qed

section \<open>A login\<close>

text \<open>The service file has short lines and one of them calls for a password.\<close>

definition service_asks :: "string \<Rightarrow> world \<Rightarrow> bool" where
  "service_asks user w \<longleftrightarrow> length user < 345 \<and>
     (\<exists>n ls. w_files w ''/etc/pam.d/padlock'' = Some n \<and> fn_data n = bytes (text_of ls) \<and> (\<forall>l\<in>set ls. short_line l) \<and>
        \<not> (\<forall>l\<in>set ls. harmless user l))"

lemma service_asks_password: "service_asks user w \<Longrightarrow> w_faults w = [] \<Longrightarrow> user \<noteq> '''' \<Longrightarrow> asks_password user w"
  by (auto simp: service_asks_def asks_password_def service_lines)

text \<open>The key of the machine is sealed in the two files.\<close>

definition key_sealed :: "('o, 'p) tss2 \<Rightarrow> world \<Rightarrow> byte list \<Rightarrow> bool" where
  "key_sealed tss w key \<longleftrightarrow> (\<exists>d pp qp pn qn. tpm_ready w d pp qp \<and> w_files w pp = Some pn \<and> w_files w qp = Some qn \<and>
     sealed_in tss (fn_data pn) (fn_data qn) key)"

definition key_files :: "world \<Rightarrow> string set" where
  "key_files w = (case padlock_tpm_paths w of None \<Rightarrow> {} | Some (d, pp, qp) \<Rightarrow> {pp, qp})"

text \<open>
  The user at the console types the password \<open>l\<close>, which PAM admits, and no call fails; then \<open>logs_in\<close> says
  that the sealed key and the keyed digest make \<open>pw\<close> of it.
\<close>

definition enters :: "pam \<Rightarrow> string \<Rightarrow> string \<Rightarrow> console \<Rightarrow> bool" where
  "enters pam user l c \<longleftrightarrow>
     c_user c = Some user \<and> user \<noteq> '''' \<and> service_asks user (c_world c) \<and> w_faults (c_world c) = [] \<and>
     typable l \<and> (\<exists>rest. c_stdin c = l @ newline # rest) \<and> pam_laws pam \<and> admits pam user l"

definition logs_in ::
  "'c openssl \<Rightarrow> ('o, 'p) tss2 \<Rightarrow> pam \<Rightarrow> string \<Rightarrow> string \<Rightarrow> byte list \<Rightarrow> string \<Rightarrow> console \<Rightarrow> bool" where
  "logs_in ssl tss pam user l key pw c \<longleftrightarrow> enters pam user l c \<and> key_sealed tss (c_world c) key \<and>
     (\<exists>md. HMAC_sha256 ssl key (bytes l) = Some md \<and> length md = 32 \<and> pw = hex md)"

lemma key_sealed_ensure:
  assumes "w_faults (t_world s) = []" "key_sealed tss (t_world s) key"
  obtains s' where "padlock_tpm_ensure_sealed_key tss s = Some (Some key, s')" "w_files (t_world s') = w_files (t_world s)"
    "w_faults (t_world s') = []" "length key = 32" "key_sealed tss (t_world s') key" "key_files (t_world s') = key_files (t_world s)"
proof -
  obtain d pp qp pn qn where k: "tpm_ready (t_world s) d pp qp" "w_files (t_world s) pp = Some pn" "w_files (t_world s) qp = Some qn"
    and sealed: "sealed_in tss (fn_data pn) (fn_data qn) key" using assms(2) by (auto simp: key_sealed_def)
  have len: "length key = 32" using sealed by (auto simp: sealed_in_def)
  obtain s' where s': "padlock_tpm_ensure_sealed_key tss s = Some (Some key, s')" "w_files (t_world s') = w_files (t_world s)"
    "w_faults (t_world s') = []" "tpm_ready (t_world s') d pp qp"
    by (rule ensure_kept [OF assms(1) k sealed])
  have "key_sealed tss (t_world s') key" using s'(2,4) k(2,3) sealed unfolding key_sealed_def by metis
  moreover have "key_files (t_world s') = key_files (t_world s)" using s'(4) k(1) by (simp add: key_files_def tpm_ready_def)
  ultimately show ?thesis using that s' len by blast
qed

lemma key_sealed_edit:
  assumes "edits path w w'" "w_files w path \<noteq> None" "path \<notin> key_files w" "key_sealed tss w key"
  shows "key_sealed tss w' key" "key_files w' = key_files w"
proof -
  have e: "\<And>p. p \<noteq> path \<Longrightarrow> w_files w' p = w_files w p" "w_dirs w' = w_dirs w" "w_env w' = w_env w"
    using assms(1) by (simp_all add: edits_def)
  have paths: "padlock_tpm_paths w' = padlock_tpm_paths w" using e(3) by (simp add: padlock_tpm_paths_def getenv_def)
  obtain d pp qp pn qn where k: "tpm_ready w d pp qp" "w_files w pp = Some pn" "w_files w qp = Some qn" "sealed_in tss (fn_data pn) (fn_data qn) key"
    using assms(4) by (auto simp: key_sealed_def)
  then have "path \<noteq> pp" "path \<noteq> qp" using assms(3) by (auto simp: key_files_def tpm_ready_def)
  moreover have "w_files w' q = None" if "w_files w q = None" for q using e(1) assms(2) that by metis
  ultimately have "tpm_ready w' d pp qp" "w_files w' pp = Some pn" "w_files w' qp = Some qn"
    using k e by (auto simp: tpm_ready_def paths)
  then show "key_sealed tss w' key" using k(4) unfolding key_sealed_def by metis
  show "key_files w' = key_files w" by (simp add: key_files_def paths)
qed

lemma con_frame_sealed:
  assumes "con_frame c c'"
  shows "key_sealed tss (c_world c') key = key_sealed tss (c_world c) key" "key_files (c_world c') = key_files (c_world c)"
  using assms by (simp_all add: key_sealed_def key_files_def tpm_ready_def padlock_tpm_paths_def getenv_def con_frame_def file_frame_def)

lemma con_frame_no_faults: "con_frame c c' \<Longrightarrow> w_faults (c_world c) = [] \<Longrightarrow> w_faults (c_world c') = []"
  by (simp add: con_frame_def file_frame_def)

text \<open>What a login leaves as it was: the user, the output, the files, the key.\<close>

definition login_frame :: "('o, 'p) tss2 \<Rightarrow> byte list \<Rightarrow> console \<Rightarrow> console \<Rightarrow> bool" where
  "login_frame tss key c c' \<longleftrightarrow> c_user c' = c_user c \<and> c_out c' = c_out c \<and> w_files (c_world c') = w_files (c_world c) \<and>
     w_faults (c_world c') = [] \<and> key_sealed tss (c_world c') key \<and> key_files (c_world c') = key_files (c_world c)"

lemma leave_simps [simp]:
  "w_files (leave n b w) = w_files w" "w_faults (leave n b w) = w_faults w" "file_data (leave n b w) = file_data w"
  "key_sealed tss (leave n b w) key = key_sealed tss w key" "key_files (leave n b w) = key_files w"
  by (simp_all add: leave_def file_data_def fun_eq_iff key_sealed_def key_files_def tpm_ready_def padlock_tpm_paths_def getenv_def)

text \<open>The console after the key was fetched, with what the scrubbed arrays hold.\<close>

definition logged_in :: "tworld \<Rightarrow> console \<Rightarrow> console" where
  "logged_in s c = leave_login (replicate 512 NUL)
     (c\<lparr>c_tworld := upd_world (\<lambda>w. leave ''hmac_key'' (replicate 32 0) (leave ''digest'' (replicate 64 0) w)) s\<rparr>)"

text \<open>The digits are those of the digest of the password under whatever key the TPM gives.\<close>

lemma derive_entered:
  assumes "enters pam user l c" "length hp = 65" "length reason = 256"
  obtains reason' c1 where "con_frame c c1"
    "\<And>key s md. padlock_tpm_ensure_sealed_key tss (c_tworld c1) = Some (Some key, s) \<Longrightarrow> length key = 32 \<Longrightarrow>
       HMAC_sha256 ssl key (bytes l) = Some md \<Longrightarrow> length md = 32 \<Longrightarrow>
       derive_header_password ssl tss pam (Some user) (Some hp) 65 (Some reason) 256 c = Some (0, Some (hex md @ [NUL]), reason', logged_in s c1)"
proof -
  obtain rest where u: "user \<noteq> ''''" "w_faults (c_world c) = []" "service_asks user (c_world c)"
    and l: "typable l" "c_stdin c = l @ newline # rest" and pam: "pam_laws pam" "admits pam user l"
    using assms(1) by (auto simp: enters_def)
  have "set_errno (w_errno (c_world c)) (c_world c) = c_world c" by simp
  then obtain w where w: "pam_service_is_passwordless_for_user (Some user) (c_world c) = Some (0, w)"
    using service_asks_password [OF u(3,2,1)] unfolding asks_password_def by metis
  then have "io_frame (c_world c) w" by (rule_tac service_total [of "Some user" "c_world c"]) simp
  then have c1: "con_frame c (upd_cworld (\<lambda>_. w) c)" (is "con_frame c ?c1") by (intro con_frame_world io_frame_file_frame)
  obtain k prompt where k: "snprintf 128 (''Enter the password for '' @ [CHR 0x27] @ user @ [CHR 0x27] @ '': '') = (k, prompt)" "0 < k"
    by (rule prompt_text [of user]) (use u(3) in \<open>simp add: service_asks_def\<close>)
  let ?login = "chars (junk (c_world c) 512)"
  obtain b c2 where p: "prompt_password prompt (Some ?login) 512 ?c1 = Some (0, Some b, c2)" "length b = 512" "c_string b = Some l" "con_frame ?c1 c2"
    by (rule prompt_clean [OF con_frame_no_faults [OF c1 u(2)] l(1), of rest ?login prompt]) (use l(2) in auto)
  have ne: "l \<noteq> ''''" using l(1) by (simp add: typable_def)
  obtain r' c3 where a: "authenticate_with_pam pam (Some user) (Some l) False (Some reason) 256 c2 = Some (0, r', c3)" "con_frame c2 c3"
    by (rule authenticate_total [OF pam(1) assms(3) _ u(1) ne, of c2]) (use pam(2) con_frame_no_faults [OF con_frame_trans [OF c1 p(4)] u(2)] in auto)
  show ?thesis
  proof (rule that)
    show "con_frame c c3" using con_frame_trans [OF con_frame_trans [OF c1 p(4)] a(2)] .
    fix key s md
    assume key: "padlock_tpm_ensure_sealed_key tss (c_tworld c3) = Some (Some key, s)" "length key = 32"
      and md: "HMAC_sha256 ssl key (bytes l) = Some md" "length md = 32"
    show "derive_header_password ssl tss pam (Some user) (Some hp) 65 (Some reason) 256 c = Some (0, Some (hex md @ [NUL]), r', logged_in s c3)"
      using w k u(1) p(1-3) a(1) derive_password_spec [OF key md ne, of 65 hp] assms(2)
      by (simp add: derive_header_password_def derive_with_login_def padlock_derive_header_password_def logged_in_def)
  qed
qed

lemma derive_login:
  assumes "logs_in ssl tss pam user l key pw c" "length hp = 65" "length reason = 256"
  obtains reason' c' where "derive_header_password ssl tss pam (Some user) (Some hp) 65 (Some reason) 256 c = Some (0, Some (pw @ [NUL]), reason', c')"
    "login_frame tss key c c'" "length pw = 64"
proof -
  obtain md where e: "enters pam user l c" "w_faults (c_world c) = []"
    and key: "key_sealed tss (c_world c) key" "HMAC_sha256 ssl key (bytes l) = Some md" "length md = 32" "pw = hex md"
    using assms(1) by (auto simp: logs_in_def enters_def)
  obtain r' c1 where f: "con_frame c c1" and d: "\<And>key s md. padlock_tpm_ensure_sealed_key tss (c_tworld c1) = Some (Some key, s) \<Longrightarrow> length key = 32 \<Longrightarrow>
       HMAC_sha256 ssl key (bytes l) = Some md \<Longrightarrow> length md = 32 \<Longrightarrow>
       derive_header_password ssl tss pam (Some user) (Some hp) 65 (Some reason) 256 c = Some (0, Some (hex md @ [NUL]), r', logged_in s c1)"
    by (rule derive_entered [OF e(1) assms(2,3), where tss = tss and ssl = ssl]) (rule that)
  obtain s where s: "padlock_tpm_ensure_sealed_key tss (c_tworld c1) = Some (Some key, s)" "w_files (t_world s) = w_files (c_world c1)"
    "w_faults (t_world s) = []" "length key = 32" "key_sealed tss (t_world s) key" "key_files (t_world s) = key_files (c_world c1)"
    by (rule key_sealed_ensure [OF con_frame_no_faults [OF f e(2)], of tss key]) (use key(1) con_frame_sealed [OF f] in auto)
  have "login_frame tss key c (logged_in s c1)"
    using f s con_frame_sealed(2) [OF f] by (simp add: login_frame_def logged_in_def leave_login_def con_frame_def file_frame_def)
  with that d [OF s(1,4) key(2,3)] show ?thesis using key(3,4) by simp
qed

lemma authorize_login:
  assumes "logs_in ssl tss pam user l key pw c" "index < length argv" "argv ! index \<noteq> ''''" "length (argv ! index) < 4096"
  obtains c' where "authorize ssl tss pam user argv index c = Some (Inr (argv ! index, pw @ [NUL], c'))"
    "login_frame tss key c c'" "length pw = 64"
proof -
  have r: "resolve_path argv index 4096 (c_world c) = (0, Some (argv ! index), c_world c)"
    using assms(2-4) by (simp add: resolve_path_def snprintf_def)
  let ?hp = "chars (junk (c_world c) 65)" and ?r = "chars (junk (c_world c) 256)"
  obtain r' c' where d: "derive_header_password ssl tss pam (Some user) (Some ?hp) 65 (Some ?r) 256 c = Some (0, Some (pw @ [NUL]), r', c')"
    and c': "login_frame tss key c c'" "length pw = 64"
    by (rule derive_login [OF assms(1), of ?hp ?r]) auto
  have "authorize ssl tss pam user argv index c = Some (Inr (argv ! index, pw @ [NUL], c'))"
    using r d by (simp add: authorize_def)
  then show ?thesis using c' by (rule that)
qed

lemma hex_no_nul: "NUL \<notin> set (hex bs)"
proof -
  have "hex_digit x \<in> set ''0123456789abcdef''" if "unat x < 16" for x :: byte
    unfolding hex_digit_def by (rule nth_mem) (use that in simp)
  then have "NUL \<noteq> hex_digit (drop_bit 4 b AND 0x0f)" "NUL \<noteq> hex_digit (b AND 0x0f)" for b :: byte
    using unat_and_15 [of "drop_bit 4 b"] unat_and_15 [of b] by fastforce+
  then show ?thesis by (induction bs) auto
qed

lemma hex_c_string: "c_string (hex md @ [NUL]) = Some (hex md)"
  using c_string_cut [OF hex_no_nul, of _ "[]"] by simp

lemma logs_in_string: "logs_in ssl tss pam user l key pw c \<Longrightarrow> c_string (pw @ [NUL]) = Some pw"
  by (auto simp: logs_in_def hex_c_string)

section \<open>The commands after a login\<close>

lemma login_frame_data: "login_frame tss key c c' \<Longrightarrow> file_data (c_world c') = file_data (c_world c)"
  by (simp add: login_frame_def file_data_def fun_eq_iff)

lemma main_set:
  assumes login: "logs_in ssl tss pam user l key pw c" and laws: "ssl_laws ssl" and store: "store_ok ssl pw (file_data (c_world c) path) es"
    and path: "path \<noteq> ''''" "length path < 4096" "path \<notin> key_files (c_world c)" and kv: "in_range k (bytes v)"
  obtains rc c' where "main ssl tss pam [prog, ''set'', k, v, path] c = Some (rc, c')" "c_out c' = c_out c" "c_user c' = c_user c"
    "\<And>p. p \<noteq> path \<Longrightarrow> w_files (c_world c') p = w_files (c_world c) p" "w_faults (c_world c') = []"
    "key_sealed tss (c_world c') key" "key_files (c_world c') = key_files (c_world c)"
    "if store_takes ssl path pw (c_world c) k (bytes v)
     then rc = 0 \<and> store_ok ssl pw (file_data (c_world c') path) (es @ [(k, bytes v)])
     else rc = 1 \<and> file_data (c_world c') path = file_data (c_world c) path"
proof -
  have user: "c_user c = Some user" using login by (simp add: logs_in_def enters_def)
  obtain c1 where a: "authorize ssl tss pam user [prog, ''set'', k, v, path] 4 c = Some (Inr (path, pw @ [NUL], c1))"
    and c1: "login_frame tss key c c1" "length pw = 64"
    by (rule authorize_login [OF login, of 4 "[prog, ''set'', k, v, path]"]) (use path in auto)
  note fd = login_frame_data [OF c1(1)]
  have f: "w_faults (c_world c1) = []" "w_files (c_world c1) path \<noteq> None" "path \<notin> key_files (c_world c1)"
    using c1(1) store_ok_file [OF store] path(3) by (simp_all add: login_frame_def)
  have st: "store_ok ssl pw (file_data (c_world c1) path) es" using store fd by simp
  obtain rc w where s: "padlock_set ssl (Some path) (Some pw) (Some k) (Some (bytes v)) (of_nat (length v)) (c_world c1) = Some (rc, w)"
    and ed: "edits path (c_world c1) w" and out: "if store_takes ssl path pw (c_world c1) k (bytes v)
      then rc = 0 \<and> store_ok ssl pw (file_data w path) (es @ [(k, bytes v)])
      else rc = -1 \<and> file_data w path = file_data (c_world c1) path"
    by (rule padlock_set_step [OF laws st f(1) kv]) simp
  have "key_sealed tss (c_world c1) key" using c1(1) by (simp add: login_frame_def)
  note sealed = key_sealed_edit [OF ed f(2,3) this]
  let ?c2 = "upd_cworld (leave ''header_password'' (replicate 65 0)) (upd_cworld (\<lambda>_. w) c1)"
  let ?c3 = "if rc \<noteq> 0 then report_failure ''set'' ?c2 else ?c2"
  have run: "main ssl tss pam [prog, ''set'', k, v, path] c = Some (if rc \<noteq> 0 then 1 else 0, ?c3)"
    using user a logs_in_string [OF login] s c1(2) by (simp add: main_def set_command_def zero_header_password_def)
  have c3: "c_world ?c3 = c_world ?c2" "c_out ?c3 = c_out ?c2" "c_user ?c3 = c_user ?c2"
    by (simp_all add: report_failure_def eprint_def)
  have "store_takes ssl path pw (c_world c1) k (bytes v) = store_takes ssl path pw (c_world c) k (bytes v)"
    using fd by (simp add: store_takes_def)
  then show ?thesis
    by (rule_tac that [OF run]) (unfold c3, use out ed sealed c1(1) f(1) fd in
        \<open>auto simp: edits_def login_frame_def split: if_splits\<close>)
qed

lemma main_get:
  assumes login: "logs_in ssl tss pam user l key pw c" and laws: "ssl_laws ssl" and store: "store_ok ssl pw (file_data (c_world c) path) es"
    and path: "path \<noteq> ''''" "length path < 4096"
  obtains rc c' where "main ssl tss pam [prog, ''get'', k, path] c = Some (rc, c')" "w_files (c_world c') = w_files (c_world c)"
    "case lookup es k of Some v \<Rightarrow> rc = 0 \<and> c_out c' = c_out c @ v @ [of_char newline] | None \<Rightarrow> rc = 1 \<and> c_out c' = c_out c"
proof -
  have user: "c_user c = Some user" using login by (simp add: logs_in_def enters_def)
  obtain c1 where a: "authorize ssl tss pam user [prog, ''get'', k, path] 3 c = Some (Inr (path, pw @ [NUL], c1))"
    and c1: "login_frame tss key c c1" "length pw = 64"
    by (rule authorize_login [OF login, of 3 "[prog, ''get'', k, path]"]) (use path in auto)
  have "w_faults (c_world c1) = []" using c1(1) by (simp add: login_frame_def)
  then obtain rc res w where g: "padlock_get ssl (Some path) (Some pw) (Some k) True (c_world c1) = Some (rc, res, w)"
    and out: "file_frame (c_world c1) w" "get_answer es k rc res"
    by (rule_tac padlock_get_log [OF laws, of pw "c_world c1" path es k]) (use store login_frame_data [OF c1(1)] in auto)
  let ?c2 = "upd_cworld (leave ''header_password'' (replicate 65 0)) (upd_cworld (\<lambda>_. w) c1)"
  have free: "w_files (padlock_free p w) = w_files w" for p w
    by (simp add: padlock_free_def free_def split: option.splits)
  have c: "w_files w = w_files (c_world c)" "c_out c1 = c_out c" using out(1) c1(1) by (simp_all add: file_frame_def login_frame_def)
  note run = main_def get_command_def zero_header_password_def
  show ?thesis
  proof (cases "lookup es k")
    case None
    then have "main ssl tss pam [prog, ''get'', k, path] c = Some (1, report_failure ''lookup'' ?c2)"
      using user a logs_in_string [OF login] g c1(2) out(2) by (simp add: run get_answer_def)
    then show ?thesis by (rule that) (use None c in \<open>simp_all add: report_failure_def eprint_def\<close>)
  next
    case (Some v)
    then have res: "rc = 0" "res = (Some (v @ [0]), of_nat (length v))" using out(2) by (simp_all add: get_answer_def)
    have "unat (of_nat (length v) :: u32) = length v"
      by (rule unat_value_length) (rule lookup_valid [OF store Some])
    then have "main ssl tss pam [prog, ''get'', k, path] c =
        Some (0, upd_cworld (padlock_free (Some (v @ [0]))) (oprint (v @ [of_char newline]) ?c2))"
      using user a logs_in_string [OF login] g c1(2) res by (simp add: run window_def)
    then show ?thesis by (rule that) (use Some c free in \<open>simp_all add: oprint_def\<close>)
  qed
qed

section \<open>The commands as a keystore\<close>

text \<open>
  Each command is a run of the program at which the user types his password, \<open>None\<close> where it has undefined
  behaviour. The value that \<open>get\<close> prints is the new output without the newline behind it. The arguments of a
  command line are strings, which cannot hold the character NUL.
\<close>

definition cli_put ::
  "'c openssl \<Rightarrow> ('o, 'p) tss2 \<Rightarrow> pam \<Rightarrow> string \<Rightarrow> string \<Rightarrow> string \<Rightarrow> byte list \<Rightarrow> console \<Rightarrow> (bool \<times> console) option" where
  "cli_put ssl tss pam l path k v c =
     map_option (\<lambda>(rc, c'). (rc = 0, c')) (main ssl tss pam [''padlock'', ''set'', k, chars v, path] (c\<lparr>c_stdin := l @ [newline]\<rparr>))"

definition cli_get ::
  "'c openssl \<Rightarrow> ('o, 'p) tss2 \<Rightarrow> pam \<Rightarrow> string \<Rightarrow> string \<Rightarrow> string \<Rightarrow> console \<Rightarrow> byte list option option" where
  "cli_get ssl tss pam l path k c =
     map_option (\<lambda>(rc, c'). if rc = 0 then Some (butlast (drop (length (c_out c)) (c_out c'))) else None)
       (main ssl tss pam [''padlock'', ''get'', k, path] (c\<lparr>c_stdin := l @ [newline]\<rparr>))"

definition arguments :: "string \<Rightarrow> byte list \<Rightarrow> bool" where
  "arguments k v \<longleftrightarrow> NUL \<notin> set k \<and> 0 \<notin> set v \<and> in_range k v"

definition cli_log :: "'c openssl \<Rightarrow> string \<Rightarrow> string \<Rightarrow> console \<Rightarrow> entry list" where
  "cli_log ssl path pw c = store_log ssl path pw (c_world c)"

definition cli_inv ::
  "'c openssl \<Rightarrow> ('o, 'p) tss2 \<Rightarrow> pam \<Rightarrow> string \<Rightarrow> string \<Rightarrow> byte list \<Rightarrow> string \<Rightarrow> string \<Rightarrow> console \<Rightarrow> bool" where
  "cli_inv ssl tss pam user l key pw path c \<longleftrightarrow>
     ssl_laws ssl \<and> logs_in ssl tss pam user l key pw (c\<lparr>c_stdin := l @ [newline]\<rparr>) \<and>
     (\<exists>es. store_ok ssl pw (file_data (c_world c) path) es) \<and> path \<noteq> '''' \<and> length path < 4096 \<and>
     path \<noteq> ''/etc/pam.d/padlock'' \<and> path \<notin> key_files (c_world c)"

lemma cli_inv_log: "cli_inv ssl tss pam user l key pw path c \<Longrightarrow> store_ok ssl pw (file_data (c_world c) path) (cli_log ssl path pw c)"
  by (auto simp: cli_inv_def cli_log_def store_log_eq)

lemma cli_put_step:
  assumes inv: "cli_inv ssl tss pam user l key pw path c" and args: "arguments k v"
  shows "\<exists>c'. cli_put ssl tss pam l path k v c = Some (store_takes ssl path pw (c_world c) k v, c') \<and>
    cli_inv ssl tss pam user l key pw path c' \<and>
    cli_log ssl path pw c' = cli_log ssl path pw c @ (if store_takes ssl path pw (c_world c) k v then [(k, v)] else [])"
proof -
  let ?c = "c\<lparr>c_stdin := l @ [newline]\<rparr>" and ?es = "cli_log ssl path pw c" and ?ok = "store_takes ssl path pw (c_world c) k v"
  have i: "ssl_laws ssl" "logs_in ssl tss pam user l key pw ?c" "path \<noteq> ''''" "length path < 4096" "path \<noteq> ''/etc/pam.d/padlock''"
    "path \<notin> key_files (c_world ?c)" using inv by (simp_all add: cli_inv_def)
  have st: "store_ok ssl pw (file_data (c_world ?c) path) ?es" using cli_inv_log [OF inv] by simp
  have kv: "in_range k (bytes (chars v))" using args by (simp add: arguments_def)
  obtain rc c' where run: "main ssl tss pam [''padlock'', ''set'', k, chars v, path] ?c = Some (rc, c')"
    and "c_out c' = c_out ?c" and c': "c_user c' = c_user ?c" "\<And>p. p \<noteq> path \<Longrightarrow> w_files (c_world c') p = w_files (c_world ?c) p" "w_faults (c_world c') = []"
      "key_sealed tss (c_world c') key" "key_files (c_world c') = key_files (c_world ?c)"
      "if store_takes ssl path pw (c_world ?c) k (bytes (chars v))
       then rc = 0 \<and> store_ok ssl pw (file_data (c_world c') path) (?es @ [(k, bytes (chars v))])
       else rc = 1 \<and> file_data (c_world c') path = file_data (c_world ?c) path"
    by (rule main_set [OF i(2,1) st i(3,4,6) kv, of "''padlock''"]) (rule that)
  have rc: "rc = 0 \<longleftrightarrow> ?ok" using c'(6) by (auto split: if_splits)
  have put: "cli_put ssl tss pam l path k v c = Some (?ok, c')" using run rc by (simp add: cli_put_def)
  have "service_asks user (c_world c')" using i(2) c'(2) i(5) by (auto simp: logs_in_def enters_def service_asks_def)
  then have login: "logs_in ssl tss pam user l key pw (c'\<lparr>c_stdin := l @ [newline]\<rparr>)"
    using i(2) c' by (simp add: logs_in_def enters_def)
  have st': "store_ok ssl pw (file_data (c_world c') path) (?es @ (if ?ok then [(k, v)] else []))"
    using c'(6) st by (auto split: if_splits)
  then have "cli_inv ssl tss pam user l key pw path c'" using login i c'(5) by (auto simp: cli_inv_def)
  moreover have "cli_log ssl path pw c' = ?es @ (if ?ok then [(k, v)] else [])"
    using store_log_eq [OF i(1) st'] by (simp add: cli_log_def)
  ultimately show ?thesis using put by simp
qed

lemma cli_get_lookup:
  assumes inv: "cli_inv ssl tss pam user l key pw path c"
  shows "cli_get ssl tss pam l path k c = Some (lookup (cli_log ssl path pw c) k)"
proof -
  let ?c = "c\<lparr>c_stdin := l @ [newline]\<rparr>" and ?es = "cli_log ssl path pw c"
  have i: "ssl_laws ssl" "logs_in ssl tss pam user l key pw ?c" "path \<noteq> ''''" "length path < 4096" using inv by (simp_all add: cli_inv_def)
  have st: "store_ok ssl pw (file_data (c_world ?c) path) ?es" using cli_inv_log [OF inv] by simp
  obtain rc c' where "main ssl tss pam [''padlock'', ''get'', k, path] ?c = Some (rc, c')" "w_files (c_world c') = w_files (c_world ?c)"
    and "case lookup ?es k of Some v \<Rightarrow> rc = 0 \<and> c_out c' = c_out ?c @ v @ [of_char newline] | None \<Rightarrow> rc = 1 \<and> c_out c' = c_out ?c"
    by (rule main_get [OF i(2,1) st i(3,4), of "''padlock''" k])
  then show ?thesis by (cases "lookup ?es k") (simp_all add: cli_get_def)
qed

interpretation cli: keystore "cli_inv ssl tss pam user l key pw path" "cli_log ssl path pw" arguments
    "\<lambda>c. store_takes ssl path pw (c_world c)" "cli_put ssl tss pam l path" "cli_get ssl tss pam l path"
  for ssl tss pam user l key pw path
  by unfold_locales (rule cli_put_step, assumption+, rule cli_get_lookup)

end
