(* ===== verification/Padlock_First_Use.thy ===== *)
theory Padlock_First_Use
  imports Padlock_Login
begin

text \<open>
  The first command on a machine: no key is sealed yet and no store exists. \<open>padlock allocate\<close> seals a new
  key, derives the header password from it and makes the store, and leaves the machine in a state from
  which every later command finds both again.
\<close>

section \<open>A new key\<close>

text \<open>The directories in which the key is kept.\<close>

definition key_dirs :: "world \<Rightarrow> string set" where
  "key_dirs w = (case padlock_tpm_paths w of None \<Rightarrow> {} | Some (d, pp, qp) \<Rightarrow> {take i d |i. dir_prefix d i})"

text \<open>The home directory is ready for the key, and one of the two files is missing.\<close>

definition no_key :: "world \<Rightarrow> bool" where
  "no_key w \<longleftrightarrow> (\<exists>d pp qp. tpm_ready w d pp qp \<and> (w_files w pp = None \<or> w_files w qp = None))"

text \<open>The digest has the length of SHA-256.\<close>

definition hmac_works :: "'c openssl \<Rightarrow> bool" where
  "hmac_works ssl \<longleftrightarrow> (\<forall>key text. length key = 32 \<longrightarrow> (\<exists>md. HMAC_sha256 ssl key text = Some md \<and> length md = 32))"

text \<open>What making the key leaves as it was.\<close>

definition setup_frame :: "world \<Rightarrow> world \<Rightarrow> bool" where
  "setup_frame w w' \<longleftrightarrow> w_faults w' = [] \<and> w_env w' = w_env w \<and> w_suffixes w' = w_suffixes w \<and>
     (\<forall>p. p \<notin> key_files w \<longrightarrow> w_files w' p = w_files w p) \<and>
     (\<forall>p. w_dirs w' p = (if p \<in> key_dirs w then Some mode_0700 else w_dirs w p))"

lemma key_paths_env: "w_env w' = w_env w \<Longrightarrow> padlock_tpm_paths w' = padlock_tpm_paths w"
    "w_env w' = w_env w \<Longrightarrow> key_files w' = key_files w" "w_env w' = w_env w \<Longrightarrow> key_dirs w' = key_dirs w"
  by (simp_all add: key_files_def key_dirs_def padlock_tpm_paths_def getenv_def)

lemma no_key_ensure:
  assumes "tss_laws tss" "tpm_works tss" "w_faults (t_world s) = []" "no_key (t_world s)"
  obtains key s' where "padlock_tpm_ensure_sealed_key tss s = Some (Some key, s')" "length key = 32"
    "key_sealed tss (t_world s') key" "setup_frame (t_world s) (t_world s')"
proof -
  obtain d pp qp where r: "tpm_ready (t_world s) d pp qp" "w_files (t_world s) pp = None \<or> w_files (t_world s) qp = None"
    using assms(4) by (auto simp: no_key_def)
  define key where "key = map (\<lambda>i. w_rand (t_world s) (w_rpos (t_world s) + i)) [0..<32]"
  obtain s' pn qn where run: "padlock_tpm_ensure_sealed_key tss s = Some (Some key, s')" "w_faults (t_world s') = []"
    and f: "w_files (t_world s') = (w_files (t_world s))(pp \<mapsto> pn, qp \<mapsto> qn)" "sealed_in tss (fn_data pn) (fn_data qn) key"
    and e: "w_env (t_world s') = w_env (t_world s)" "pp \<noteq> qp" "w_dirs (t_world s') pp = None" "w_dirs (t_world s') qp = None"
    "w_suffixes (t_world s') = w_suffixes (t_world s)"
    "\<And>q. w_dirs (t_world s') q = (if \<exists>i. dir_prefix d i \<and> q = take i d then Some mode_0700 else w_dirs (t_world s) q)"
    by (rule ensure_fresh [OF assms(1-3) r key_def]) (rule that)
  have p: "padlock_tpm_paths (t_world s) = Some (d, pp, qp)" using r(1) by (simp add: tpm_ready_def)
  note sh = tpm_paths_shape [OF p]
  have "length (take i d) < length pp" "length (take i d) < length qp" for i by (simp_all add: sh)
  then have long: "take i d \<noteq> pp" "take i d \<noteq> qp" for i by (metis less_irrefl)+
  have "tpm_ready (t_world s') d pp qp"
    using r(1) long e(3,4) unfolding tpm_ready_def key_paths_env(1) [OF e(1)] f(1) by simp
  moreover have "w_files (t_world s') pp = Some pn" "w_files (t_world s') qp = Some qn" using f(1) e(2) by simp_all
  ultimately have "key_sealed tss (t_world s') key" using f(2) unfolding key_sealed_def by blast
  moreover have "setup_frame (t_world s) (t_world s')"
    using run(2) f(1) e(1,5,6) by (auto simp: setup_frame_def key_files_def key_dirs_def p)
  ultimately show ?thesis using that [OF run(1)] by (simp add: key_def)
qed

lemma setup_frame_leave [simp]: "setup_frame w (leave n b w') = setup_frame w w'"
  by (simp add: setup_frame_def leave_def)

lemma setup_frame_file_frame:
  assumes "file_frame w w1" "setup_frame w1 w2" "w_faults w = []"
  shows "setup_frame w w2"
  using assms key_paths_env [of w1 w] by (auto simp: setup_frame_def file_frame_def)

lemma derive_first:
  assumes "tss_laws tss" "tpm_works tss" "hmac_works ssl" and enters: "enters pam user l c" and "no_key (c_world c)"
    and len: "length hp = 65" "length reason = 256"
  obtains key md reason' c' where
    "derive_header_password ssl tss pam (Some user) (Some hp) 65 (Some reason) 256 c = Some (0, Some (hex md @ [NUL]), reason', c')"
    "HMAC_sha256 ssl key (bytes l) = Some md" "length md = 32" "key_sealed tss (c_world c') key"
    "setup_frame (c_world c) (c_world c')" "c_user c' = c_user c" "c_out c' = c_out c"
proof -
  have nf: "w_faults (c_world c) = []" using enters by (simp add: enters_def)
  obtain r' c1 where f: "con_frame c c1" and d: "\<And>key s md. padlock_tpm_ensure_sealed_key tss (c_tworld c1) = Some (Some key, s) \<Longrightarrow> length key = 32 \<Longrightarrow>
       HMAC_sha256 ssl key (bytes l) = Some md \<Longrightarrow> length md = 32 \<Longrightarrow>
       derive_header_password ssl tss pam (Some user) (Some hp) 65 (Some reason) 256 c = Some (0, Some (hex md @ [NUL]), r', logged_in s c1)"
    by (rule derive_entered [OF enters len, where tss = tss and ssl = ssl]) (rule that)
  have ff: "file_frame (c_world c) (c_world c1)" using f by (simp add: con_frame_def)
  have nk: "no_key (c_world c1)"
    using assms(5) ff key_paths_env(1) [of "c_world c1" "c_world c"] by (simp add: no_key_def tpm_ready_def file_frame_def)
  obtain key s where k: "padlock_tpm_ensure_sealed_key tss (c_tworld c1) = Some (Some key, s)" "length key = 32"
    "key_sealed tss (t_world s) key" "setup_frame (c_world c1) (t_world s)"
    by (rule no_key_ensure [OF assms(1,2) con_frame_no_faults [OF f nf] nk])
  obtain md where md: "HMAC_sha256 ssl key (bytes l) = Some md" "length md = 32" using assms(3) k(2) unfolding hmac_works_def by blast
  have "setup_frame (c_world c) (t_world s)" using setup_frame_file_frame [OF ff k(4) nf] .
  then show ?thesis
    by (rule_tac that [OF d [OF k(1,2) md] md]) (use k(3) f in \<open>simp_all add: logged_in_def leave_login_def con_frame_def\<close>)
qed


section \<open>A new store\<close>

text \<open>
  A machine on which the user can make his first store: the key is not there yet, the store is not in the
  way of the key, and its directory is there or can be made.
\<close>

definition vacant :: "world \<Rightarrow> string \<Rightarrow> bool" where
  "vacant w p \<longleftrightarrow> w_files w p = None \<and> w_dirs w p = None \<and> p \<notin> key_files w \<and> p \<notin> key_dirs w"

definition first_use :: "string \<Rightarrow> world \<Rightarrow> bool" where
  "first_use path w \<longleftrightarrow> no_key w \<and> path \<noteq> '''' \<and> length path + 11 < 4096 \<and> vacant w path \<and> parent_usable path w \<and>
     (\<forall>p. before_last_slash path = Some p \<longrightarrow> w_files w p = None \<and> p \<notin> key_files w) \<and>
     (\<exists>s\<in>set (w_suffixes w). vacant w (path @ ''.tmp.'' @ s))"

lemma first_use_errno [simp]: "first_use path (set_errno e w) = first_use path w"
proof -
  have p: "parent_exists q (set_errno e w) = parent_exists q w" for q by (simp add: parent_exists_def split: option.split)
  have "parent_usable path (set_errno e w) = parent_usable path w" by (simp add: parent_usable_def p split: option.split)
  then show ?thesis by (simp add: first_use_def no_key_def vacant_def tpm_ready_def key_paths_env [of "set_errno e w" w])
qed

lemma first_use_allocatable:
  assumes "first_use path w" "setup_frame w w'" "8192 \<le> unat sz" "seals ssl pw"
  shows "allocatable ssl path pw sz w'"
proof -
  have vac: "w_files w' p = None \<and> w_dirs w' p = None" if "vacant w p" for p
    using that assms(2) by (simp add: vacant_def setup_frame_def)
  have dirs: "w_dirs w p \<noteq> None \<Longrightarrow> w_dirs w' p \<noteq> None" for p using assms(2) by (simp add: setup_frame_def)
  then have "parent_exists p w'" if "parent_exists p w" for p
    using that by (auto simp: parent_exists_def split: option.splits)
  moreover have "w_files w' p = w_files w p" if "p \<notin> key_files w" for p using assms(2) that by (simp add: setup_frame_def)
  ultimately have "parent_usable path w'"
    using assms(1) dirs by (auto simp: first_use_def parent_usable_def split: option.splits)
  moreover have "w_suffixes w' = w_suffixes w" using assms(2) by (simp add: setup_frame_def)
  ultimately show ?thesis using assms(1,3,4) vac by (auto simp: first_use_def allocatable_def)
qed

text \<open>A new store leaves the key and the service file where they are.\<close>

lemma allocated_keeps_key:
  assumes "allocated ssl path pw sz w 0 w'" "w_faults w = []" "key_sealed tss w key" "path \<notin> key_files w" "path \<notin> key_dirs w"
    and "\<And>p. before_last_slash path = Some p \<Longrightarrow> p \<notin> key_files w"
  shows "key_sealed tss w' key" "key_files w' = key_files w"
proof -
  obtain d pp qp pn qn where k: "tpm_ready w d pp qp" "w_files w pp = Some pn" "w_files w qp = Some qn" "sealed_in tss (fn_data pn) (fn_data qn) key"
    using assms(3) by (auto simp: key_sealed_def)
  have p: "padlock_tpm_paths w = Some (d, pp, qp)" using k(1) by (simp add: tpm_ready_def)
  have off: "path \<noteq> pp" "path \<noteq> qp" "before_last_slash path \<noteq> Some pp" "before_last_slash path \<noteq> Some qp"
    using assms(4,6) by (auto simp: key_files_def p)
  have a: "w_env w' = w_env w" "\<And>q. q \<noteq> path \<Longrightarrow> w_files w q = None \<Longrightarrow> w_files w' q = None"
    "\<And>q. before_last_slash path \<noteq> Some q \<Longrightarrow> w_dirs w' q = w_dirs w q"
    "\<And>q. q \<noteq> path \<Longrightarrow> before_last_slash path \<noteq> Some q \<Longrightarrow> w_files w q \<noteq> None \<Longrightarrow> w_files w' q = w_files w q"
    using assms(1,2) by (simp_all add: allocated_def)
  have f: "w_files w' pp = Some pn" "w_files w' qp = Some qn" "w_dirs w' pp = None" "w_dirs w' qp = None"
    using a(3,4) off k by (simp_all add: tpm_ready_def)
  have "w_files w' (take i d) = None" if "dir_prefix d i" for i
  proof (rule a(2))
    show "take i d \<noteq> path" using assms(5) that by (auto simp: key_dirs_def p)
    show "w_files w (take i d) = None" using k(1) that by (simp add: tpm_ready_def)
  qed
  then have "tpm_ready w' d pp qp" using f(3,4) p by (simp add: tpm_ready_def key_paths_env(1) [OF a(1)])
  then show "key_sealed tss w' key" using f(1,2) k(4) unfolding key_sealed_def by blast
  show "key_files w' = key_files w" using a(1) by (rule key_paths_env)
qed

lemma authorize_first:
  assumes "tss_laws tss" "tpm_works tss" "hmac_works ssl" "enters pam user l c" "no_key (c_world c)"
    and "index < length argv" "argv ! index \<noteq> ''''" "length (argv ! index) < 4096"
  obtains key md c' where "authorize ssl tss pam user argv index c = Some (Inr (argv ! index, hex md @ [NUL], c'))"
    "HMAC_sha256 ssl key (bytes l) = Some md" "length md = 32" "key_sealed tss (c_world c') key"
    "setup_frame (c_world c) (c_world c')" "c_user c' = c_user c" "c_out c' = c_out c"
proof -
  have r: "resolve_path argv index 4096 (c_world c) = (0, Some (argv ! index), c_world c)"
    using assms(6-8) by (simp add: resolve_path_def snprintf_def)
  let ?hp = "chars (junk (c_world c) 65)" and ?r = "chars (junk (c_world c) 256)"
  obtain key md r' c' where d: "derive_header_password ssl tss pam (Some user) (Some ?hp) 65 (Some ?r) 256 c = Some (0, Some (hex md @ [NUL]), r', c')"
    and c': "HMAC_sha256 ssl key (bytes l) = Some md" "length md = 32" "key_sealed tss (c_world c') key"
    "setup_frame (c_world c) (c_world c')" "c_user c' = c_user c" "c_out c' = c_out c"
    by (rule derive_first [OF assms(1-5), of ?hp ?r]) auto
  have "authorize ssl tss pam user argv index c = Some (Inr (argv ! index, hex md @ [NUL], c'))"
    using r d by (simp add: authorize_def)
  then show ?thesis using c' by (rule that)
qed

lemma service_asks_files:
  "service_asks user w \<Longrightarrow> w_files w' ''/etc/pam.d/padlock'' = w_files w ''/etc/pam.d/padlock'' \<Longrightarrow> service_asks user w'"
  by (simp add: service_asks_def)

lemma service_not_key: "''/etc/pam.d/padlock'' \<notin> key_files w"
proof -
  have "p \<noteq> ''/etc/pam.d/padlock''" if "p \<in> key_files w" for p
  proof -
    have "p = d @ ''/header-hmac.pub'' \<or> p = d @ ''/header-hmac.priv''" if "padlock_tpm_paths w = Some (d, pp, qp)" for d pp qp
      using \<open>p \<in> key_files w\<close> that tpm_paths_shape(1,2) [OF that] by (simp add: key_files_def)
    then have "last p \<noteq> CHR ''k''" using that by (fastforce simp: key_files_def split: option.splits)
    then show ?thesis by auto
  qed
  then show ?thesis by blast
qed

lemma first_allocate:
  assumes laws: "tss_laws tss" "tpm_works tss" "hmac_works ssl" "ssl_laws ssl" "\<And>pw. length pw = 64 \<Longrightarrow> seals ssl pw"
    and enters: "enters pam user l c" and first: "first_use path (c_world c)"
    and amount: "padlock_parse_size (Some amount) True (c_world c) = (0, Some sz, w0)" "8192 \<le> unat sz" "unat sz < 2 ^ 63"
  obtains key pw c' where "main ssl tss pam [''padlock'', ''allocate'', amount, path] c = Some (0, c')"
    "c_out c' = c_out c @ bytes (''allocated '' @ path @ [newline])" "cli_inv ssl tss pam user l key pw path c'"
    "cli_log ssl path pw c' = []"
proof -
  let ?c0 = "upd_cworld (set_errno 0) c" and ?argv = "[''padlock'', ''allocate'', amount, path]"
  have e0: "enters pam user l ?c0" "first_use path (c_world ?c0)"
    using enters first by (simp_all add: enters_def service_asks_def)
  have w0: "w0 = set_errno 0 (c_world c)"
    using amount(1) by (auto simp: padlock_parse_size_def Let_def split: if_splits option.splits prod.splits)
  have fu: "no_key (c_world ?c0)" "path \<noteq> ''''" "length path < 4096" using e0(2) by (simp_all add: first_use_def)
  obtain key md c1 where a: "authorize ssl tss pam user ?argv 3 ?c0 = Some (Inr (path, hex md @ [NUL], c1))"
    and md: "HMAC_sha256 ssl key (bytes l) = Some md" "length md = 32" and k: "key_sealed tss (c_world c1) key"
    "setup_frame (c_world ?c0) (c_world c1)" "c_user c1 = c_user ?c0" "c_out c1 = c_out ?c0"
    by (rule authorize_first [OF laws(1-3) e0(1) fu(1), of 3 ?argv]) (use fu in auto)
  have nf: "w_faults (c_world c1) = []" using k(2) by (simp add: setup_frame_def)
  obtain w where al: "padlock_allocate ssl (Some path) sz (Some (hex md)) (c_world c1) = Some (0, w)" "allocated ssl path (hex md) sz (c_world c1) 0 w"
    using padlock_allocate_log [OF laws(4) amount(3), of path "hex md" "c_world c1"] nf
      first_use_allocatable [OF e0(2) k(2) amount(2) laws(5), of "hex md"] md(2) by auto
  let ?c2 = "upd_cworld (leave ''header_password'' (replicate 65 0)) (upd_cworld (\<lambda>_. w) c1)"
  let ?c3 = "oprint (bytes (''allocated '' @ path @ [newline])) ?c2"
  have user: "c_user c = Some user" using enters by (simp add: enters_def)
  have run: "main ssl tss pam ?argv c = Some (0, ?c3)"
    using user amount(1) w0 a al(1) md(2) hex_c_string [of md] by (simp add: main_def allocate_command_def zero_header_password_def)
  obtain n where n: "w_files w path = Some n" "store_ok ssl (hex md) (fn_data n) []" using al(2) by (auto simp: allocated_def)
  then have st: "store_ok ssl (hex md) (file_data (c_world ?c3) path) []" by (simp add: file_data_def oprint_def)
  have env: "key_files (c_world c1) = key_files (c_world c)" "key_dirs (c_world c1) = key_dirs (c_world c)"
    using k(2) key_paths_env [of "c_world c1" "c_world c"] by (simp_all add: setup_frame_def)
  have "key_sealed tss w key" "key_files w = key_files (c_world c1)"
    by (rule allocated_keeps_key [OF al(2) nf k(1)]; use first in \<open>auto simp: env first_use_def vacant_def\<close>)+
  then have sealed: "key_sealed tss (c_world ?c3) key" "path \<notin> key_files (c_world ?c3)"
    using first env by (simp_all add: oprint_def first_use_def vacant_def)
  obtain sf where sf: "w_files (c_world c) ''/etc/pam.d/padlock'' = Some sf" using enters by (auto simp: enters_def service_asks_def)
  then have off: "path \<noteq> ''/etc/pam.d/padlock''" "before_last_slash path \<noteq> Some ''/etc/pam.d/padlock''"
    using first by (auto simp: first_use_def vacant_def)
  have "w_files (c_world c1) ''/etc/pam.d/padlock'' = Some sf"
    using k(2) sf service_not_key [of "set_errno 0 (c_world c)"] by (simp add: setup_frame_def)
  then have "w_files w ''/etc/pam.d/padlock'' = w_files (c_world c) ''/etc/pam.d/padlock''"
    using al(2) off sf by (simp add: allocated_def)
  then have "service_asks user (c_world ?c3)"
    by (rule_tac service_asks_files [of user "c_world c"]) (use enters in \<open>simp_all add: enters_def oprint_def\<close>)
  moreover have "w_faults w = []" using al(2) nf by (simp add: allocated_def)
  ultimately have "logs_in ssl tss pam user l key (hex md) (?c3\<lparr>c_stdin := l @ [newline]\<rparr>)"
    using enters k(3) sealed(1) md by (simp add: logs_in_def enters_def oprint_def)
  then have "cli_inv ssl tss pam user l key (hex md) path ?c3"
    using laws(4) st fu off(1) sealed(2) by (auto simp: cli_inv_def)
  moreover have "cli_log ssl path (hex md) ?c3 = []"
    unfolding cli_log_def by (rule store_log_eq [OF laws(4) st])
  ultimately show ?thesis by (rule_tac that [OF run]) (simp_all add: oprint_def k(4))
qed

end
