(* ===== verification/Padlock_Cli_Theorems.thy ===== *)
theory Padlock_Cli_Theorems
  imports Padlock_First_Use
begin

text \<open>
  The properties of the command line program, applied to a machine with a small PAM that knows one
  password, the sample TPM with a sealed key, and a store under the password these two give.
\<close>

section \<open>A sample machine\<close>

text \<open>PAM prompts once, without echo, and compares the answer.\<close>

definition sample_pam :: "string \<Rightarrow> pam" where
  "sample_pam secret =
     \<lparr>PAM_start = (\<lambda>_ _. 0),
      PAM_authenticate = (\<lambda>_ _ conv w.
        case conv 1 (Some [1]) True w of
          None \<Rightarrow> None
        | Some ((code, responses), w) \<Rightarrow> Some (if responses = Some [Some (bytes secret @ [0])] then 0 else 7, w)),
      PAM_strerror = (\<lambda>_. Some ''Authentication failure'')\<rparr>"

definition no_pam :: pam where
  "no_pam = (sample_pam [])\<lparr>PAM_start := (\<lambda>_ _. 26)\<rparr>"

definition sample_pw :: string where
  "sample_pw = hex (replicate 32 (mask_byte (replicate 32 0) (bytes ''secret'')))"

definition sample_console :: console where
  "sample_console =
     \<lparr>c_user = Some ''me'', c_tty = True, c_echo = True, c_stdin = ''secret'' @ [newline], c_out = [], c_err = '''', c_pam = 0,
      c_tworld = \<lparr>t_tcti = 0, t_esys = 0, t_handles = 0, t_unflushed = 0,
        t_world = home_world\<lparr>w_files :=
          [''/etc/pam.d/padlock'' \<mapsto> \<lparr>fn_data = bytes (text_of [''auth required pam_unix.so'']), fn_mode = 420\<rparr>,
           sample_pub \<mapsto> \<lparr>fn_data = [1], fn_mode = 420\<rparr>, sample_priv \<mapsto> \<lparr>fn_data = replicate 32 0, fn_mode = 420\<rparr>,
           ''/s/p'' \<mapsto> \<lparr>fn_data = sample_image_for sample_pw, fn_mode = 384\<rparr>]\<rparr>\<rparr>\<rparr>"

lemma sample_pam_laws: "pam_laws (sample_pam secret)"
proof -
  have "\<exists>r w'. PAM_authenticate (sample_pam secret) service user conv w = Some (r, w') \<and> file_frame w w'" if "conv_ok conv" for service user conv w
  proof -
    have "\<exists>r w'. conv (int (length [1::int])) (Some [1]) True w = Some (r, w') \<and> file_frame w w'"
      using that unfolding conv_ok_def by blast
    then obtain code responses w' where "conv 1 (Some [1]) True w = Some ((code, responses), w')" "file_frame w w'" by auto
    then show ?thesis by (simp add: sample_pam_def)
  qed
  then show ?thesis by (simp add: pam_laws_def)
qed

lemma sample_admits: "admits (sample_pam secret) user secret"
proof -
  have "\<exists>w'. PAM_authenticate (sample_pam secret) ''padlock'' user (pam_password_conversation (Some (Some secret))) w = Some (0, w') \<and> file_frame w w'"
    if "w_faults w = []" for w
  proof -
    let ?b = "bytes secret @ [0]"
    have m: "calloc 16 w = (Some (replicate 16 0), w\<lparr>w_live := Suc (w_live w)\<rparr>)" using that by (simp add: calloc_def)
    have "\<exists>b w'. malloc (Suc (length secret)) (w\<lparr>w_live := Suc (w_live w)\<rparr>) = (Some b, w') \<and> length b = Suc (length secret) \<and> file_frame w w'"
      using that by (simp add: malloc_def file_frame_def)
    then obtain b w' where b: "malloc (Suc (length secret)) (w\<lparr>w_live := Suc (w_live w)\<rparr>) = (Some b, w')" "length b = Suc (length secret)" "file_frame w w'"
      by blast
    have "pam_password_conversation (Some (Some secret)) 1 (Some [1]) True w = Some ((0, Some [Some ?b]), w')"
      using m b(1,2) by (simp add: pam_password_conversation_def window_def)
    then show ?thesis using b(3) by (simp add: sample_pam_def)
  qed
  then show ?thesis by (simp add: admits_def) (simp add: sample_pam_def)
qed

lemma short_me: "typable ''secret''" "length sample_pw = 64" "sample_pw \<noteq> ''''"
proof -
  show "typable ''secret''" by (simp add: typable_def)
  show l: "length sample_pw = 64" by (simp add: sample_pw_def)
  then show "sample_pw \<noteq> ''''" by auto
qed

lemma trim_simps [simp]: "trim ''auth required pam_unix.so'' = ''auth required pam_unix.so''"
  by (simp add: trim_def isspace_def)

lemma sample_asks: "service_asks ''me'' (c_world sample_console)"
proof -
  have "short_line ''auth required pam_unix.so''" "\<not> harmless ''me'' ''auth required pam_unix.so''"
    by (simp_all add: short_line_def harmless_def service_line_def)
  then show ?thesis by (auto simp: service_asks_def sample_console_def intro!: exI [of _ "[''auth required pam_unix.so'']"])
qed

lemma sample_no_prefix:
  assumes "dir_prefix sample_dir i"
  shows "w_files (c_world sample_console) (take i sample_dir) = None"
proof -
  have "take i sample_dir \<noteq> ''/etc/pam.d/padlock''" "take i sample_dir \<noteq> sample_pub" "take i sample_dir \<noteq> sample_priv" "take i sample_dir \<noteq> ''/s/p''"
    by (rule take_differs; simp)+
  then show ?thesis by (simp add: sample_console_def)
qed

lemma sample_key_sealed: "key_sealed sample_tss (c_world sample_console) (replicate 32 0)"
proof -
  have "tpm_ready (c_world sample_console) sample_dir sample_pub sample_priv"
    using sample_no_prefix by (simp add: tpm_ready_def sample_console_def home_world_def padlock_tpm_paths_def snprintf_def getenv_def)
  moreover have "sealed_in sample_tss [1] (replicate 32 0) (replicate 32 0)"
    by (simp add: sealed_in_def sample_tss_def)
  ultimately show ?thesis
    unfolding key_sealed_def
    by (intro exI [of _ sample_dir] exI [of _ sample_pub] exI [of _ sample_priv] exI [of _ "\<lparr>fn_data = [1], fn_mode = 420\<rparr>"]
        exI [of _ "\<lparr>fn_data = replicate 32 0, fn_mode = 420\<rparr>"]) (simp add: sample_console_def)
qed

lemma sample_login: "logs_in sample_ssl sample_tss (sample_pam ''secret'') ''me'' ''secret'' (replicate 32 0) sample_pw sample_console"
proof -
  have "c_user sample_console = Some ''me''" "w_faults (c_world sample_console) = []" "c_stdin sample_console = ''secret'' @ newline # []"
    by (simp_all add: sample_console_def home_world_def)
  moreover have "HMAC_sha256 sample_ssl (replicate 32 0) (bytes ''secret'') = Some (replicate 32 (mask_byte (replicate 32 0) (bytes ''secret'')))"
    by (simp add: sample_ssl_def)
  ultimately show ?thesis
    using sample_asks short_me(1) sample_pam_laws sample_admits sample_key_sealed by (simp add: logs_in_def enters_def sample_pw_def)
qed

lemma sample_data: "file_data (c_world sample_console) ''/s/p'' = sample_image_for sample_pw"
  by (simp add: sample_console_def file_data_def)

lemma sample_cli_inv: "cli_inv sample_ssl sample_tss (sample_pam ''secret'') ''me'' ''secret'' (replicate 32 0) sample_pw ''/s/p'' sample_console"
proof -
  have "sample_console\<lparr>c_stdin := ''secret'' @ [newline]\<rparr> = sample_console" by (simp add: sample_console_def)
  moreover have "''/s/p'' \<notin> key_files (c_world sample_console)"
    by (simp add: key_files_def sample_console_def home_world_def padlock_tpm_paths_def snprintf_def getenv_def)
  ultimately show ?thesis
    using sample_login sample_laws sample_store_for(3) [OF short_me(3)] by (auto simp: cli_inv_def sample_data)
qed

lemma sample_cli_log: "cli_log sample_ssl ''/s/p'' sample_pw sample_console = []"
  unfolding cli_log_def by (rule store_log_eq [OF sample_laws]) (simp add: sample_data sample_store_for(3) [OF short_me(3)])

section \<open>Sessions of a user\<close>

text \<open>
  C7: the program as a keystore, from the command line down to the store file: in any sequence of
  \<open>padlock set\<close> commands at which the user types his password, with arguments below \<open>2 ^ 31\<close> bytes and whatever
  the length of the keys, no run has undefined behaviour, and afterwards \<open>padlock get\<close> prints the value of the
  last one of that key that succeeded, or what the store held before; and a \<open>padlock set\<close> succeeds exactly when
  the key has 1 to 255 bytes, the record fits and the cipher accepts it.
\<close>

theorem cli_session:
  assumes "cli_inv ssl tss pam user l key pw path c" "\<forall>(k, v)\<in>set es. arguments k v"
  shows "(\<exists>oks c'. puts (cli_put ssl tss pam l path) es c = Some (oks, c') \<and> length oks = length es \<and>
      cli_inv ssl tss pam user l key pw path c' \<and>
      (\<forall>k. cli_get ssl tss pam l path k c' = Some (lookup (cli_log ssl path pw c @ accepted oks es) k))) \<and>
    (\<forall>(k, v)\<in>set es. \<exists>c'. cli_put ssl tss pam l path k v c =
      Some (valid_entry k v \<and> accepts ssl pw (file_data (c_world c) path) k v, c'))"
proof
  show "\<exists>oks c'. puts (cli_put ssl tss pam l path) es c = Some (oks, c') \<and> length oks = length es \<and>
      cli_inv ssl tss pam user l key pw path c' \<and>
      (\<forall>k. cli_get ssl tss pam l path k c' = Some (lookup (cli_log ssl path pw c @ accepted oks es) k))"
    using cli.get_puts [OF assms] by blast
  show "\<forall>(k, v)\<in>set es. \<exists>c'. cli_put ssl tss pam l path k v c =
      Some (valid_entry k v \<and> accepts ssl pw (file_data (c_world c) path) k v, c')"
    using cli.put_step [OF assms(1)] assms(2) by (fastforce simp: store_takes_def)
qed

theorem cli_session_witness:
  "\<exists>c'. puts (cli_put sample_ssl sample_tss (sample_pam ''secret'') ''secret'' ''/s/p'') [(''k'', [7, 8])] sample_console = Some ([True], c') \<and>
     cli_get sample_ssl sample_tss (sample_pam ''secret'') ''secret'' ''/s/p'' ''k'' c' = Some (Some [7, 8])"
proof -
  have "arguments ''k'' [7, 8]" by (simp add: arguments_def in_range_def)
  then have s: "(\<exists>oks c'. puts (cli_put sample_ssl sample_tss (sample_pam ''secret'') ''secret'' ''/s/p'') [(''k'', [7, 8])] sample_console = Some (oks, c') \<and>
      (\<forall>k. cli_get sample_ssl sample_tss (sample_pam ''secret'') ''secret'' ''/s/p'' k c' = Some (lookup (accepted oks [(''k'', [7, 8])]) k)))"
    "\<exists>c'. cli_put sample_ssl sample_tss (sample_pam ''secret'') ''secret'' ''/s/p'' ''k'' [7, 8] sample_console = Some (True, c')"
    using cli_session [OF sample_cli_inv, of "[(''k'', [7, 8])]"] sample_cli_log sample_valid sample_accepts_for [OF short_me(3)]
    by (auto simp: sample_data)
  then show ?thesis by (auto simp: lookup_def)
qed

section \<open>Authentication\<close>




text \<open>
  C20: \<open>pam_service_is_passwordless_for_user\<close> on a service file of lines that fit its buffer, without failing
  calls: the answer is 1 exactly when every line is blank, a comment or, without the white space around it,
  the line \<open>auth required pam_succeed_if.so user = <name>\<close>.
\<close>

theorem service_file_decides:
  assumes "w_faults w = []" "w_files w ''/etc/pam.d/padlock'' = Some n" "fn_data n = bytes (text_of ls)"
    and "\<forall>l\<in>set ls. length l < 511 \<and> newline \<notin> set l \<and> NUL \<notin> set l" "user \<noteq> ''''" "length user < 345"
  shows "pam_service_is_passwordless_for_user (Some user) w =
    Some (if \<forall>l\<in>set ls. trim l = '''' \<or> hd (trim l) = CHR ''#'' \<or> trim l = ''auth required pam_succeed_if.so user = '' @ user
          then 1 else 0, w)"
  using service_lines [OF assms(1-3) _ assms(5,6)] assms(4) unfolding short_line_def harmless_def service_line_def by blast

theorem service_file_decides_witness:
  "pam_service_is_passwordless_for_user (Some ''me'') (c_world sample_console) = Some (0, c_world sample_console)"
proof -
  have f: "w_files (c_world sample_console) ''/etc/pam.d/padlock'' = Some \<lparr>fn_data = bytes (text_of [''auth required pam_unix.so'']), fn_mode = 420\<rparr>"
    by (simp add: sample_console_def)
  show ?thesis using service_file_decides [OF _ f, of "[''auth required pam_unix.so'']" "''me''"] by (simp add: sample_console_def home_world_def)
qed

text \<open>
  C19: the test for users without a password fails open: if the service file has no line but blanks and
  comments, or if the first read of it fails, then the program does not authenticate at all: whatever it is
  called with, it does the same under every PAM, also one that refuses everybody.
\<close>

theorem service_check_fails_open:
  assumes "c_user c = Some user" "user \<noteq> ''''" "length user < 345" "w_files (c_world c) ''/etc/pam.d/padlock'' = Some n"
    and "w_faults (c_world c) = [] \<and> fn_data n = bytes (text_of ls) \<and>
         (\<forall>l\<in>set ls. short_line l \<and> (trim l = '''' \<or> hd (trim l) = CHR ''#'')) \<or>
         w_faults (c_world c) = Pass # Fail e # fs"
  shows "main ssl tss pam argv c = main ssl tss pam' argv c"
proof -
  have "passwordless user (c_world c)"
  proof (cases "w_faults (c_world c) = []")
    case True
    with assms(5) have ls: "fn_data n = bytes (text_of ls)" "\<forall>l\<in>set ls. short_line l" "\<forall>l\<in>set ls. harmless user l" by (auto simp: harmless_def)
    have "pam_service_is_passwordless_for_user (Some user) (set_errno e (c_world c)) = Some (1, set_errno e (c_world c))" for e
      using service_lines [of "set_errno e (c_world c)" n ls user] True assms(2-4) ls by simp
    then show ?thesis by (simp add: passwordless_def)
  next
    case False
    have "\<exists>w'. pam_service_is_passwordless_for_user (Some user) (set_errno i (c_world c)) = Some (1, w')" for i
      using service_read_error [of "set_errno i (c_world c)" n e fs user] False assms(2-5) by simp
    then show ?thesis by (simp add: passwordless_def)
  qed
  then show ?thesis by (rule main_passwordless [OF assms(1) _ assms(2)])
qed

theorem service_check_fails_open_witness:
  "main sample_ssl sample_tss no_pam [''padlock'', ''get'', ''k'', ''/s/p''] (upd_cworld (\<lambda>w. w\<lparr>w_faults := [Pass, Fail EIO]\<rparr>) sample_console) =
   main sample_ssl sample_tss (sample_pam ''secret'') [''padlock'', ''get'', ''k'', ''/s/p''] (upd_cworld (\<lambda>w. w\<lparr>w_faults := [Pass, Fail EIO]\<rparr>) sample_console)"
  by (rule service_check_fails_open [where user = "''me''" and e = EIO and fs = "[]"]) (simp_all add: sample_console_def)

text \<open>
  C21: the conversation function answers every prompt with a copy of the password and every other message with
  nothing, and then owns the array and one block per prompt; or it fails, and has freed every block it allocated.
\<close>

theorem conversation_balanced:
  assumes "num_msg = int (length msg)"
  shows "\<exists>code responses w'. pam_password_conversation (Some (Some password)) num_msg (Some msg) resp w = Some ((code, responses), w') \<and>
    (case responses of
       Some rs \<Rightarrow> code = PAM_SUCCESS \<and> rs = map (\<lambda>style. if prompts style then Some (bytes password @ [0]) else None) msg \<and>
         w_live w' = w_live w + 1 + length (filter prompts msg)
     | None \<Rightarrow> (code = PAM_BUF_ERR \<or> code = PAM_CONV_ERR) \<and> w_live w' = w_live w)"
proof -
  obtain r w' where r: "pam_password_conversation (Some (Some password)) num_msg (Some msg) resp w = Some (r, w')" "answered password msg w r w'"
    by (rule conversation_answers [OF assms])
  then show ?thesis by (cases r) (auto simp: answered_def answer_to_def [abs_def] split: option.splits)
qed

theorem conversation_balanced_witness:
  "\<exists>w'. pam_password_conversation (Some (Some ''secret'')) 2 (Some [1, 9]) True (c_world sample_console) = Some ((PAM_CONV_ERR, None), w') \<and>
     w_live w' = 0"
proof -
  let ?w = "c_world sample_console"
  have w: "w_live ?w = 0" "w_faults ?w = []" by (simp_all add: sample_console_def home_world_def)
  have "\<exists>w'. pam_password_conversation (Some (Some ''secret'')) 2 (Some [1, 9]) True ?w = Some ((PAM_CONV_ERR, None), w')"
    using w(2) by (simp add: pam_password_conversation_def calloc_def malloc_def numeral_2_eq_2 window_def)
  then show ?thesis using conversation_balanced [of 2 "[1, 9]" "''secret''" True ?w] w(1) by auto
qed

text \<open>
  A path on the command line that does not fit the buffer is cut off without an error: the program works on
  the store named by its first 4095 characters.
\<close>

theorem long_path_is_truncated:
  assumes "index < length argv" "4096 \<le> length (argv ! index)" "length (argv ! index) < 2 ^ 31"
  shows "resolve_path argv index 4096 w = (0, Some (take 4095 (argv ! index)), w)"
  using assms by (cases "argv ! index") (auto simp: resolve_path_def snprintf_def)

section \<open>The first command\<close>

text \<open>
  C9: a new machine can be put to use: with OpenSSL and the TPM working, a user whose password PAM admits and
  no failing calls, \<open>padlock allocate\<close> of at least 8 KB on a machine with no key and no store succeeds and says
  so, and from then on the commands are a keystore that starts out empty: \<open>padlock get\<close> after any sequence of
  \<open>padlock set\<close> commands prints the last value of the key that was accepted.
\<close>

theorem first_allocate_opens_a_keystore:
  assumes "ssl_laws ssl" "hmac_works ssl" "tss_laws tss" "tpm_works tss" "\<And>pw. length pw = 64 \<Longrightarrow> seals ssl pw"
    and "enters pam user l c" "first_use path (c_world c)"
    and "padlock_parse_size (Some amount) True (c_world c) = (0, Some sz, w0)" "8192 \<le> unat sz" "unat sz < 2 ^ 63"
  shows "\<exists>c'. main ssl tss pam [''padlock'', ''allocate'', amount, path] c = Some (0, c') \<and>
    c_out c' = c_out c @ bytes (''allocated '' @ path @ [newline]) \<and>
    (\<exists>key pw. cli_inv ssl tss pam user l key pw path c') \<and>
    (\<forall>es. (\<forall>(k, v)\<in>set es. arguments k v) \<longrightarrow>
       (\<exists>oks c''. puts (cli_put ssl tss pam l path) es c' = Some (oks, c'') \<and> length oks = length es \<and>
          (\<forall>k. cli_get ssl tss pam l path k c'' = Some (lookup (accepted oks es) k))))"
proof -
  obtain key pw c' where run: "main ssl tss pam [''padlock'', ''allocate'', amount, path] c = Some (0, c')"
    "c_out c' = c_out c @ bytes (''allocated '' @ path @ [newline])"
    and inv: "cli_inv ssl tss pam user l key pw path c'" "cli_log ssl path pw c' = []"
    by (rule first_allocate [OF assms(3,4,2,1) _ assms(6-10)]) (rule assms(5))
  show ?thesis
  proof (intro exI [of _ c'] conjI allI impI)
    fix es :: "entry list"
    assume "\<forall>(k, v)\<in>set es. arguments k v"
    from cli.get_puts [OF inv(1) this]
    show "\<exists>oks c''. puts (cli_put ssl tss pam l path) es c' = Some (oks, c'') \<and> length oks = length es \<and>
          (\<forall>k. cli_get ssl tss pam l path k c'' = Some (lookup (accepted oks es) k))"
      unfolding inv(2) append_Nil by blast
  qed (use run inv in auto)
qed

text \<open>A machine with nothing but the service file.\<close>

definition new_console :: console where
  "new_console = sample_console\<lparr>c_tworld := \<lparr>t_tcti = 0, t_esys = 0, t_handles = 0, t_unflushed = 0,
     t_world = home_world\<lparr>w_suffixes := [''abcdef''],
       w_files := [''/etc/pam.d/padlock'' \<mapsto> \<lparr>fn_data = bytes (text_of [''auth required pam_unix.so'']), fn_mode = 420\<rparr>]\<rparr>\<rparr>\<rparr>"

lemma new_enters: "enters (sample_pam ''secret'') ''me'' ''secret'' new_console"
proof -
  have "service_asks ''me'' (c_world new_console)"
    by (rule service_asks_files [OF sample_asks]) (simp add: new_console_def sample_console_def)
  then show ?thesis
    using short_me(1) sample_pam_laws sample_admits by (simp add: enters_def) (simp add: new_console_def sample_console_def home_world_def)
qed

lemma new_first_use: "first_use ''/h/p'' (c_world new_console)"
proof -
  let ?w = "c_world new_console"
  have paths: "padlock_tpm_paths ?w = Some (sample_dir, sample_pub, sample_priv)"
    by (simp add: new_console_def home_world_def padlock_tpm_paths_def snprintf_def getenv_def)
  have "take i sample_dir \<noteq> ''/etc/pam.d/padlock''" "take i sample_dir \<noteq> ''/h/p''" "take i sample_dir \<noteq> ''/h/p.tmp.abcdef''" for i
    by (rule take_differs; simp)+
  note off = this
  have "tpm_ready ?w sample_dir sample_pub sample_priv"
    using paths off(1) by (simp add: tpm_ready_def) (simp add: new_console_def home_world_def)
  moreover have "w_files ?w sample_pub = None" by (simp add: new_console_def)
  ultimately have "no_key ?w" unfolding no_key_def by blast
  moreover have "vacant ?w p" if "p = ''/h/p'' \<or> p = ''/h/p.tmp.abcdef''" for p
  proof -
    have "p \<notin> key_dirs ?w" using that off(2,3) unfolding key_dirs_def paths by auto
    moreover have "p \<notin> key_files ?w" using that unfolding key_files_def paths by auto
    moreover have "w_files ?w p = None" "w_dirs ?w p = None" using that by (auto simp: new_console_def home_world_def)
    ultimately show ?thesis by (simp add: vacant_def)
  qed
  then have "vacant ?w ''/h/p''" "vacant ?w ''/h/p.tmp.abcdef''" by blast+
  moreover have slash: "before_last_slash ''/h/p'' = Some ''/h''" by (simp add: before_last_slash_def)
  moreover have "parent_usable ''/h/p'' ?w" by (simp add: parent_usable_def slash) (simp add: new_console_def home_world_def)
  moreover have "''/h'' \<notin> key_files ?w" "w_files ?w ''/h'' = None" by (simp_all add: key_files_def paths) (simp add: new_console_def)
  moreover have "w_suffixes ?w = [''abcdef'']" by (simp add: new_console_def)
  ultimately show ?thesis by (simp add: first_use_def)
qed

theorem first_allocate_opens_a_keystore_witness:
  "\<exists>c'. main sample_ssl sample_tss (sample_pam ''secret'') [''padlock'', ''allocate'', ''8K'', ''/h/p''] new_console = Some (0, c') \<and>
     cli_get sample_ssl sample_tss (sample_pam ''secret'') ''secret'' ''/h/p'' ''k'' c' = Some None"
proof -
  have l: "map tolower ''K'' = ''k''" by code_simp
  have "decimal ''8'' = 8" "size_unit ''K'' = Some 1024" "list_all isdigit ''8''" "\<not> isdigit (hd ''K'')"
    unfolding size_unit_def l Let_def by (simp_all add: decimal_def isdigit_def)
  then obtain w0 where "padlock_parse_size (Some ''8K'') True (c_world new_console) = (0, Some 8192, w0)"
    using parse_size_digits [of "''8''" "''K''" "c_world new_console"] by auto
  moreover have "hmac_works sample_ssl" by (simp add: hmac_works_def sample_ssl_def)
  moreover have "seals sample_ssl pw" if "length pw = 64" for pw using that by (intro sample_seals) auto
  ultimately obtain c' where "main sample_ssl sample_tss (sample_pam ''secret'') [''padlock'', ''allocate'', ''8K'', ''/h/p''] new_console = Some (0, c')"
    and g: "\<forall>es. (\<forall>(k, v)\<in>set es. arguments k v) \<longrightarrow>
       (\<exists>oks c''. puts (cli_put sample_ssl sample_tss (sample_pam ''secret'') ''secret'' ''/h/p'') es c' = Some (oks, c'') \<and> length oks = length es \<and>
          (\<forall>k. cli_get sample_ssl sample_tss (sample_pam ''secret'') ''secret'' ''/h/p'' k c'' = Some (lookup (accepted oks es) k)))"
    using first_allocate_opens_a_keystore [OF sample_laws _ sample_tss_laws sample_works _ new_enters new_first_use, of "''8K''" 8192]
    by auto
  then show ?thesis using g [rule_format, of "[]"] by (auto simp: lookup_def)
qed

end
