(* ===== verification/Spec2Isabelle.thy ===== *)
theory Spec2Isabelle
  imports Padlock_Theorems Padlock_Probes Padlock_Cli_Theorems
begin

text \<open>
  Verification of Padlock, an encrypted key/value store in a file with a key sealed by the TPM and a
  kernel module that guards the file.

  \<^bold>\<open>The program.\<close> The library \<^verbatim>\<open>src/src/padlock.c\<close> keeps a store file: a header of 4096 bytes (sizes,
  salt, IV and the store key sealed under a header password) followed by an append-only sequence of
  encrypted records up to the header's write offset. \<open>padlock_allocate\<close> creates a store in a
  temporary file and renames it into place, \<open>padlock_set\<close> appends a record and then moves the
  write offset, \<open>padlock_get\<close> decrypts the records in order and returns the last one with the key.
  The header password is the keyed digest of the login password or of the user name, under a key
  that \<open>padlock_tpm_ensure_sealed_key\<close> keeps sealed by the TPM in two files. The command line program
  \<^verbatim>\<open>src/src/padlock_cli.c\<close> reads the login password, has PAM check it, derives the header password and calls
  one of the three operations; where the PAM service file names the user as password-less it asks for
  none. The kernel module
  \<^verbatim>\<open>src/kernel/guard/hardcode_padlock_guard.c\<close> keeps a table of protected inodes and their write sessions,
  which processes change by ioctl requests, and probes security hooks of the kernel to refuse
  writes by processes without the session.

  \<^bold>\<open>Theories and what they model.\<close>
  \<^item> \<^verbatim>\<open>Padlock_Prelude\<close>: machine words, byte buffers with checked reads and writes, strings as bytes.
  \<^item> \<^verbatim>\<open>Padlock_Codec\<close>: \<open>align16\<close>, \<open>put_u32\<close>, \<open>get_u32\<close>, \<open>put_u64\<close>, \<open>get_u64\<close>, \<open>padlock_constant_time_equals\<close>,
    \<open>padlock_secure_zero\<close>. The locale \<open>field_codec\<close> has the laws of a little-endian field and is
    interpreted on both widths.
  \<^item> \<^verbatim>\<open>Padlock_World\<close>: files, directories, buffered streams, memory, the random source and \<open>errno\<close>, as one
    record; every fallible call takes its outcome from a list of faults, so that a theorem about
    all worlds is one about all sequences of failures.
  \<^item> \<^verbatim>\<open>Padlock_Header\<close>: the header record, \<open>write_header\<close> and \<open>read_header\<close>.
  \<^item> \<^verbatim>\<open>Padlock_Crypto\<close>: \<open>derive_header_key\<close>, \<open>encrypt_secret\<close>, \<open>decrypt_secret\<close>, \<open>crypt_xts\<close>, with OpenSSL as a
    parameter and its documented behaviour as \<open>ssl_laws\<close>.
  \<^item> \<^verbatim>\<open>Padlock_Store\<close>: \<open>ensure_parent_directory\<close>, \<open>write_urandom_bytes\<close>, \<open>padlock_allocate\<close>, \<open>padlock_set\<close>,
    \<open>padlock_get\<close>, with the termination of their loops.
  \<^item> \<^verbatim>\<open>Padlock_Log\<close>: the abstract view of a store file as a list of entries (\<open>store_ok\<close>), and the locale
    \<open>keystore\<close>: what puts and gets of admissible entries promise, a call with undefined behaviour being no
    result at all, with the behaviour of sequences of puts proved once.
  \<^item> \<^verbatim>\<open>Padlock_Get\<close>, \<^verbatim>\<open>Padlock_Set\<close>, \<^verbatim>\<open>Padlock_Allocate\<close>: the three operations against that view, for every
    sequence of failures; \<^verbatim>\<open>Padlock_Keystore\<close> interprets \<open>keystore\<close> on them.
  \<^item> \<^verbatim>\<open>Padlock_Config\<close>: \<open>padlock_version\<close>, \<open>padlock_free\<close>, \<open>padlock_parse_size\<close>, \<open>padlock_default_store_path\<close>,
    \<open>ensure_directory_tree\<close>, \<open>padlock_tpm_paths\<close>.
  \<^item> \<^verbatim>\<open>Padlock_Tpm\<close>: the functions \<open>padlock_tpm_*\<close> and the two \<open>padlock_derive_*\<close> functions, with tpm2-tss and the
    TPM as a parameter (\<open>tss2\<close>, laws \<open>tss_laws\<close>); \<^verbatim>\<open>Padlock_Seal\<close> proves their behaviour.
  \<^item> \<^verbatim>\<open>Padlock_Guard\<close>: the state of the module, its helpers and the requests of the control device; the
    locale \<open>inode_table\<close> says what the module relies on from its hash table and is interpreted on the
    array and the buckets. \<^verbatim>\<open>Padlock_Sessions\<close>: the abstract map of protected inodes, the invariant,
    the refinement, and runs of the module as an inductive relation.
  \<^item> \<^verbatim>\<open>Padlock_Probes\<close>: the probe handlers on saved registers, registration, loading and unloading, and what the
    calls of the probed hooks change (\<open>changes\<close>), against which the handlers are proved.
  \<^item> \<^verbatim>\<open>Padlock_Cli\<close>: every function of the command line program, with terminal, input and output as state
    and PAM as a parameter (\<open>pam\<close>, laws \<open>pam_laws\<close>). \<^verbatim>\<open>Padlock_Cli_Lemmas\<close>: its helpers, the service file, the
    prompt and the conversation; \<^verbatim>\<open>Padlock_Login\<close>: runs of the program without and with a login, and the
    commands \<open>set\<close> and \<open>get\<close> as a second interpretation of \<open>keystore\<close>; \<^verbatim>\<open>Padlock_First_Use\<close>: the command
    \<open>allocate\<close> on a machine without a key.
  \<^item> \<^verbatim>\<open>Padlock_Sample\<close>: a small cipher and a small store on which the theorems are applied.
  \<^item> \<^verbatim>\<open>Padlock_Theorems\<close>, \<^verbatim>\<open>Padlock_Key_Theorems\<close>, \<^verbatim>\<open>Padlock_Guard_Theorems\<close>, \<^verbatim>\<open>Padlock_Cli_Theorems\<close>: the properties, each with an
    application where it has hypotheses. Some properties of single functions stand in the theory
    of their component.

  \<^bold>\<open>How to read the definitions.\<close> A C function is one definition with the C name. A result \<open>None\<close> of
  the outer option means that the C code has undefined behaviour on that input (an access outside an
  array); failures that the code reports are values. The label \<open>done\<close> of a function is a definition
  of its own, called where the code jumps to it. A loop is a recursive function with a
  termination proof; the one loop that may not end, the drawing of a token, is a partial function,
  and it is proved when it ends. No fuel is used.

  \<^bold>\<open>What is shown.\<close> Reading returns the last value set; writing is atomic for every sequence of failing
  calls, outside an eight-byte window of the header write; creating publishes a complete store or
  nothing; any sequence of calls behaves as an append-only log; sealed secrets and keys are unsealed
  again; \<open>encrypt_secret\<close> and \<open>decrypt_secret\<close> scrub their frames on every path on which they return, and the
  functions on the TPM release all they took but the objects whose flush command fails; the control device
  implements its specification in every reachable state, a write session is exclusive, and the loaded module
  refuses exactly the unauthorised writes, truncations, removals and renames of protected files, except a rename
  over one; from the command line down to the file the commands of a user who logs
  in behave as an append-only log, on a new machine the first \<open>allocate\<close> makes the key and the store that the
  later commands need, and where the service file calls for a password, and can be read, a user whom PAM does not
  admit changes and sees nothing. The statements on sequences of calls and commands are for entries below
  \<open>2 ^ 31\<close> bytes, with keys of any length. Some theorems
  show defects: the 32-bit mask of \<open>align16\<close>, by which \<open>padlock_set\<close> overflows its buffer, the short
  buffer of \<open>decrypt_secret\<close>, the blob file that is never repaired, the session that any process can take
  over, the unterminated paths, the rename over a protected file, the stack pointer on x86_64, the service file check that fails open, the
  truncated path argument.

  \<^bold>\<open>Not modelled.\<close> The log messages of the kernel
  module, its locking (each request is one step, as its critical section is under one mutex) and
  the context in which probe handlers run. \<^verbatim>\<open>src/kernel/guard/hardcode_padlock_guard.mod.c\<close> is generated by
  the kernel build and has no logic. Concurrent access to a store file by several processes, timing,
  links and repeated slashes in path names, errors of the output streams (the program ignores them), the input
  that \<open>TCSAFLUSH\<close> discards, and the strength of the cryptography.
\<close>

end
